(* ===== verification/Z4_Prelude.thy ===== *)
theory Z4_Prelude
  imports Main "HOL-Library.Word" "HOL-Library.List_Lexorder" "HOL-Library.Sublist"
begin

text \<open>
  The layer every component of the development rests on: Go's byte slices and strings,
  the fixed-width big-endian integers of \<^verbatim>\<open>encoding/binary\<close>, the byte-wise order of
  \<^verbatim>\<open>bytes.Compare\<close> (the lexicographic order of \<open>List_Lexorder\<close> on byte lists), the
  prefix test of \<^verbatim>\<open>bytes.HasPrefix\<close> (\<open>prefix\<close> of \<open>Sublist\<close>), and the error
  values that the Go functions return.

  Conventions of the whole development. A Go function that returns \<open>(T, error)\<close> returns a
  value of \<open>error + 'a\<close>; one that returns only an \<open>error\<close> returns an \<open>error option\<close>, where
  \<open>None\<close> is \<open>nil\<close>. A panic is \<open>None\<close> of an outer \<open>option\<close>. State is passed explicitly and
  returned updated. The time that \<^verbatim>\<open>time.Now()\<close> returns is an argument.
\<close>

section \<open>Collections and types\<close>

named_theorems z4_bytes \<open>rewriting of byte encodings\<close>
named_theorems z4_keys \<open>the layout of database keys\<close>
named_theorems z4_db \<open>lookups after updates of the database\<close>

type_synonym byte = "8 word"
type_synonym bytes = "byte list"
type_synonym u64 = "64 word"

section \<open>Errors\<close>

text \<open>
  The errors the modelled code distinguishes. \<open>EWrap m e\<close> is \<^verbatim>\<open>fmt.Errorf("m: %w", e)\<close>;
  \<open>EStatus c m\<close> is the gRPC status \<^verbatim>\<open>status.Errorf(c, m)\<close>, without the text of errors that are
  formatted into it; \<open>EMsg m\<close> is \<^verbatim>\<open>errors.New(m)\<close>; \<open>EIO n\<close> is an error of the storage engine or of the
  network that the code does not inspect.
\<close>

datatype code = OK | InvalidArgument | NotFound | FailedPrecondition | Internal | Unavailable

datatype error =
    ErrNoTime
  | ErrNotFound
  | EOF
  | ErrUnexpectedEOF
  | EInvalidTaskID string
  | EEmptyID
  | EUnmarshal
  | EMarshal
  | EUnknownCommand
  | EBadLengthBuffer
  | ENoLeader
  | EIO nat
  | EWrap string error
  | EStatus code string
  | ETaskCreation code string
  | EMsg string

text \<open>\<^verbatim>\<open>errors.Is\<close>: an error matches a sentinel if it is the sentinel or wraps an error that matches.\<close>

fun errors_is :: "error \<Rightarrow> error \<Rightarrow> bool" where
  "errors_is (EWrap m e) t = (EWrap m e = t \<or> errors_is e t)"
| "errors_is e t = (e = t)"

lemma errors_is_refl [simp]: "errors_is e e"
  by (cases e) simp_all

section \<open>Lists and their lexicographic order\<close>

lemma append_less_iff [simp]: "(p @ xs < p @ ys) = (xs < (ys :: 'a::order list))"
  by (induction p) simp_all

lemma append_le_iff [simp]: "(p @ xs \<le> p @ ys) = (xs \<le> (ys :: 'a::order list))"
  by (induction p) simp_all

lemma append_less_append_iff:
  "length xs = length us \<Longrightarrow>
     (xs @ ys < us @ (vs :: 'a::linorder list)) = (xs < us \<or> xs = us \<and> ys < vs)"
  by (induction xs us rule: list_induct2) auto

lemma prefix_leI: "prefix p xs \<Longrightarrow> p \<le> (xs :: 'a::order list)"
  by (auto simp: prefix_def) (metis append_Nil2 append_le_iff Nil_le_Cons neq_Nil_conv order_refl)

lemma list_less_not_prefix:
  assumes "xs < (ys :: 'a::linorder list)" and "\<not> prefix xs ys"
  shows "xs @ us < ys @ vs"
  using assms
proof (induction xs arbitrary: ys)
  case (Cons x xs)
  then obtain y ys' where "ys = y # ys'"
    by (cases ys) auto
  with Cons show ?case by auto
qed simp

lemma prefix_between:
  assumes "p @ xs \<le> (ys :: 'a::linorder list)" and "ys \<le> p @ zs"
  shows "prefix p ys"
proof (rule ccontr)
  assume np: "\<not> prefix p ys"
  have "\<not> ys < p"
  proof
    assume "ys < p"
    then have "ys \<le> p" by simp
    also have "p \<le> p @ xs" by (rule prefix_leI) simp
    finally have "ys \<le> p @ xs" .
    with assms(1) have "ys = p @ xs" by simp
    with np show False by simp
  qed
  moreover have "ys \<noteq> p" using np by auto
  ultimately have "p < ys" by simp
  from list_less_not_prefix [OF this np, of zs "[]"] assms(2) show False by simp
qed

section \<open>Strings as bytes\<close>

text \<open>A Go string is a sequence of bytes; \<^verbatim>\<open>[]byte(s)\<close> is the list of them.\<close>

definition byte_of :: "char \<Rightarrow> byte" where
  "byte_of c = word_of_nat (of_char c)"

definition str_bytes :: "string \<Rightarrow> bytes" where
  "str_bytes s = map byte_of s"

lemma byte_of_inj [simp]: "(byte_of c = byte_of d) = (c = d)"
proof
  assume "byte_of c = byte_of d"
  then have "unat (byte_of c) = unat (byte_of d)" by simp
  then have "(of_char c :: nat) = of_char d"
    using nat_of_char_less_256 [of c] nat_of_char_less_256 [of d]
    by (simp add: byte_of_def unat_of_nat take_bit_eq_mod)
  then show "c = d" by simp
qed simp

lemma str_bytes_simps [simp]:
  "str_bytes [] = []"
  "str_bytes (c # s) = byte_of c # str_bytes s"
  "str_bytes (s @ t) = str_bytes s @ str_bytes t"
  by (simp_all add: str_bytes_def)

lemma length_str_bytes [simp]: "length (str_bytes s) = length s"
  by (simp add: str_bytes_def)

lemma str_bytes_inj [simp]: "(str_bytes s = str_bytes t) = (s = t)"
  by (simp add: str_bytes_def inj_map_eq_map inj_def)

lemma prefix_str_bytes [simp]: "prefix (str_bytes s) (str_bytes t) = prefix s t"
  by (induction s arbitrary: t) (case_tac [2] t, auto)

section \<open>Big-endian integers\<close>

text \<open>
  \<^verbatim>\<open>binary.BigEndian\<close> of \<^verbatim>\<open>encoding/binary\<close>: \<open>be_enc n x\<close> writes the low \<open>n\<close> bytes of
  \<open>x\<close>, most significant first; \<open>be_dec\<close> reads a whole byte list.
\<close>

fun be_enc :: "nat \<Rightarrow> nat \<Rightarrow> bytes" where
  "be_enc 0 x = []"
| "be_enc (Suc n) x = be_enc n (x div 256) @ [word_of_nat (x mod 256)]"

definition be_dec :: "bytes \<Rightarrow> nat" where
  "be_dec bs = foldl (\<lambda>a b. a * 256 + unat b) 0 bs"

definition PutUint64 :: "u64 \<Rightarrow> bytes" where
  "PutUint64 v = be_enc 8 (unat v)"

definition PutUint32 :: "32 word \<Rightarrow> bytes" where
  "PutUint32 v = be_enc 4 (unat v)"

text \<open>\<^verbatim>\<open>Uint64\<close> and \<^verbatim>\<open>Uint32\<close> read the first bytes of the slice and panic when it is too short.\<close>

definition Uint64 :: "bytes \<Rightarrow> u64 option" where
  "Uint64 b = (if length b < 8 then None else Some (word_of_nat (be_dec (take 8 b))))"

definition Uint32 :: "bytes \<Rightarrow> 32 word option" where
  "Uint32 b = (if length b < 4 then None else Some (word_of_nat (be_dec (take 4 b))))"

lemma length_be_enc [simp]: "length (be_enc n x) = n"
  by (induction n arbitrary: x) simp_all

lemma be_dec_Nil [simp]: "be_dec [] = 0"
  by (simp add: be_dec_def)

lemma be_dec_snoc [simp]: "be_dec (bs @ [b]) = be_dec bs * 256 + unat b"
  by (simp add: be_dec_def)

lemma be_dec_append: "be_dec (xs @ ys) = be_dec xs * 256 ^ length ys + be_dec ys"
proof (induction ys rule: rev_induct)
  case (snoc y ys)
  have "be_dec (xs @ ys @ [y]) = be_dec (xs @ ys) * 256 + unat y"
    by (metis append_assoc be_dec_snoc)
  then show ?case by (simp add: snoc algebra_simps)
qed simp

lemma be_dec_Cons: "be_dec (b # bs) = unat b * 256 ^ length bs + be_dec bs"
  using be_dec_append [of "[b]" bs] be_dec_snoc [of "[]" b] by simp

lemma unat_byte_less [simp]: "unat (b :: byte) < 256"
  using unsigned_less [of b, where ?'a = nat] by simp

lemma unat_word_of_nat_byte [simp]: "unat (word_of_nat (x mod 256) :: byte) = x mod 256"
  by (simp add: unat_of_nat take_bit_eq_mod)

lemma be_dec_be_enc [z4_bytes]: "be_dec (be_enc n x) = x mod 256 ^ n"
proof (induction n arbitrary: x)
  case (Suc n)
  have "x mod (256 * 256 ^ n) = 256 * (x div 256 mod 256 ^ n) + x mod 256"
    by (rule mod_mult2_eq)
  with Suc show ?case by (simp add: mult.commute)
qed simp

lemma be_enc_be_dec [z4_bytes]: "be_enc (length bs) (be_dec bs) = bs"
proof (induction bs rule: rev_induct)
  case (snoc b bs)
  have "(be_dec bs * 256 + unat b) mod 256 = unat b"
    and "(be_dec bs * 256 + unat b) div 256 = be_dec bs"
    by simp_all
  with snoc show ?case by simp
qed simp

lemma be_dec_less: "be_dec bs < 256 ^ length bs"
  by (metis be_dec_be_enc be_enc_be_dec mod_less_divisor zero_less_numeral zero_less_power)

lemma be_dec_inj: "length xs = length ys \<Longrightarrow> be_dec xs = be_dec ys \<Longrightarrow> xs = ys"
  by (metis be_enc_be_dec)

text \<open>The order of equally long byte lists is the order of the numbers they encode.\<close>

lemma be_dec_less_iff: "length xs = length ys \<Longrightarrow> (xs < ys) = (be_dec xs < be_dec ys)"
proof (induction xs ys rule: list_induct2)
  case (Cons x xs y ys)
  have b: "be_dec xs < 256 ^ length ys" "be_dec ys < 256 ^ length ys"
    using be_dec_less [of xs] be_dec_less [of ys] Cons.hyps by simp_all
  have lt: "m * k + a < n * k + b" if "m < n" "a < k" for m n a b k :: nat
  proof -
    have "m * k + a < Suc m * k" using that by simp
    also have "\<dots> \<le> n * k" using that by (intro mult_le_mono) simp_all
    finally show ?thesis by simp
  qed
  consider "x < y" | "x = y" | "y < x" by fastforce
  then show ?case
  proof cases
    case 1
    then have "unat x < unat y" by (simp add: word_less_nat_alt)
    from lt [OF this b(1), of "be_dec ys"] 1 show ?thesis
      by (simp add: be_dec_Cons Cons.hyps)
  next
    case 2
    then show ?thesis using Cons.IH by (simp add: be_dec_Cons Cons.hyps)
  next
    case 3
    then have "unat y < unat x" by (simp add: word_less_nat_alt)
    from lt [OF this b(2), of "be_dec xs"] 3 show ?thesis
      by (auto simp: be_dec_Cons Cons.hyps)
  qed
qed simp

lemma length_PutUint64 [simp]: "length (PutUint64 v) = 8"
  by (simp add: PutUint64_def)

lemma length_PutUint32 [simp]: "length (PutUint32 v) = 4"
  by (simp add: PutUint32_def)

lemma be_dec_PutUint64 [simp]: "be_dec (PutUint64 v) = unat v"
  using unsigned_less [of v, where ?'a = nat] by (simp add: PutUint64_def be_dec_be_enc)

lemma be_dec_PutUint32 [simp]: "be_dec (PutUint32 v) = unat v"
  using unsigned_less [of v, where ?'a = nat] by (simp add: PutUint32_def be_dec_be_enc)

lemma Uint64_PutUint64 [simp]: "Uint64 (PutUint64 v @ rest) = Some v"
  by (simp add: Uint64_def)

lemma Uint64_PutUint64_Nil [simp]: "Uint64 (PutUint64 v) = Some v"
  using Uint64_PutUint64 [of v "[]"] by simp

lemma Uint32_PutUint32 [simp]: "Uint32 (PutUint32 v) = Some v"
  by (simp add: Uint32_def)

lemma PutUint64_inj [simp]: "(PutUint64 v = PutUint64 w) = (v = w)"
  by (metis Uint64_PutUint64_Nil option.inject)

lemma PutUint64_less_iff [simp]: "(PutUint64 v < PutUint64 w) = (v < w)"
  by (simp add: be_dec_less_iff word_less_nat_alt)

lemma PutUint64_le_iff [simp]: "(PutUint64 v \<le> PutUint64 w) = (v \<le> w)"
  by (simp add: order_le_less)

lemma PutUint64_be_dec: "length bs = 8 \<Longrightarrow> PutUint64 (word_of_nat (be_dec bs)) = bs"
  using be_dec_less [of bs] be_enc_be_dec [of bs]
  by (simp add: PutUint64_def unat_of_nat take_bit_eq_mod)

lemma hd_PutUint64: "(hd (PutUint64 v) = 0) = (unat v < 2 ^ 56)"
proof -
  obtain b bs where bs: "PutUint64 v = b # bs" "length bs = 7"
    using length_PutUint64 [of v] by (cases "PutUint64 v") auto
  then have "unat v = unat b * 256 ^ 7 + be_dec bs"
    by (metis be_dec_Cons be_dec_PutUint64)
  moreover have "be_dec bs < 256 ^ 7" using be_dec_less [of bs] bs(2) by simp
  ultimately show ?thesis
    by (cases "unat b") (auto simp: bs(1) unat_eq_zero)
qed

section \<open>Lists without repetition\<close>

lemma distinct_singleton:
  assumes "distinct xs" "set xs = {x}"
  shows "xs = [x]"
proof (cases xs)
  case (Cons y ys)
  with assms have y: "y = x" "set ys \<subseteq> {x}" "x \<notin> set ys" by auto
  from y(2,3) have "set ys = {}" unfolding subset_singleton_iff by auto
  with Cons y(1) show ?thesis by simp
qed (use assms in simp)

lemma sorted_wrt_distinct: "sorted_wrt r xs \<Longrightarrow> (\<And>x. \<not> r x x) \<Longrightarrow> distinct xs"
  by (induction xs) auto

end
