(* ===== verification/Go_Time.thy ===== *)
theory Go_Time
  imports Z4_Prelude
begin

text \<open>
  The part of Go's \<^verbatim>\<open>time\<close> package that the repository uses, and the conversions of
  \<^verbatim>\<open>timestamppb\<close>. A \<^verbatim>\<open>time.Time\<close> holds the signed 64-bit number of seconds since the first
  of January of the year 1 and the nanoseconds within the second; the location and the
  monotonic clock reading have no influence on the operations used. A \<^verbatim>\<open>time.Duration\<close> is a
  signed 64-bit number of nanoseconds. Signed 64-bit values are \<open>int\<close>s; where Go's arithmetic
  wraps, \<open>wrap64\<close> is written out.
\<close>

definition wrap64 :: "int \<Rightarrow> int" where
  "wrap64 x = sint (word_of_int x :: u64)"

definition MaxInt64 :: int where "MaxInt64 = 9223372036854775807"
definition MinInt64 :: int where "MinInt64 = -9223372036854775808"

definition is_int64 :: "int \<Rightarrow> bool" where
  "is_int64 x = (MinInt64 \<le> x \<and> x \<le> MaxInt64)"

lemma wrap64_id: "is_int64 x \<Longrightarrow> wrap64 x = x"
  by (simp add: wrap64_def is_int64_def MaxInt64_def MinInt64_def signed_of_int
      signed_take_bit_int_eq_self)

lemma is_int64_wrap64 [simp]: "is_int64 (wrap64 x)"
  using sint_lt [of "word_of_int x :: u64"] sint_ge [of "word_of_int x :: u64"]
  by (simp add: wrap64_def is_int64_def MaxInt64_def MinInt64_def)

lemma word_of_int_wrap64 [simp]: "(word_of_int (wrap64 x) :: u64) = word_of_int x"
  by (simp add: wrap64_def)

section \<open>Times and durations\<close>

record time =
  t_sec :: int
  t_nsec :: int

definition nsec_per_sec :: int where "nsec_per_sec = 1000000000"

text \<open>\<^verbatim>\<open>unixToInternal\<close>: the seconds from the year 1 to 1970.\<close>

definition unixToInternal :: int where "unixToInternal = 62135596800"

definition time_ok :: "time \<Rightarrow> bool" where
  "time_ok t = (is_int64 (t_sec t) \<and> 0 \<le> t_nsec t \<and> t_nsec t < nsec_per_sec)"

text \<open>\<^verbatim>\<open>time.Time{}\<close>, the zero time.\<close>

definition zero_time :: time where
  "zero_time = \<lparr>t_sec = 0, t_nsec = 0\<rparr>"

definition IsZero :: "time \<Rightarrow> bool" where
  "IsZero t = (t_sec t = 0 \<and> t_nsec t = 0)"

text \<open>\<^verbatim>\<open>time.Unix(sec, nsec)\<close> normalises the nanoseconds into the seconds.\<close>

definition time_Unix :: "int \<Rightarrow> int \<Rightarrow> time" where
  "time_Unix s n =
     \<lparr>t_sec = wrap64 (s + n div nsec_per_sec + unixToInternal), t_nsec = n mod nsec_per_sec\<rparr>"

text \<open>\<^verbatim>\<open>t.Unix()\<close>, and \<^verbatim>\<open>t.UnixNano()\<close>, whose multiplication wraps outside the years 1678 to 2262.\<close>

definition UnixSec :: "time \<Rightarrow> int" where
  "UnixSec t = wrap64 (t_sec t - unixToInternal)"

definition UnixNano :: "time \<Rightarrow> int" where
  "UnixNano t = wrap64 ((t_sec t - unixToInternal) * nsec_per_sec + t_nsec t)"

definition Before :: "time \<Rightarrow> time \<Rightarrow> bool" where
  "Before t u = (t_sec t < t_sec u \<or> t_sec t = t_sec u \<and> t_nsec t < t_nsec u)"

text \<open>\<^verbatim>\<open>t.Add(d)\<close> saturates the seconds instead of wrapping them.\<close>

definition sat_sec :: "int \<Rightarrow> int" where
  "sat_sec x = (if x > MaxInt64 then MaxInt64 else if x < MinInt64 then - MaxInt64 else x)"

definition time_Add :: "time \<Rightarrow> int \<Rightarrow> time" where
  "time_Add t d =
     \<lparr>t_sec = sat_sec (t_sec t + (t_nsec t + d) div nsec_per_sec),
      t_nsec = (t_nsec t + d) mod nsec_per_sec\<rparr>"

text \<open>\<^verbatim>\<open>t.Sub(u)\<close>, the saturated difference.\<close>

definition time_Sub :: "time \<Rightarrow> time \<Rightarrow> int" where
  "time_Sub t u =
     (let d = (t_sec t - t_sec u) * nsec_per_sec + (t_nsec t - t_nsec u)
      in if d > MaxInt64 then MaxInt64 else if d < MinInt64 then MinInt64 else d)"

text \<open>\<^verbatim>\<open>time.Second * time.Duration(n)\<close>\<close>

definition seconds :: "int \<Rightarrow> int" where
  "seconds n = wrap64 (n * nsec_per_sec)"

text \<open>The times whose \<^verbatim>\<open>UnixNano\<close> does not overflow.\<close>

definition in_nano_range :: "time \<Rightarrow> bool" where
  "in_nano_range t = is_int64 ((t_sec t - unixToInternal) * nsec_per_sec + t_nsec t)"

lemma is_int64_UnixNano [simp]: "is_int64 (UnixNano t)"
  by (simp add: UnixNano_def)

lemma UnixNano_in_range:
  "in_nano_range t \<Longrightarrow> UnixNano t = (t_sec t - unixToInternal) * nsec_per_sec + t_nsec t"
  by (simp add: UnixNano_def in_nano_range_def wrap64_id)

lemma time_Unix_UnixNano:
  assumes "time_ok t" and "in_nano_range t"
  shows "time_Unix 0 (UnixNano t) = t"
proof -
  have n: "0 \<le> t_nsec t" "t_nsec t < 1000000000" and s: "is_int64 (t_sec t)"
    using assms(1) by (simp_all add: time_ok_def nsec_per_sec_def)
  have u: "UnixNano t = (t_sec t - unixToInternal) * 1000000000 + t_nsec t"
    using UnixNano_in_range [OF assms(2)] by (simp add: nsec_per_sec_def)
  have "UnixNano t div 1000000000 = t_sec t - unixToInternal"
    and "UnixNano t mod 1000000000 = t_nsec t"
    using n unfolding u by (simp_all only: div_mult_self3 mod_mult_self3) simp_all
  with s show ?thesis
    by (simp add: time_Unix_def wrap64_id nsec_per_sec_def)
qed

text \<open>Times given by different numbers of nanoseconds are different.\<close>

lemma time_Unix_inj:
  assumes "is_int64 m" and "is_int64 n"
  shows "(time_Unix 0 m = time_Unix 0 n) = (m = n)"
proof
  assume eq: "time_Unix 0 m = time_Unix 0 n"
  have range: "is_int64 (k div 1000000000 + unixToInternal)" if "is_int64 k" for k
  proof -
    have "-9223372036854775808 div 1000000000 \<le> k div 1000000000"
      and "k div 1000000000 \<le> 9223372036854775807 div 1000000000"
      using that by (auto simp: is_int64_def MaxInt64_def MinInt64_def intro!: zdiv_mono1)
    then show ?thesis
      by (simp add: is_int64_def MaxInt64_def MinInt64_def unixToInternal_def)
  qed
  have "m div 1000000000 = n div 1000000000" and "m mod 1000000000 = n mod 1000000000"
    using eq range [OF assms(1)] range [OF assms(2)]
    by (simp_all add: time_Unix_def nsec_per_sec_def wrap64_id)
  then show "m = n" by (metis div_mult_mod_eq)
qed simp

text \<open>Inside the range, the order of the times is the order of their nanoseconds.\<close>

lemma Before_UnixNano:
  assumes "time_ok t" "time_ok u" "in_nano_range t" "in_nano_range u"
  shows "Before t u = (UnixNano t < UnixNano u)"
  using assms
  by (auto simp: UnixNano_in_range Before_def time_ok_def nsec_per_sec_def)

lemma time_ok_zero [simp]: "time_ok zero_time"
  by (simp add: time_ok_def zero_time_def is_int64_def MinInt64_def MaxInt64_def nsec_per_sec_def)

text \<open>Evaluation of the operations on concrete times.\<close>

lemmas go_time_eval = time_ok_def in_nano_range_def time_Unix_def UnixNano_def UnixSec_def Before_def
  nsec_per_sec_def unixToInternal_def is_int64_def MinInt64_def MaxInt64_def wrap64_def signed_of_int
  signed_take_bit_int_eq_self

section \<open>Protobuf timestamps\<close>

text \<open>
  \<^verbatim>\<open>google.protobuf.Timestamp\<close> and the conversions of \<^verbatim>\<open>timestamppb\<close>. A field that is not set
  is a \<open>nil\<close> pointer, \<open>None\<close>, whose \<^verbatim>\<open>AsTime\<close> is the epoch.
\<close>

record timestamp =
  ts_seconds :: int
  ts_nanos :: int

definition timestamppb_New :: "time \<Rightarrow> timestamp" where
  "timestamppb_New t = \<lparr>ts_seconds = UnixSec t, ts_nanos = t_nsec t\<rparr>"

definition AsTime :: "timestamp option \<Rightarrow> time" where
  "AsTime x = (case x of None \<Rightarrow> time_Unix 0 0 | Some ts \<Rightarrow> time_Unix (ts_seconds ts) (ts_nanos ts))"

lemma AsTime_timestamppb_New:
  assumes "time_ok t"
  shows "AsTime (Some (timestamppb_New t)) = t"
proof -
  have "word_of_int (wrap64 (t_sec t - unixToInternal) + unixToInternal) = (word_of_int (t_sec t) :: u64)"
    by (metis diff_add_cancel wi_hom_add word_of_int_wrap64)
  then have "wrap64 (wrap64 (t_sec t - unixToInternal) + unixToInternal) = wrap64 (t_sec t)"
    unfolding wrap64_def by metis
  with assms show ?thesis
    by (simp add: AsTime_def timestamppb_New_def time_Unix_def UnixSec_def time_ok_def wrap64_id)
qed

end
