(* ===== verification/Iden.thy ===== *)
theory Iden
  imports Go_Time
begin

text \<open>
  The package \<^verbatim>\<open>iden\<close> (\<^verbatim>\<open>src/iden/id.go\<close>, \<^verbatim>\<open>src/iden/parse.go\<close>): task identifiers. An
  identifier is an array of 16 bytes, the nanoseconds of a time followed by an index, both
  big-endian. Its textual form is the base 62 numeral of the 16 bytes read as one number, as
  \<^verbatim>\<open>math/big\<close> writes and reads it. The lemmas give the exact inverse of the fields, the exact
  outcome of printing and parsing, and the order of identifiers.
\<close>

section \<open>Identifiers\<close>

type_synonym TaskID = bytes

definition TaskID_ok :: "TaskID \<Rightarrow> bool" where
  "TaskID_ok t = (length t = 16)"

definition iden_New :: "time \<Rightarrow> u64 \<Rightarrow> TaskID" where
  "iden_New ts index = PutUint64 (word_of_int (UnixNano ts)) @ PutUint64 index"

definition iden_Min :: TaskID where
  "iden_Min = iden_New (time_Unix 0 0) 0"

definition iden_Max :: TaskID where
  "iden_Max = iden_New (time_Unix MaxInt64 0) (- 1)"

definition zeroTime :: time where
  "zeroTime = time_Unix 0 (UnixNano zero_time)"

definition MustTime :: "TaskID \<Rightarrow> time" where
  "MustTime t = (let ts = word_of_nat (be_dec (take 8 t)) :: u64 in time_Unix 0 (sint ts))"

definition TaskID_Time :: "TaskID \<Rightarrow> error + time" where
  "TaskID_Time t =
     (let ts = word_of_nat (be_dec (take 8 t)) :: u64
      in if time_Unix 0 (sint ts) = zeroTime then Inl ErrNoTime else Inr (time_Unix 0 (sint ts)))"

definition TaskID_Index :: "TaskID \<Rightarrow> u64" where
  "TaskID_Index t = word_of_nat (be_dec (drop 8 t))"

section \<open>Base 62 numerals of \<^verbatim>\<open>math/big\<close>\<close>

text \<open>The digits are \<^verbatim>\<open>0-9\<close>, \<^verbatim>\<open>a-z\<close>, \<^verbatim>\<open>A-Z\<close>, in this order of values.\<close>

definition digit_char :: "nat \<Rightarrow> char" where
  "digit_char d =
     (if d < 10 then char_of (48 + d) else if d < 36 then char_of (87 + d) else char_of (29 + d))"

definition digit_val :: "char \<Rightarrow> nat option" where
  "digit_val c =
     (let n = of_char c
      in if 48 \<le> n \<and> n \<le> 57 then Some (n - 48)
         else if 97 \<le> n \<and> n \<le> 122 then Some (n - 87)
         else if 65 \<le> n \<and> n \<le> 90 then Some (n - 29)
         else None)"

text \<open>\<^verbatim>\<open>i.Text(62)\<close> of a number that is not negative.\<close>

fun big_Text :: "nat \<Rightarrow> string" where
  "big_Text n = (if n < 62 then [digit_char n] else big_Text (n div 62) @ [digit_char (n mod 62)])"

declare big_Text.simps [simp del]

text \<open>
  \<^verbatim>\<open>i.SetString(v, 62)\<close>: an optional sign, then at least one digit and nothing else. The model
  keeps the absolute value only, which is all that \<^verbatim>\<open>i.Bytes()\<close> shows.
\<close>

fun scan_digits :: "nat \<Rightarrow> string \<Rightarrow> nat option" where
  "scan_digits acc [] = Some acc"
| "scan_digits acc (c # cs) =
     (case digit_val c of None \<Rightarrow> None | Some d \<Rightarrow> scan_digits (acc * 62 + d) cs)"

fun scan_sign :: "string \<Rightarrow> string" where
  "scan_sign [] = []"
| "scan_sign (c # cs) = (if c = CHR ''-'' \<or> c = CHR ''+'' then cs else c # cs)"

definition big_SetString :: "string \<Rightarrow> nat option" where
  "big_SetString v = (let ds = scan_sign v in if ds = [] then None else scan_digits 0 ds)"

text \<open>\<^verbatim>\<open>i.SetBytes\<close> is \<open>be_dec\<close>; \<^verbatim>\<open>i.Bytes()\<close> has no leading zero byte.\<close>

fun big_Bytes :: "nat \<Rightarrow> bytes" where
  "big_Bytes n = (if n = 0 then [] else big_Bytes (n div 256) @ [word_of_nat (n mod 256)])"

declare big_Bytes.simps [simp del]

section \<open>Printing and parsing identifiers\<close>

definition TaskID_String :: "TaskID \<Rightarrow> string" where
  "TaskID_String t = big_Text (be_dec t)"

text \<open>\<^verbatim>\<open>copy(id[:], src)\<close> fills a zeroed array of 16 bytes from the left.\<close>

definition copy16 :: "bytes \<Rightarrow> TaskID" where
  "copy16 src = take 16 src @ replicate (16 - length src) 0"

definition ParseString :: "string \<Rightarrow> error + TaskID" where
  "ParseString v =
     (case big_SetString v of
        None \<Rightarrow> Inl (EInvalidTaskID v)
      | Some i \<Rightarrow> Inr (copy16 (big_Bytes i)))"

text \<open>\<^verbatim>\<open>MustParseString\<close> panics, \<open>None\<close>, where \<^verbatim>\<open>ParseString\<close> fails.\<close>

definition MustParseString :: "string \<Rightarrow> TaskID option" where
  "MustParseString v = (case ParseString v of Inl _ \<Rightarrow> None | Inr t \<Rightarrow> Some t)"

section \<open>Fields\<close>

lemma TaskID_ok_New [simp]: "TaskID_ok (iden_New ts i)"
  by (simp add: TaskID_ok_def iden_New_def)

lemma length_iden_New [simp]: "length (iden_New ts i) = 16"
  by (simp add: iden_New_def)

lemma TaskID_Index_New [simp]: "TaskID_Index (iden_New ts i) = i"
  by (simp add: TaskID_Index_def iden_New_def)

lemma take8_New: "word_of_nat (be_dec (take 8 (iden_New ts i))) = (word_of_int (UnixNano ts) :: u64)"
  by (simp add: iden_New_def)

lemma sint_UnixNano [simp]: "sint (word_of_int (UnixNano ts) :: u64) = UnixNano ts"
  by (simp add: UnixNano_def wrap64_def)

lemma MustTime_New [simp]: "MustTime (iden_New ts i) = time_Unix 0 (UnixNano ts)"
  by (simp add: MustTime_def take8_New)

lemma zero_time_nano: "UnixNano zero_time = - 6795364578871345152"
  by (simp add: UnixNano_def zero_time_def unixToInternal_def nsec_per_sec_def wrap64_def)

lemma TaskID_Time_New:
  "TaskID_Time (iden_New ts i) =
     (if UnixNano ts = UnixNano zero_time then Inl ErrNoTime else Inr (time_Unix 0 (UnixNano ts)))"
  by (simp add: TaskID_Time_def take8_New zeroTime_def time_Unix_inj)

text \<open>Every identifier is \<^verbatim>\<open>New\<close> of its own time and index.\<close>

lemma UnixNano_time_Unix:
  assumes "is_int64 n"
  shows "UnixNano (time_Unix 0 n) = n"
proof -
  have w: "(word_of_int ((wrap64 (n div 1000000000 + unixToInternal) - unixToInternal) * 1000000000
        + n mod 1000000000) :: u64) = word_of_int n"
  proof -
    have "(word_of_int (wrap64 (n div 1000000000 + unixToInternal) - unixToInternal) :: u64)
        = word_of_int (n div 1000000000)"
      by (metis add_diff_cancel_right' wi_hom_sub word_of_int_wrap64)
    then have "(word_of_int ((wrap64 (n div 1000000000 + unixToInternal) - unixToInternal) * 1000000000
        + n mod 1000000000) :: u64) = word_of_int (n div 1000000000 * 1000000000 + n mod 1000000000)"
      by (metis wi_hom_add wi_hom_mult)
    then show ?thesis by simp
  qed
  then have "wrap64 ((wrap64 (n div 1000000000 + unixToInternal) - unixToInternal) * 1000000000
        + n mod 1000000000) = wrap64 n"
    unfolding wrap64_def by metis
  with assms show ?thesis
    by (simp add: UnixNano_def time_Unix_def nsec_per_sec_def wrap64_id)
qed

lemma is_int64_sint [simp]: "is_int64 (sint (w :: u64))"
  using is_int64_wrap64 [of "sint w"] by (simp add: wrap64_def)

lemma iden_New_fields:
  assumes "TaskID_ok t"
  shows "iden_New (MustTime t) (TaskID_Index t) = t"
proof -
  have "PutUint64 (word_of_nat (be_dec (take 8 t))) = take 8 t"
    and "PutUint64 (word_of_nat (be_dec (drop 8 t))) = drop 8 t"
    using assms by (simp_all add: TaskID_ok_def PutUint64_be_dec)
  then show ?thesis
    by (simp add: iden_New_def MustTime_def UnixNano_time_Unix TaskID_Index_def)
qed

section \<open>Base 62 is read back\<close>

lemma digit_val_char: "d < 62 \<Longrightarrow> digit_val (digit_char d) = Some d"
  by (auto simp: digit_val_def digit_char_def Let_def)

lemma digit_char_not_sign: "d < 62 \<Longrightarrow> digit_char d \<noteq> CHR ''-'' \<and> digit_char d \<noteq> CHR ''+''"
proof -
  assume "d < 62"
  then have "digit_val (digit_char d) \<noteq> None" by (simp add: digit_val_char)
  moreover have "digit_val CHR ''-'' = None" "digit_val CHR ''+'' = None"
    by (simp_all add: digit_val_def)
  ultimately show ?thesis by metis
qed

lemma scan_digits_append:
  "scan_digits a (xs @ ys) = (case scan_digits a xs of None \<Rightarrow> None | Some b \<Rightarrow> scan_digits b ys)"
  by (induction xs arbitrary: a) (auto split: option.splits)

lemma scan_digits_Text: "scan_digits 0 (big_Text n) = Some n"
proof (induction n rule: big_Text.induct)
  case (1 n)
  then show ?case
    by (subst big_Text.simps) (auto simp: digit_val_char scan_digits_append div_mult_mod_eq)
qed

lemma big_Text_Cons: "\<exists>d cs. d < 62 \<and> big_Text n = digit_char d # cs"
proof (induction n rule: big_Text.induct)
  case (1 n)
  then show ?case by (subst big_Text.simps) (auto, blast)
qed

lemma big_SetString_Text [simp]: "big_SetString (big_Text n) = Some n"
proof -
  obtain d cs where "d < 62" "big_Text n = digit_char d # cs"
    using big_Text_Cons by blast
  then have "scan_sign (big_Text n) = big_Text n" "big_Text n \<noteq> []"
    using digit_char_not_sign [of d] by simp_all
  then show ?thesis by (simp add: big_SetString_def scan_digits_Text)
qed

lemma big_Bytes_eq_Nil [simp]: "(big_Bytes n = []) = (n = 0)"
  by (subst big_Bytes.simps) simp

lemma big_Bytes_0 [simp]: "big_Bytes 0 = []"
  by simp

lemma big_Bytes_snoc:
  "be_dec bs \<noteq> 0 \<or> b \<noteq> 0 \<Longrightarrow> big_Bytes (be_dec (bs @ [b])) = big_Bytes (be_dec bs) @ [b]"
  by (subst big_Bytes.simps) (auto simp: unat_eq_zero)

lemma big_Bytes_be_dec: "big_Bytes (be_dec bs) = dropWhile (\<lambda>b. b = 0) bs"
proof (induction bs rule: rev_induct)
  case (snoc b bs)
  show ?case
  proof (cases "be_dec bs = 0 \<and> b = 0")
    case True
    then have "dropWhile (\<lambda>b. b = 0) bs = []"
      using snoc by simp
    with True show ?thesis
      by (simp add: dropWhile_append)
  next
    case False
    then have "big_Bytes (be_dec (bs @ [b])) = dropWhile (\<lambda>b. b = 0) bs @ [b]"
      using snoc by (simp only: big_Bytes_snoc de_Morgan_conj)
    moreover have "dropWhile (\<lambda>b. b = 0) bs = [] \<Longrightarrow> b \<noteq> 0"
      using False snoc by (metis big_Bytes_eq_Nil)
    ultimately show ?thesis
      by (cases "dropWhile (\<lambda>b. b = 0) bs = []") (auto simp: dropWhile_append)
  qed
qed simp

lemma length_copy16 [simp]: "length (copy16 bs) = 16"
  by (simp add: copy16_def)

lemma ParseString_ok: "ParseString v = Inr t \<Longrightarrow> TaskID_ok t"
  by (auto simp: ParseString_def TaskID_ok_def split: option.splits)

lemma ParseString_String: "ParseString (TaskID_String t) = Inr (copy16 (dropWhile (\<lambda>b. b = 0) t))"
  by (simp add: ParseString_def TaskID_String_def big_Bytes_be_dec)

lemma copy16_id: "length t = 16 \<Longrightarrow> copy16 t = t"
  by (simp add: copy16_def)

lemma ParseString_String_hd:
  "TaskID_ok t \<Longrightarrow> hd t \<noteq> 0 \<Longrightarrow> ParseString (TaskID_String t) = Inr t"
  by (cases t) (simp_all add: ParseString_String TaskID_ok_def copy16_id)

lemma MustParseString_String_hd:
  "TaskID_ok t \<Longrightarrow> hd t \<noteq> 0 \<Longrightarrow> MustParseString (TaskID_String t) = Some t"
  by (simp add: MustParseString_def ParseString_String_hd)

section \<open>Properties\<close>

lemma PutUint64_nonneg_less:
  assumes "0 \<le> m" "0 \<le> n" "is_int64 m" "is_int64 n"
  shows "((word_of_int m :: u64) < word_of_int n) = (m < n)" "((word_of_int m :: u64) = word_of_int n) = (m = n)"
proof -
  have small: "uint (word_of_int k :: u64) = k" if "0 \<le> k" "is_int64 k" for k
    using that by (simp add: unsigned_of_int take_bit_int_eq_self is_int64_def MaxInt64_def)
  show "((word_of_int m :: u64) < word_of_int n) = (m < n)" "((word_of_int m :: u64) = word_of_int n) = (m = n)"
    using assms by (simp add: word_less_def small, metis small)
qed

text \<open>The first byte is zero for the times from 1970 to April 1972.\<close>

lemma uint_UnixNano: "uint (word_of_int (UnixNano ts) :: u64) = (if UnixNano ts < 0 then UnixNano ts + 2 ^ 64 else UnixNano ts)"
proof -
  have "UnixNano ts mod 2 ^ 64 = (UnixNano ts + 2 ^ 64) mod 2 ^ 64" by simp
  then show ?thesis
    using is_int64_UnixNano [of ts] mod_pos_pos_trivial [of "UnixNano ts + 2 ^ 64" "2 ^ 64"]
    by (auto simp: unsigned_of_int take_bit_eq_mod is_int64_def MinInt64_def MaxInt64_def)
qed

lemma hd_iden_New: "(hd (iden_New ts i) \<noteq> 0) = (UnixNano ts < 0 \<or> 2 ^ 56 \<le> UnixNano ts)"
proof -
  have "PutUint64 v \<noteq> []" for v using length_PutUint64 [of v] by fastforce
  then have "hd (iden_New ts i) = hd (PutUint64 (word_of_int (UnixNano ts)))"
    by (simp add: iden_New_def hd_append)
  moreover have "(unat v < 2 ^ 56) = (uint v < 2 ^ 56)" for v :: u64
    proof -
    have "(unat v < 2 ^ 56) = (v < 72057594037927936)" by (simp add: word_less_nat_alt)
    moreover have "(uint v < 2 ^ 56) = (v < 72057594037927936)" by (simp add: word_less_def)
    ultimately show ?thesis by simp
  qed
  ultimately have "(hd (iden_New ts i) = 0) = (uint (word_of_int (UnixNano ts) :: u64) < 2 ^ 56)"
    by (simp only: hd_PutUint64)
  then show ?thesis
    using is_int64_UnixNano [of ts] unfolding uint_UnixNano by (auto simp: is_int64_def MinInt64_def split: if_splits)
qed

lemma iden_New_less_iff:
  "(iden_New a i < iden_New b j) =
     (word_of_int (UnixNano a) < (word_of_int (UnixNano b) :: u64) \<or>
      word_of_int (UnixNano a) = (word_of_int (UnixNano b) :: u64) \<and> i < j)"
  by (simp add: iden_New_def append_less_append_iff)

text \<open>The time in the largest identifier wraps around to one before 1970.\<close>

lemma iden_Max_nano: "UnixNano (time_Unix MaxInt64 0) = - 1000000000"
  by (simp add: UnixNano_def time_Unix_def MaxInt64_def nsec_per_sec_def unixToInternal_def wrap64_def)

lemma copy16_dropWhile:
  assumes "TaskID_ok t"
  shows "(copy16 (dropWhile (\<lambda>b. b = 0) t) = t) = (hd t \<noteq> 0 \<or> t = replicate 16 0)"
proof (cases "hd t = 0")
  case True
  show ?thesis
  proof (cases "dropWhile (\<lambda>b. b = 0) t")
    case Nil
    then have "\<forall>b \<in> set t. b = 0" by (simp add: dropWhile_eq_Nil_conv)
    then have "t = replicate 16 0" using assms by (simp add: TaskID_ok_def replicate_eqI)
    with True show ?thesis by (simp add: copy16_def)
  next
    case (Cons b bs)
    then have "b \<noteq> 0" by (simp add: dropWhile_eq_Cons_conv)
    then have "hd (copy16 (dropWhile (\<lambda>b. b = 0) t)) \<noteq> 0" by (simp add: Cons copy16_def)
    moreover have "t \<noteq> replicate 16 0" using Cons by auto
    ultimately show ?thesis using True by metis
  qed
next
  case False
  then have "dropWhile (\<lambda>b. b = 0) t = t"
    using assms by (cases t) (auto simp: TaskID_ok_def)
  with False assms show ?thesis by (simp add: copy16_id TaskID_ok_def)
qed

text \<open>C40. Parsing the printed form of an identifier gives the identifier back exactly when its first
  byte is not zero (or all of its bytes are): the bytes that \<^verbatim>\<open>math/big\<close> drops in front are put
  back at the end.\<close>

theorem parse_print_iff:
  assumes "TaskID_ok t"
  shows "(ParseString (TaskID_String t) = Inr t) = (hd t \<noteq> 0 \<or> t = replicate 16 0)"
  using copy16_dropWhile [OF assms] by (simp add: ParseString_String)

theorem parse_print_iff_witness:
  "ParseString (TaskID_String (iden_New zero_time 7)) = Inr (iden_New zero_time 7)"
proof -
  have "hd (iden_New zero_time 7) \<noteq> 0"
    by (simp add: hd_iden_New zero_time_nano)
  with parse_print_iff [of "iden_New zero_time 7"] show ?thesis by simp
qed

text \<open>C39. For times from 1970 up to 2262, the range in which the nanoseconds of a time fit, identifiers
  are ordered by time and then by index: the byte order of the stored identifiers is the order of
  delivery.\<close>

theorem id_order:
  assumes "time_ok t" "time_ok u" "in_nano_range t" "in_nano_range u" "0 \<le> UnixNano t" "0 \<le> UnixNano u"
  shows "(iden_New t i < iden_New u j) = (Before t u \<or> t = u \<and> i < j)"
proof -
  have "(t = u) = (UnixNano t = UnixNano u)"
    using time_Unix_UnixNano assms by metis
  with assms show ?thesis
    by (simp add: iden_New_def append_less_append_iff PutUint64_nonneg_less Before_UnixNano)
qed

theorem id_order_witness:
  "iden_New (time_Unix 1700000000 5) 900 < iden_New (time_Unix 1700000001 0) 3"
proof -
  have "time_ok (time_Unix 1700000000 5)" "time_ok (time_Unix 1700000001 0)"
    "in_nano_range (time_Unix 1700000000 5)" "in_nano_range (time_Unix 1700000001 0)"
    "0 \<le> UnixNano (time_Unix 1700000000 5)" "0 \<le> UnixNano (time_Unix 1700000001 0)"
    "Before (time_Unix 1700000000 5) (time_Unix 1700000001 0)"
    by (simp_all add: go_time_eval)
  then show ?thesis using id_order by blast
qed

text \<open>Index and time are read back from an identifier: the index always, the time of every time
  in the range of nanoseconds except for the one instant, in August 1754, whose nanoseconds are those that the
  zero time wraps to. Identifiers made with the zero time have no time.\<close>

theorem id_fields:
  assumes "time_ok ts" "in_nano_range ts"
  shows "TaskID_Index (iden_New ts i) = i \<and>
    TaskID_Time (iden_New ts i)
      = (if ts = time_Unix 0 (- 6795364578871345152) then Inl ErrNoTime else Inr ts) \<and>
    TaskID_Time (iden_New zero_time i) = Inl ErrNoTime"
proof -
  have "time_Unix 0 (UnixNano ts) = ts" by (rule time_Unix_UnixNano [OF assms])
  moreover have "(UnixNano ts = - 6795364578871345152) = (ts = time_Unix 0 (- 6795364578871345152))"
    using calculation time_Unix_inj [of "UnixNano ts" "- 6795364578871345152"] is_int64_UnixNano [of ts]
    by (simp add: is_int64_def [of "- 6795364578871345152"] MinInt64_def MaxInt64_def)
  ultimately show ?thesis by (simp add: TaskID_Time_New zero_time_nano)
qed

theorem id_fields_witness:
  "TaskID_Time (iden_New (time_Unix 1700000000 5) 900) = Inr (time_Unix 1700000000 5)"
proof -
  have "time_ok (time_Unix 1700000000 5)" "in_nano_range (time_Unix 1700000000 5)"
    "time_Unix 1700000000 5 \<noteq> time_Unix 0 (- 6795364578871345152)"
    by (simp_all add: go_time_eval)
  then show ?thesis using id_fields by simp
qed

end
