(* ===== verification/Proto_Model.thy ===== *)
theory Proto_Model
  imports Go_Time
begin

text \<open>
  The messages of \<^verbatim>\<open>src/proto/model.proto\<close> as their generated Go structs
  (\<^verbatim>\<open>src/proto/model.pb.go\<close>) have them, and the protobuf runtime, which is a parameter: a
  \<open>codec\<close> gives the functions that \<^verbatim>\<open>pb.Marshal\<close> and \<^verbatim>\<open>pb.Unmarshal\<close> compute, with \<open>None\<close> for
  an error, and \<open>codec_ok\<close> is what their documentation promises of them: what was marshalled
  unmarshals to an equal message.
\<close>

section \<open>Messages\<close>

record Task =
  task_id :: string
  task_queue :: string
  task_metadata :: "(string \<times> string) list"
  task_payload :: bytes
  schedule_time :: "timestamp option"
  last_retry :: "timestamp option"
  created_at :: "timestamp option"

record TaskReference =
  ref_queue :: string
  ref_task_id :: string

record Ack =
  ack_reference :: "TaskReference option"

record QueueConfig =
  qc_id :: string
  last_delivered_scheduled_task :: string
  last_delivered_queued_task :: string
  ack_deadline_seconds :: int

text \<open>The \<^verbatim>\<open>oneof\<close> of a command; \<open>Command_Unset\<close> is a command with no alternative set.\<close>

datatype Command = Command_Task Task | Command_Ack Ack | Command_Queue QueueConfig | Command_Unset

text \<open>\<^verbatim>\<open>ack.GetReference().GetQueue()\<close> and \<^verbatim>\<open>GetTaskId()\<close>: the getters of a \<open>nil\<close> message return the zero value.\<close>

definition GetQueue :: "TaskReference option \<Rightarrow> string" where
  "GetQueue x = (case x of None \<Rightarrow> [] | Some r \<Rightarrow> ref_queue r)"

definition GetTaskId :: "TaskReference option \<Rightarrow> string" where
  "GetTaskId x = (case x of None \<Rightarrow> [] | Some r \<Rightarrow> ref_task_id r)"

section \<open>The protobuf runtime\<close>

record codec =
  marshal_task :: "Task \<Rightarrow> bytes option"
  unmarshal_task :: "bytes \<Rightarrow> Task option"
  marshal_config :: "QueueConfig \<Rightarrow> bytes option"
  unmarshal_config :: "bytes \<Rightarrow> QueueConfig option"
  marshal_command :: "Command \<Rightarrow> bytes option"
  unmarshal_command :: "bytes \<Rightarrow> Command option"

definition codec_ok :: "codec \<Rightarrow> bool" where
  "codec_ok pb \<longleftrightarrow>
     (\<forall>t b. marshal_task pb t = Some b \<longrightarrow> unmarshal_task pb b = Some t) \<and>
     (\<forall>c b. marshal_config pb c = Some b \<longrightarrow> unmarshal_config pb b = Some c) \<and>
     (\<forall>c b. marshal_command pb c = Some b \<longrightarrow> unmarshal_command pb b = Some c)"

lemma codec_okD:
  assumes "codec_ok pb"
  shows "marshal_task pb t = Some b \<Longrightarrow> unmarshal_task pb b = Some t"
    and "marshal_config pb c = Some b \<Longrightarrow> unmarshal_config pb b = Some c"
    and "marshal_command pb k = Some b \<Longrightarrow> unmarshal_command pb b = Some k"
  using assms by (simp_all add: codec_ok_def)

end
