(* ===== verification/Wire.thy ===== *)
theory Wire
  imports Iden Proto_Model
begin

text \<open>
  One concrete codec. The protobuf runtime is a parameter of the model; this theory shows that
  the promise \<open>codec_ok\<close> made for it can be kept, with functions that compute, so that the
  instances of the theorems at concrete inputs have a codec to run. It is a self-delimiting
  encoding of the messages, not the protobuf wire format.
\<close>

named_theorems wire \<open>decoding of encoded fields\<close>

section \<open>Fields\<close>

fun enc_bytes :: "bytes \<Rightarrow> bytes" where
  "enc_bytes [] = [0]"
| "enc_bytes (b # bs) = 1 # b # enc_bytes bs"

fun dec_bytes :: "bytes \<Rightarrow> (bytes \<times> bytes) option" where
  "dec_bytes [] = None"
| "dec_bytes (t # bs) =
     (if t = 0 then Some ([], bs)
      else case bs of
             [] \<Rightarrow> None
           | b # rest \<Rightarrow> (case dec_bytes rest of None \<Rightarrow> None | Some (x, r) \<Rightarrow> Some (b # x, r)))"

lemma dec_enc_bytes [wire]: "dec_bytes (enc_bytes x @ r) = Some (x, r)"
  by (induction x) simp_all

definition enc_string :: "string \<Rightarrow> bytes" where
  "enc_string s = enc_bytes (str_bytes s)"

definition dec_string :: "bytes \<Rightarrow> (string \<times> bytes) option" where
  "dec_string bs = map_option (\<lambda>(x, r). (map (\<lambda>b. char_of (unat b)) x, r)) (dec_bytes bs)"

lemma char_of_byte_of: "char_of (unat (byte_of c)) = c"
  using nat_of_char_less_256 [of c] by (simp add: byte_of_def unat_of_nat take_bit_eq_mod)

lemma dec_enc_string [wire]: "dec_string (enc_string s @ r) = Some (s, r)"
  by (simp add: enc_string_def dec_string_def wire str_bytes_def char_of_byte_of comp_def)

definition enc_int :: "int \<Rightarrow> bytes" where
  "enc_int i = enc_bytes ((if i < 0 then 1 else 0) # big_Bytes (nat \<bar>i\<bar>))"

definition dec_int :: "bytes \<Rightarrow> (int \<times> bytes) option" where
  "dec_int bs =
     (case dec_bytes bs of
        Some (s # x, r) \<Rightarrow> Some (if s = 1 then - int (be_dec x) else int (be_dec x), r)
      | _ \<Rightarrow> None)"

lemma be_dec_big_Bytes: "be_dec (big_Bytes n) = n"
proof (induction n rule: big_Bytes.induct)
  case (1 n)
  show ?case
  proof (cases "n = 0")
    case False
    with 1 have "be_dec (big_Bytes (n div 256)) = n div 256" by blast
    with False show ?thesis by (subst big_Bytes.simps) simp
  qed simp
qed

lemma dec_enc_int [wire]: "dec_int (enc_int i @ r) = Some (i, r)"
  by (simp add: enc_int_def dec_int_def wire be_dec_big_Bytes del: enc_bytes.simps)

definition enc_opt :: "('a \<Rightarrow> bytes) \<Rightarrow> 'a option \<Rightarrow> bytes" where
  "enc_opt enc x = (case x of None \<Rightarrow> [0] | Some y \<Rightarrow> 1 # enc y)"

definition dec_opt :: "(bytes \<Rightarrow> ('a \<times> bytes) option) \<Rightarrow> bytes \<Rightarrow> ('a option \<times> bytes) option" where
  "dec_opt dec bs =
     (case bs of
        [] \<Rightarrow> None
      | t # r \<Rightarrow> if t = 0 then Some (None, r) else map_option (\<lambda>(y, s). (Some y, s)) (dec r))"

lemma dec_enc_opt [wire]:
  "(\<And>x r. dec (enc x @ r) = Some (x, r)) \<Longrightarrow> dec_opt dec (enc_opt enc y @ r) = Some (y, r)"
  by (cases y) (simp_all add: enc_opt_def dec_opt_def)

definition enc_timestamp :: "timestamp \<Rightarrow> bytes" where
  "enc_timestamp t = enc_int (ts_seconds t) @ enc_int (ts_nanos t)"

definition dec_timestamp :: "bytes \<Rightarrow> (timestamp \<times> bytes) option" where
  "dec_timestamp bs =
     Option.bind (dec_int bs) (\<lambda>(s, r). Option.bind (dec_int r) (\<lambda>(n, r).
       Some (\<lparr>ts_seconds = s, ts_nanos = n\<rparr>, r)))"

lemma dec_enc_timestamp [wire]: "dec_timestamp (enc_timestamp t @ r) = Some (t, r)"
  by (simp add: enc_timestamp_def dec_timestamp_def wire)

fun enc_pairs :: "(string \<times> string) list \<Rightarrow> bytes" where
  "enc_pairs [] = [0]"
| "enc_pairs ((k, v) # ps) = 1 # enc_string k @ enc_string v @ enc_pairs ps"

text \<open>The number of bytes bounds the number of pairs.\<close>

fun dec_pairs_n :: "nat \<Rightarrow> bytes \<Rightarrow> ((string \<times> string) list \<times> bytes) option" where
  "dec_pairs_n 0 bs = None"
| "dec_pairs_n (Suc n) bs =
     (case bs of
        [] \<Rightarrow> None
      | t # r \<Rightarrow>
          if t = 0 then Some ([], r)
          else Option.bind (dec_string r) (\<lambda>(k, r). Option.bind (dec_string r) (\<lambda>(v, r).
                 Option.bind (dec_pairs_n n r) (\<lambda>(ps, r). Some ((k, v) # ps, r)))))"

definition dec_pairs :: "bytes \<Rightarrow> ((string \<times> string) list \<times> bytes) option" where
  "dec_pairs bs = dec_pairs_n (Suc (length bs)) bs"

lemma dec_pairs_n_enc: "length ps < n \<Longrightarrow> dec_pairs_n n (enc_pairs ps @ r) = Some (ps, r)"
proof (induction ps arbitrary: n)
  case Nil
  then show ?case by (cases n) simp_all
next
  case (Cons p ps)
  then show ?case by (cases n; cases p) (simp_all add: wire)
qed

lemma length_enc_pairs: "length ps < length (enc_pairs ps)"
  by (induction ps rule: enc_pairs.induct) simp_all

lemma dec_enc_pairs [wire]: "dec_pairs (enc_pairs ps @ r) = Some (ps, r)"
  using length_enc_pairs [of ps] by (simp add: dec_pairs_def dec_pairs_n_enc del: dec_pairs_n.simps)

section \<open>Messages\<close>

definition enc_task :: "Task \<Rightarrow> bytes" where
  "enc_task t =
     enc_string (task_id t) @ enc_string (task_queue t) @ enc_pairs (task_metadata t) @
     enc_bytes (task_payload t) @ enc_opt enc_timestamp (schedule_time t) @
     enc_opt enc_timestamp (last_retry t) @ enc_opt enc_timestamp (created_at t)"

definition dec_task :: "bytes \<Rightarrow> (Task \<times> bytes) option" where
  "dec_task bs =
     Option.bind (dec_string bs) (\<lambda>(i, r).
     Option.bind (dec_string r) (\<lambda>(q, r).
     Option.bind (dec_pairs r) (\<lambda>(m, r).
     Option.bind (dec_bytes r) (\<lambda>(p, r).
     Option.bind (dec_opt dec_timestamp r) (\<lambda>(st, r).
     Option.bind (dec_opt dec_timestamp r) (\<lambda>(lr, r).
     Option.bind (dec_opt dec_timestamp r) (\<lambda>(ca, r).
       Some (\<lparr>task_id = i, task_queue = q, task_metadata = m, task_payload = p,
              schedule_time = st, last_retry = lr, created_at = ca\<rparr>, r))))))))"

lemma dec_enc_task [wire]: "dec_task (enc_task t @ r) = Some (t, r)"
  by (simp add: enc_task_def dec_task_def wire)

definition enc_config :: "QueueConfig \<Rightarrow> bytes" where
  "enc_config c =
     enc_string (qc_id c) @ enc_string (last_delivered_scheduled_task c) @
     enc_string (last_delivered_queued_task c) @ enc_int (ack_deadline_seconds c)"

definition dec_config :: "bytes \<Rightarrow> (QueueConfig \<times> bytes) option" where
  "dec_config bs =
     Option.bind (dec_string bs) (\<lambda>(i, r).
     Option.bind (dec_string r) (\<lambda>(s, r).
     Option.bind (dec_string r) (\<lambda>(q, r).
     Option.bind (dec_int r) (\<lambda>(a, r).
       Some (\<lparr>qc_id = i, last_delivered_scheduled_task = s, last_delivered_queued_task = q,
              ack_deadline_seconds = a\<rparr>, r)))))"

lemma dec_enc_config [wire]: "dec_config (enc_config c @ r) = Some (c, r)"
  by (simp add: enc_config_def dec_config_def wire)

definition enc_reference :: "TaskReference \<Rightarrow> bytes" where
  "enc_reference x = enc_string (ref_queue x) @ enc_string (ref_task_id x)"

definition dec_reference :: "bytes \<Rightarrow> (TaskReference \<times> bytes) option" where
  "dec_reference bs =
     Option.bind (dec_string bs) (\<lambda>(q, r). Option.bind (dec_string r) (\<lambda>(i, r).
       Some (\<lparr>ref_queue = q, ref_task_id = i\<rparr>, r)))"

lemma dec_enc_reference [wire]: "dec_reference (enc_reference x @ r) = Some (x, r)"
  by (simp add: enc_reference_def dec_reference_def wire)

fun enc_command :: "Command \<Rightarrow> bytes" where
  "enc_command (Command_Task t) = 1 # enc_task t"
| "enc_command (Command_Ack a) = 2 # enc_opt enc_reference (ack_reference a)"
| "enc_command (Command_Queue c) = 3 # enc_config c"
| "enc_command Command_Unset = []"

fun dec_command :: "bytes \<Rightarrow> Command option" where
  "dec_command [] = Some Command_Unset"
| "dec_command (t # r) =
     (if t = 1 then map_option (\<lambda>(x, _). Command_Task x) (dec_task r)
      else if t = 2 then map_option (\<lambda>(x, _). Command_Ack \<lparr>ack_reference = x\<rparr>) (dec_opt dec_reference r)
      else if t = 3 then map_option (\<lambda>(x, _). Command_Queue x) (dec_config r)
      else None)"

definition wire_codec :: codec where
  "wire_codec =
     \<lparr>marshal_task = (\<lambda>t. Some (enc_task t)),
      unmarshal_task = (\<lambda>b. map_option fst (dec_task b)),
      marshal_config = (\<lambda>c. Some (enc_config c)),
      unmarshal_config = (\<lambda>b. map_option fst (dec_config b)),
      marshal_command = (\<lambda>c. Some (enc_command c)),
      unmarshal_command = dec_command\<rparr>"

lemma dec_enc_command: "dec_command (enc_command c) = Some c"
proof (cases c)
  case (Command_Task t)
  then show ?thesis using dec_enc_task [of t "[]"] by simp
next
  case (Command_Ack a)
  then show ?thesis
    using dec_enc_opt [of dec_reference enc_reference "ack_reference a" "[]"] by (simp add: wire)
next
  case (Command_Queue q)
  then show ?thesis using dec_enc_config [of q "[]"] by simp
qed simp

lemma codec_ok_wire [simp]: "codec_ok wire_codec"
  using dec_enc_task [of _ "[]"] dec_enc_config [of _ "[]"]
  by (simp add: codec_ok_def wire_codec_def dec_enc_command)

lemma wire_codec_simps [simp]:
  "marshal_task wire_codec t = Some (enc_task t)"
  "marshal_config wire_codec c = Some (enc_config c)"
  "marshal_command wire_codec k = Some (enc_command k)"
  "unmarshal_task wire_codec (enc_task t) = Some t"
  "unmarshal_config wire_codec (enc_config c) = Some c"
  "unmarshal_command wire_codec (enc_command k) = Some k"
  using codec_okD [OF codec_ok_wire]
  by (simp_all add: wire_codec_def)

section \<open>Messages of the instances\<close>

definition fifo_sample :: "string \<Rightarrow> u64 \<Rightarrow> Task" where
  "fifo_sample q i =
     \<lparr>task_id = TaskID_String (iden_New zero_time i), task_queue = q, task_metadata = [], task_payload = [],
      schedule_time = None, last_retry = None, created_at = None\<rparr>"

definition sched_sample :: "string \<Rightarrow> int \<Rightarrow> u64 \<Rightarrow> Task" where
  "sched_sample q s i =
     \<lparr>task_id = TaskID_String (iden_New (time_Unix s 0) i), task_queue = q, task_metadata = [], task_payload = [],
      schedule_time = Some (timestamppb_New (time_Unix s 0)), last_retry = None, created_at = None\<rparr>"

lemma fifo_sample_simps [simp]:
  "task_queue (fifo_sample q i) = q" "schedule_time (fifo_sample q i) = None"
  "last_retry (fifo_sample q i) = None" "created_at (fifo_sample q i) = None"
  "ParseString (task_id (fifo_sample q i)) = Inr (iden_New zero_time i)"
  "MustParseString (task_id (fifo_sample q i)) = Some (iden_New zero_time i)"
  by (simp_all add: fifo_sample_def ParseString_String_hd MustParseString_String_hd hd_iden_New zero_time_nano)

lemma sched_sample_simps [simp]:
  "task_queue (sched_sample q s i) = q"
  "schedule_time (sched_sample q s i) = Some (timestamppb_New (time_Unix s 0))"
  "last_retry (sched_sample q s i) = None" "created_at (sched_sample q s i) = None"
  "100000000 \<le> s \<Longrightarrow> s \<le> 9000000000 \<Longrightarrow>
     ParseString (task_id (sched_sample q s i)) = Inr (iden_New (time_Unix s 0) i)"
  "100000000 \<le> s \<Longrightarrow> s \<le> 9000000000 \<Longrightarrow>
     MustParseString (task_id (sched_sample q s i)) = Some (iden_New (time_Unix s 0) i)"
proof -
  have "2 ^ 56 \<le> UnixNano (time_Unix s 0)" if "100000000 \<le> s" "s \<le> 9000000000"
  proof -
    have "wrap64 (s + unixToInternal) = s + unixToInternal"
      using that by (intro wrap64_id) (simp add: is_int64_def MinInt64_def MaxInt64_def unixToInternal_def)
    then have t: "time_Unix s 0 = \<lparr>t_sec = s + unixToInternal, t_nsec = 0\<rparr>" by (simp add: time_Unix_def)
    have "UnixNano (time_Unix s 0) = s * 1000000000"
      using that by (subst UnixNano_in_range)
        (simp_all add: t in_nano_range_def nsec_per_sec_def is_int64_def MinInt64_def MaxInt64_def)
    with that show ?thesis by simp
  qed
  then show "100000000 \<le> s \<Longrightarrow> s \<le> 9000000000 \<Longrightarrow>
     ParseString (task_id (sched_sample q s i)) = Inr (iden_New (time_Unix s 0) i)"
  "100000000 \<le> s \<Longrightarrow> s \<le> 9000000000 \<Longrightarrow>
     MustParseString (task_id (sched_sample q s i)) = Some (iden_New (time_Unix s 0) i)"
    by (simp_all add: sched_sample_def ParseString_String_hd MustParseString_String_hd hd_iden_New)
qed (simp_all add: sched_sample_def)

end
