(* ===== verification/Pebble.thy ===== *)
theory Pebble
  imports Z4_Prelude
begin

text \<open>
  The storage engine, as the repository uses it: \<^verbatim>\<open>pebble.DB\<close> (vendored under
  \<^verbatim>\<open>src/vendor/github.com/cockroachdb/pebble\<close>) by its documented contract. The database is its
  list of key/value pairs in ascending key order, the order \<^verbatim>\<open>bytes.Compare\<close> gives. \<^verbatim>\<open>Get\<close>
  returns \<^verbatim>\<open>ErrNotFound\<close> for a key that is not there, \<^verbatim>\<open>Set\<close> overwrites, a batch is applied as
  a whole in the order of its operations or not at all, \<^verbatim>\<open>DeleteRange\<close> removes a half-open
  range, an iterator sees the state at its creation.

  Every call that can fail takes the next entry of a schedule \<open>db_faults\<close>: \<open>Some e\<close> makes it
  fail with \<open>e\<close> and without effect, \<open>None\<close> lets it succeed, and once the schedule is used up
  every call succeeds. The schedule is universally quantified in the theorems that do not
  assume it empty, so they hold for every pattern of engine failures.

  The locale \<open>ordered_store\<close> is the interface that the stores built on the engine rely on; its
  lemmas on batches and range scans are proved from the laws of the interface alone.
\<close>

section \<open>Pairs in key order\<close>

type_synonym kv = "(bytes \<times> bytes) list"

fun kv_put :: "bytes \<Rightarrow> bytes \<Rightarrow> kv \<Rightarrow> kv" where
  "kv_put k v [] = [(k, v)]"
| "kv_put k v (e # es) =
     (if fst e < k then e # kv_put k v es else if fst e = k then (k, v) # es else (k, v) # e # es)"

definition kv_del :: "bytes \<Rightarrow> kv \<Rightarrow> kv" where
  "kv_del k es = filter (\<lambda>e. fst e \<noteq> k) es"

definition kv_del_range :: "bytes \<Rightarrow> bytes \<Rightarrow> kv \<Rightarrow> kv" where
  "kv_del_range a b es = filter (\<lambda>e. \<not> (a \<le> fst e \<and> fst e < b)) es"

abbreviation kv_sorted :: "kv \<Rightarrow> bool" where
  "kv_sorted es \<equiv> sorted_wrt (<) (map fst es)"

lemma set_kv_put: "fst ` set (kv_put k v es) = insert k (fst ` set es)"
  by (induction es) auto

lemma kv_sorted_put [intro, simp]: "kv_sorted es \<Longrightarrow> kv_sorted (kv_put k v es)"
proof (induction es)
  case (Cons e es)
  have "\<forall>x \<in> set (map fst (kv_put k v es)). fst e < x" if "fst e < k"
    using Cons.prems that set_kv_put [of k v es] by auto
  with Cons show ?case by auto
qed simp

lemma map_of_kv_put [z4_db]: "kv_sorted es \<Longrightarrow> map_of (kv_put k v es) = (map_of es)(k \<mapsto> v)"
proof (induction es)
  case (Cons e es)
  moreover have "map_of es k = None" if "k \<le> fst e"
  proof -
    have "fst e < x" if "x \<in> fst ` set es" for x using Cons.prems that by auto
    with that show ?thesis by (force simp: map_of_eq_None_iff)
  qed
  ultimately show ?case by (cases e) (auto simp: fun_eq_iff)
qed simp

lemma kv_sorted_filter [intro, simp]: "kv_sorted es \<Longrightarrow> kv_sorted (filter P es)"
  by (simp add: sorted_wrt_map sorted_wrt_filter)

lemma kv_sorted_del [intro, simp]: "kv_sorted es \<Longrightarrow> kv_sorted (kv_del k es)"
  by (simp add: kv_del_def)

lemma kv_sorted_del_range [intro, simp]: "kv_sorted es \<Longrightarrow> kv_sorted (kv_del_range a b es)"
  by (simp add: kv_del_range_def)

lemma map_of_filter_key:
  "map_of (filter (\<lambda>e. P (fst e)) es) k = (if P k then map_of es k else None)"
  by (induction es) auto

lemma map_of_kv_del [z4_db]: "map_of (kv_del k es) = (map_of es)(k := None)"
  using map_of_filter_key [of "\<lambda>x. x \<noteq> k" es] by (simp add: kv_del_def fun_eq_iff)

lemma map_of_kv_del_range [z4_db]:
  "map_of (kv_del_range a b es) k = (if a \<le> k \<and> k < b then None else map_of es k)"
  using map_of_filter_key [of "\<lambda>x. \<not> (a \<le> x \<and> x < b)" es k] by (simp add: kv_del_range_def)

lemma kv_sorted_distinct: "kv_sorted es \<Longrightarrow> distinct (map fst es)"
  by (simp add: strict_sorted_iff)

lemma map_of_rev_distinct: "distinct (map fst m) \<Longrightarrow> map_of (rev m) = map_of m"
  by (metis distinct_rev map_of_inject_set rev_map set_rev)

text \<open>Two sorted lists with the same lookups are the same list.\<close>

lemma kv_sorted_eqI:
  assumes "kv_sorted xs" "kv_sorted ys" "map_of xs = map_of ys"
  shows "xs = ys"
proof -
  have d: "distinct (map fst xs)" "distinct (map fst ys)"
    using assms(1,2) kv_sorted_distinct by blast+
  have s: "set xs = set ys"
    using map_of_inject_set [OF d] assms(3) by simp
  then have "map fst xs = map fst ys"
    using assms(1,2) by (intro strict_sorted_equal) (auto simp: strict_sorted_iff)
  moreover have "snd (xs ! i) = snd (ys ! i)" if "i < length xs" for i
  proof -
    have "fst (xs ! i) = fst (ys ! i)" and i: "i < length ys"
      using that \<open>map fst xs = map fst ys\<close> by (metis length_map nth_map)+
    moreover have "map_of xs (fst (xs ! i)) = Some (snd (xs ! i))"
      and "map_of ys (fst (ys ! i)) = Some (snd (ys ! i))"
      using that i d by (simp_all add: map_of_eq_Some_iff)
    ultimately show ?thesis using assms(3) by simp
  qed
  ultimately show ?thesis
    by (metis (no_types, lifting) length_map nth_equalityI nth_map prod_eq_iff)
qed

section \<open>The database\<close>

record db =
  db_kv :: kv
  db_faults :: "error option list"

definition db_ok :: "db \<Rightarrow> bool" where
  "db_ok d = kv_sorted (db_kv d)"

definition db_lookup :: "db \<Rightarrow> bytes \<Rightarrow> bytes option" where
  "db_lookup d k = map_of (db_kv d) k"

text \<open>The outcome of the next call.\<close>

definition db_call :: "db \<Rightarrow> error option \<times> db" where
  "db_call d = (case db_faults d of [] \<Rightarrow> (None, d) | f # fs \<Rightarrow> (f, d\<lparr>db_faults := fs\<rparr>))"

definition db_Get :: "db \<Rightarrow> bytes \<Rightarrow> (error + bytes) \<times> db" where
  "db_Get d k =
     (case db_call d of
        (Some e, d') \<Rightarrow> (Inl e, d')
      | (None, d') \<Rightarrow> (case db_lookup d' k of None \<Rightarrow> Inl ErrNotFound | Some v \<Rightarrow> Inr v, d'))"

definition db_Set :: "db \<Rightarrow> bytes \<Rightarrow> bytes \<Rightarrow> error option \<times> db" where
  "db_Set d k v =
     (case db_call d of
        (Some e, d') \<Rightarrow> (Some e, d')
      | (None, d') \<Rightarrow> (None, d'\<lparr>db_kv := kv_put k v (db_kv d')\<rparr>))"

definition db_DeleteRange :: "db \<Rightarrow> bytes \<Rightarrow> bytes \<Rightarrow> error option \<times> db" where
  "db_DeleteRange d a b =
     (case db_call d of
        (Some e, d') \<Rightarrow> (Some e, d')
      | (None, d') \<Rightarrow> (None, d'\<lparr>db_kv := kv_del_range a b (db_kv d')\<rparr>))"

datatype batch_op = BSet bytes bytes | BDelete bytes

fun kv_apply :: "kv \<Rightarrow> batch_op \<Rightarrow> kv" where
  "kv_apply es (BSet k v) = kv_put k v es"
| "kv_apply es (BDelete k) = kv_del k es"

text \<open>\<^verbatim>\<open>batch.Set\<close> and \<^verbatim>\<open>batch.Delete\<close> record the operation; \<^verbatim>\<open>batch.Commit\<close> applies the batch.\<close>

definition batch_add :: "db \<Rightarrow> batch_op list \<Rightarrow> batch_op \<Rightarrow> (error + batch_op list) \<times> db" where
  "batch_add d ops p =
     (case db_call d of (Some e, d') \<Rightarrow> (Inl e, d') | (None, d') \<Rightarrow> (Inr (ops @ [p]), d'))"

definition batch_Commit :: "db \<Rightarrow> batch_op list \<Rightarrow> error option \<times> db" where
  "batch_Commit d ops =
     (case db_call d of
        (Some e, d') \<Rightarrow> (Some e, d')
      | (None, d') \<Rightarrow> (None, d'\<lparr>db_kv := foldl kv_apply (db_kv d') ops\<rparr>))"

text \<open>An iterator positioned with \<^verbatim>\<open>SeekGE\<close>: the pairs that are left, none when it is not valid.\<close>

definition iter_SeekGE :: "db \<Rightarrow> bytes \<Rightarrow> kv" where
  "iter_SeekGE d start = dropWhile (\<lambda>e. fst e < start) (db_kv d)"

section \<open>The interface\<close>

locale ordered_store =
  fixes entries :: "'s \<Rightarrow> kv"
    and put :: "bytes \<Rightarrow> bytes \<Rightarrow> 's \<Rightarrow> 's"
    and del :: "bytes \<Rightarrow> 's \<Rightarrow> 's"
    and invar :: "'s \<Rightarrow> bool"
  assumes sorted_entries: "invar s \<Longrightarrow> kv_sorted (entries s)"
    and lookup_put: "invar s \<Longrightarrow> map_of (entries (put k v s)) = (map_of (entries s))(k \<mapsto> v)"
    and lookup_del: "invar s \<Longrightarrow> map_of (entries (del k s)) = (map_of (entries s))(k := None)"
    and invar_put: "invar s \<Longrightarrow> invar (put k v s)"
    and invar_del: "invar s \<Longrightarrow> invar (del k s)"
begin

text \<open>Applying a batch: the last operation on a key decides.\<close>

fun app :: "'s \<Rightarrow> batch_op \<Rightarrow> 's" where
  "app s (BSet k v) = put k v s"
| "app s (BDelete k) = del k s"

lemma invar_app: "invar s \<Longrightarrow> invar (app s p)"
  by (cases p) (simp_all add: invar_put invar_del)

lemma invar_batch: "invar s \<Longrightarrow> invar (foldl app s ops)"
  by (induction ops arbitrary: s) (simp_all add: invar_app)

lemma lookup_puts:
  "invar s \<Longrightarrow>
     map_of (entries (foldl app s (map (\<lambda>(k, v). BSet k v) kvs))) = map_of (entries s) ++ map_of (rev kvs)"
proof (induction kvs arbitrary: s)
  case (Cons e kvs)
  obtain k v where "e = (k, v)" by force
  with Cons show ?case
    by (simp add: invar_put lookup_put map_add_def fun_eq_iff split: option.splits)
qed simp

lemma lookup_dels:
  "invar s \<Longrightarrow>
     map_of (entries (foldl app s (map BDelete ks))) k = (if k \<in> set ks then None else map_of (entries s) k)"
  by (induction ks arbitrary: s) (auto simp: invar_del lookup_del)

text \<open>A scan from a start key up to an end key visits the pairs in between, in order.\<close>

lemma scan_range:
  assumes "invar s"
  shows "takeWhile (\<lambda>e. fst e \<le> b) (dropWhile (\<lambda>e. fst e < a) (entries s))
       = filter (\<lambda>e. a \<le> fst e \<and> fst e \<le> b) (entries s)"
proof -
  have tw: "takeWhile (\<lambda>e. fst e \<le> b) es = filter (\<lambda>e. fst e \<le> b) es" if "kv_sorted es" for es
    using that
  proof (induction es)
    case (Cons e es)
    then have "filter (\<lambda>e. fst e \<le> b) es = []" if "\<not> fst e \<le> b"
      using that by (force simp: filter_empty_conv)
    with Cons show ?case by simp
  qed simp
  have dw: "dropWhile (\<lambda>e. fst e < a) es = filter (\<lambda>e. a \<le> fst e) es" if "kv_sorted es" for es
    using that
  proof (induction es)
    case (Cons e es)
    then show ?case
      by (auto intro!: filter_True [symmetric])
  qed simp
  show ?thesis
    using sorted_entries [OF assms] by (simp add: dw tw)
qed

end

lemma foldl_kv_apply_sorted: "kv_sorted es \<Longrightarrow> kv_sorted (foldl kv_apply es ops)"
proof (induction ops arbitrary: es)
  case (Cons p ops)
  then show ?case by (cases p) auto
qed simp

interpretation pebble: ordered_store "\<lambda>es. es" kv_put kv_del kv_sorted
  by unfold_locales (auto simp: map_of_kv_put map_of_kv_del)

lemma pebble_app [simp]: "pebble.app = kv_apply"
proof (intro ext)
  fix es p show "pebble.app es p = kv_apply es p" by (cases p) simp_all
qed

section \<open>Calls with and without failures\<close>

lemma db_call_kv: "db_call d = (r, d') \<Longrightarrow> db_kv d' = db_kv d"
  by (auto simp: db_call_def split: list.splits)

lemma db_call_no_faults [simp]: "db_faults d = [] \<Longrightarrow> db_call d = (None, d)"
  by (simp add: db_call_def)

lemma batch_add_cases:
  assumes "batch_add d ops p = (r, d')"
  shows "db_kv d' = db_kv d" and "r = Inr ops' \<Longrightarrow> ops' = ops @ [p]"
  using assms by (auto simp: batch_add_def split: prod.splits option.splits dest: db_call_kv)

lemma batch_add_no_faults [simp]: "db_faults d = [] \<Longrightarrow> batch_add d ops p = (Inr (ops @ [p]), d)"
  by (simp add: batch_add_def)

lemma batch_Commit_cases:
  assumes "batch_Commit d ops = (r, d')"
  shows "db_kv d' = (if r = None then foldl kv_apply (db_kv d) ops else db_kv d)"
  using assms by (auto simp: batch_Commit_def split: prod.splits option.splits dest: db_call_kv)

lemma batch_Commit_no_faults [simp]:
  "db_faults d = [] \<Longrightarrow> batch_Commit d ops = (None, d\<lparr>db_kv := foldl kv_apply (db_kv d) ops\<rparr>)"
  by (simp add: batch_Commit_def)

lemma db_Set_cases:
  assumes "db_Set d k v = (r, d')"
  shows "db_kv d' = (if r = None then kv_put k v (db_kv d) else db_kv d)"
  using assms by (auto simp: db_Set_def split: prod.splits option.splits dest: db_call_kv)

lemma db_Set_no_faults [simp]:
  "db_faults d = [] \<Longrightarrow> db_Set d k v = (None, d\<lparr>db_kv := kv_put k v (db_kv d)\<rparr>)"
  by (simp add: db_Set_def)

lemma db_Get_no_faults [simp]:
  "db_faults d = [] \<Longrightarrow>
     db_Get d k = (case db_lookup d k of None \<Rightarrow> Inl ErrNotFound | Some v \<Rightarrow> Inr v, d)"
  by (simp add: db_Get_def)

lemma db_Get_kv: "db_Get d k = (r, d') \<Longrightarrow> db_kv d' = db_kv d"
  by (auto simp: db_Get_def split: prod.splits option.splits dest: db_call_kv)

end
