(* ===== verification/Task_Store.thy ===== *)
theory Task_Store
  imports Wire Pebble
begin

text \<open>
  \<^verbatim>\<open>src/storage/task.go\<close>: the keys under which tasks are stored and the batch operations of
  \<^verbatim>\<open>TaskStore\<close>. A FIFO task of queue \<open>q\<close> is stored under \<^verbatim>\<open>task#fifo#q#\<close> and its index, a
  scheduled one under \<^verbatim>\<open>task#sched#q#\<close> and its whole identifier, so that the order of the keys
  of one kind and queue is the order of delivery. The lemmas give the layout of the keys, when
  the keys of two queues are apart, that an acknowledgement addresses the key its task was
  saved under, and what the database holds after \<^verbatim>\<open>SaveAll\<close> and \<^verbatim>\<open>DeleteAll\<close>.
\<close>

section \<open>Keys\<close>

definition getFifoPrefix :: "string \<Rightarrow> bytes" where
  "getFifoPrefix queue = str_bytes (''task#fifo#'' @ queue @ ''#'')"

definition getSchedPrefix :: "string \<Rightarrow> bytes" where
  "getSchedPrefix queue = str_bytes (''task#sched#'' @ queue @ ''#'')"

definition getSeqKey :: "string \<Rightarrow> bytes" where
  "getSeqKey queue = str_bytes (''queue#seq#'' @ queue)"

definition getScheduledTaskKey :: "string \<Rightarrow> TaskID \<Rightarrow> bytes" where
  "getScheduledTaskKey queue tid = getSchedPrefix queue @ tid"

definition getFifoTaskKey :: "string \<Rightarrow> TaskID \<Rightarrow> bytes" where
  "getFifoTaskKey queue tid = getFifoPrefix queue @ PutUint64 (TaskID_Index tid)"

definition getTaskKey :: "Task \<Rightarrow> TaskID \<Rightarrow> bytes" where
  "getTaskKey task parsedID =
     (if schedule_time task = None
      then getFifoTaskKey (task_queue task) parsedID
      else getScheduledTaskKey (task_queue task) parsedID)"

definition getAckKey :: "Ack \<Rightarrow> error + bytes" where
  "getAckKey ack =
     (case ParseString (GetTaskId (ack_reference ack)) of
        Inl e \<Rightarrow> Inl e
      | Inr tid \<Rightarrow>
          (case TaskID_Time tid of
             Inl e \<Rightarrow>
               (if errors_is e ErrNoTime
                then Inr (getFifoTaskKey (GetQueue (ack_reference ack)) tid)
                else Inr (getScheduledTaskKey (GetQueue (ack_reference ack)) tid))
           | Inr _ \<Rightarrow> Inr (getScheduledTaskKey (GetQueue (ack_reference ack)) tid)))"

section \<open>Operations\<close>

text \<open>The loop of \<^verbatim>\<open>DeleteAll\<close>: acknowledgements with an invalid identifier are skipped.\<close>

fun deleteAll_loop :: "db \<Rightarrow> Ack list \<Rightarrow> batch_op list \<Rightarrow> (error + batch_op list) \<times> db" where
  "deleteAll_loop d [] batch = (Inr batch, d)"
| "deleteAll_loop d (ack # acks) batch =
     (case getAckKey ack of
        Inl _ \<Rightarrow> deleteAll_loop d acks batch
      | Inr key \<Rightarrow>
          (case batch_add d batch (BDelete key) of
             (Inl e, d') \<Rightarrow> (Inl (EWrap ''failed to delete task in batch'' e), d')
           | (Inr batch', d') \<Rightarrow> deleteAll_loop d' acks batch'))"

definition DeleteAll :: "db \<Rightarrow> Ack list \<Rightarrow> error option \<times> db" where
  "DeleteAll d acks =
     (case deleteAll_loop d acks [] of
        (Inl e, d') \<Rightarrow> (Some e, d')
      | (Inr batch, d') \<Rightarrow> batch_Commit d' batch)"

text \<open>\<^verbatim>\<open>maxIndexes\<close>, a Go map whose missing entries read as 0.\<close>

definition maxIndexes_get :: "(string \<times> u64) list \<Rightarrow> string \<Rightarrow> u64" where
  "maxIndexes_get m q = (case map_of m q of None \<Rightarrow> 0 | Some i \<Rightarrow> i)"

definition maxIndexes_add :: "bool \<Rightarrow> (string \<times> u64) list \<Rightarrow> string \<Rightarrow> u64 \<Rightarrow> (string \<times> u64) list" where
  "maxIndexes_add saveIndex m q i =
     (if saveIndex \<and> i > maxIndexes_get m q then (q, i) # filter (\<lambda>e. fst e \<noteq> q) m else m)"

text \<open>The loop of \<^verbatim>\<open>SaveAll\<close> over the tasks; \<open>None\<close> is the panic of \<^verbatim>\<open>MustParseString\<close>.\<close>

fun saveAll_loop ::
  "codec \<Rightarrow> db \<Rightarrow> bool \<Rightarrow> Task list \<Rightarrow> batch_op list \<Rightarrow> (string \<times> u64) list \<Rightarrow>
     ((error + batch_op list \<times> (string \<times> u64) list) \<times> db) option" where
  "saveAll_loop pb d saveIndex [] batch m = Some (Inr (batch, m), d)"
| "saveAll_loop pb d saveIndex (task # tasks) batch m =
     (case MustParseString (task_id task) of
        None \<Rightarrow> None
      | Some tid \<Rightarrow>
          (let m' = maxIndexes_add saveIndex m (task_queue task) (TaskID_Index tid)
           in case marshal_task pb task of
                None \<Rightarrow> Some (Inl (EWrap ''count not encode task'' EMarshal), d)
              | Some payload \<Rightarrow>
                  (case batch_add d batch (BSet (getTaskKey task tid) payload) of
                     (Inl e, d') \<Rightarrow> Some (Inl (EWrap ''failed to write task from batch'' e), d')
                   | (Inr batch', d') \<Rightarrow> saveAll_loop pb d' saveIndex tasks batch' m')))"

text \<open>The loop over \<^verbatim>\<open>maxIndexes\<close>; Go visits the entries in any order, which are for different keys.\<close>

fun saveIndex_loop :: "db \<Rightarrow> (string \<times> u64) list \<Rightarrow> batch_op list \<Rightarrow> (error + batch_op list) \<times> db" where
  "saveIndex_loop d [] batch = (Inr batch, d)"
| "saveIndex_loop d ((ns, index) # m) batch =
     (case batch_add d batch (BSet (getSeqKey ns) (PutUint64 index)) of
        (Inl e, d') \<Rightarrow> (Inl (EWrap ''failed to save index for queue'' e), d')
      | (Inr batch', d') \<Rightarrow> saveIndex_loop d' m batch')"

definition SaveAll :: "codec \<Rightarrow> db \<Rightarrow> Task list \<Rightarrow> bool \<Rightarrow> (error option \<times> db) option" where
  "SaveAll pb d tasks saveIndex =
     (case saveAll_loop pb d saveIndex tasks [] [] of
        None \<Rightarrow> None
      | Some (Inl e, d') \<Rightarrow> Some (Some e, d')
      | Some (Inr (batch, m), d') \<Rightarrow>
          (if saveIndex
           then (case saveIndex_loop d' m batch of
                   (Inl e, d'') \<Rightarrow> Some (Some e, d'')
                 | (Inr batch', d'') \<Rightarrow> Some (batch_Commit d'' batch'))
           else Some (batch_Commit d' batch)))"

definition TaskStore_Get :: "codec \<Rightarrow> db \<Rightarrow> string \<Rightarrow> TaskID \<Rightarrow> (error + Task) \<times> db" where
  "TaskStore_Get pb d queue tid =
     (case db_Get d (getScheduledTaskKey queue tid) of
        (Inl e, d') \<Rightarrow> (Inl e, d')
      | (Inr item, d') \<Rightarrow>
          (case unmarshal_task pb item of None \<Rightarrow> Inl EUnmarshal | Some t \<Rightarrow> Inr t, d'))"

section \<open>The layout of the keys\<close>

text \<open>
  A queue name without the separator ends where the first separator is. Names that contain it
  are not confined: the keys of the queue \<open>a#b\<close> start with the prefix of the queue \<open>a\<close>.
\<close>

definition plain_queue :: "string \<Rightarrow> bool" where
  "plain_queue q = (CHR ''#'' \<notin> set q)"

lemma append_sep_prefix:
  assumes "c \<notin> set p" "c \<notin> set q"
  shows "prefix (p @ [c]) (q @ c # xs) = (p = q)"
  using assms
proof (induction p arbitrary: q)
  case Nil
  then show ?case by (cases q) auto
next
  case (Cons a p)
  then show ?case by (cases q) auto
qed

lemma byte_of_notin: "c \<notin> set s \<Longrightarrow> byte_of c \<notin> set (str_bytes s)"
  by (auto simp: str_bytes_def)

lemma fifo_prefix_key [z4_keys]:
  assumes "plain_queue p" "plain_queue q"
  shows "prefix (getFifoPrefix p) (getFifoTaskKey q t) = (p = q)"
proof -
  have "prefix (str_bytes p @ [byte_of CHR ''#'']) (str_bytes q @ byte_of CHR ''#'' # PutUint64 (TaskID_Index t)) = (str_bytes p = str_bytes q)"
    by (rule append_sep_prefix) (use assms in \<open>simp_all add: byte_of_notin plain_queue_def\<close>)
  then show ?thesis by (simp add: getFifoPrefix_def getFifoTaskKey_def)
qed

lemma sched_prefix_key [z4_keys]:
  assumes "plain_queue p" "plain_queue q"
  shows "prefix (getSchedPrefix p) (getScheduledTaskKey q t) = (p = q)"
proof -
  have "prefix (str_bytes p @ [byte_of CHR ''#'']) (str_bytes q @ byte_of CHR ''#'' # t) = (str_bytes p = str_bytes q)"
    by (rule append_sep_prefix) (use assms in \<open>simp_all add: byte_of_notin plain_queue_def\<close>)
  then show ?thesis by (simp add: getSchedPrefix_def getScheduledTaskKey_def)
qed

lemma fifo_sched_apart [z4_keys]:
  "\<not> prefix (getFifoPrefix p) (getScheduledTaskKey q t)"
  "\<not> prefix (getSchedPrefix p) (getFifoTaskKey q t)"
  "\<not> prefix (getFifoPrefix p) (getSeqKey q)"
  "\<not> prefix (getSchedPrefix p) (getSeqKey q)"
  by (simp_all add: getFifoPrefix_def getSchedPrefix_def getFifoTaskKey_def getScheduledTaskKey_def
      getSeqKey_def byte_of_def)

lemma key_prefix [simp]:
  "prefix (getFifoPrefix q) (getFifoTaskKey q t)"
  "prefix (getSchedPrefix q) (getScheduledTaskKey q t)"
  by (simp_all add: getFifoTaskKey_def getScheduledTaskKey_def)

lemma fifo_key_less [z4_keys]:
  "(getFifoTaskKey q s < getFifoTaskKey q t) = (TaskID_Index s < TaskID_Index t)"
  "(getFifoTaskKey q s \<le> getFifoTaskKey q t) = (TaskID_Index s \<le> TaskID_Index t)"
  by (simp_all add: getFifoTaskKey_def)

lemma sched_key_less [z4_keys]:
  "(getScheduledTaskKey q s < getScheduledTaskKey q t) = (s < t)"
  "(getScheduledTaskKey q s \<le> getScheduledTaskKey q t) = (s \<le> t)"
  by (simp_all add: getScheduledTaskKey_def)

lemma task_key_not_seq_key [z4_keys]: "getTaskKey task t \<noteq> getSeqKey q"
  by (auto simp: getTaskKey_def getFifoTaskKey_def getScheduledTaskKey_def getFifoPrefix_def
      getSchedPrefix_def getSeqKey_def byte_of_def)

lemma getSeqKey_inj [simp]: "(getSeqKey p = getSeqKey q) = (p = q)"
  by (simp add: getSeqKey_def del: str_bytes_simps)

section \<open>What \<^verbatim>\<open>DeleteAll\<close> removes\<close>

text \<open>The keys that a list of acknowledgements addresses.\<close>

definition ack_keys :: "Ack list \<Rightarrow> bytes list" where
  "ack_keys acks = concat (map (\<lambda>a. case getAckKey a of Inl _ \<Rightarrow> [] | Inr k \<Rightarrow> [k]) acks)"

lemma ack_keys_simps [simp]:
  "ack_keys [] = []"
  "ack_keys (a # as) = (case getAckKey a of Inl _ \<Rightarrow> [] | Inr k \<Rightarrow> [k]) @ ack_keys as"
  by (simp_all add: ack_keys_def)

lemma deleteAll_loop_cases:
  assumes "deleteAll_loop d acks batch = (r, d')"
  shows "db_kv d' = db_kv d \<and> (\<forall>b. r = Inr b \<longrightarrow> b = batch @ map BDelete (ack_keys acks))"
  using assms
proof (induction d acks batch rule: deleteAll_loop.induct)
  case (2 d ack acks batch)
  then show ?case
    by (auto split: sum.splits prod.splits dest: batch_add_cases)
      (metis append.assoc append_Cons append_Nil batch_add_cases(1,2))+
qed auto

lemma deleteAll_loop_no_faults:
  "db_faults d = [] \<Longrightarrow> deleteAll_loop d acks batch = (Inr (batch @ map BDelete (ack_keys acks)), d)"
  by (induction acks arbitrary: batch) (auto split: sum.splits)

lemma DeleteAll_cases:
  assumes "DeleteAll d acks = (r, d')"
  shows "db_kv d' = (if r = None then foldl kv_apply (db_kv d) (map BDelete (ack_keys acks)) else db_kv d)"
proof -
  obtain q d1 where l: "deleteAll_loop d acks [] = (q, d1)" by force
  note kv = deleteAll_loop_cases [OF l]
  show ?thesis
    using assms kv by (auto simp: DeleteAll_def l split: sum.splits dest: batch_Commit_cases)
qed

lemma DeleteAll_no_faults:
  "db_faults d = [] \<Longrightarrow>
     DeleteAll d acks = (None, d\<lparr>db_kv := foldl kv_apply (db_kv d) (map BDelete (ack_keys acks))\<rparr>)"
  by (simp add: DeleteAll_def deleteAll_loop_no_faults)

section \<open>What \<^verbatim>\<open>SaveAll\<close> writes\<close>

text \<open>The pair that a task is saved as.\<close>

definition task_kv :: "codec \<Rightarrow> Task \<Rightarrow> (bytes \<times> bytes) option" where
  "task_kv pb task =
     (case (MustParseString (task_id task), marshal_task pb task) of
        (Some tid, Some payload) \<Rightarrow> Some (getTaskKey task tid, payload)
      | _ \<Rightarrow> None)"

definition task_index :: "Task \<Rightarrow> u64" where
  "task_index task = (case MustParseString (task_id task) of None \<Rightarrow> 0 | Some tid \<Rightarrow> TaskID_Index tid)"

definition index_map :: "bool \<Rightarrow> (string \<times> u64) list \<Rightarrow> Task list \<Rightarrow> (string \<times> u64) list" where
  "index_map si = foldl (\<lambda>m t. maxIndexes_add si m (task_queue t) (task_index t))"

abbreviation bsets :: "(bytes \<times> bytes) list \<Rightarrow> batch_op list" where
  "bsets kvs \<equiv> map (\<lambda>(k, v). BSet k v) kvs"

definition index_kvs :: "(string \<times> u64) list \<Rightarrow> (bytes \<times> bytes) list" where
  "index_kvs m = map (\<lambda>(q, i). (getSeqKey q, PutUint64 i)) m"

lemma saveAll_loop_cases:
  assumes "saveAll_loop pb d si tasks batch m = Some (r, d')"
  shows "db_kv d' = db_kv d \<and>
    (\<forall>b m'. r = Inr (b, m') \<longrightarrow>
       (\<exists>kvs. those (map (task_kv pb) tasks) = Some kvs \<and> b = batch @ bsets kvs \<and> m' = index_map si m tasks))"
  using assms
proof (induction pb d si tasks batch m rule: saveAll_loop.induct)
  case (1 pb d si batch m)
  then show ?case by (auto simp: index_map_def)
next
  case (2 pb d si task tasks batch m)
  obtain tid where tid: "MustParseString (task_id task) = Some tid"
    using "2.prems" by (auto split: option.splits)
  let ?m = "maxIndexes_add si m (task_queue task) (TaskID_Index tid)"
  show ?case
  proof (cases "marshal_task pb task")
    case None
    with "2.prems" tid show ?thesis by (auto simp: Let_def)
  next
    case (Some payload)
    let ?op = "BSet (getTaskKey task tid) payload"
    obtain q d1 where a: "batch_add d batch ?op = (q, d1)" by force
    note kv = batch_add_cases [OF a]
    show ?thesis
    proof (cases q)
      case (Inl e)
      with "2.prems" tid Some a kv(1) show ?thesis by (auto simp: Let_def)
    next
      case (Inr batch')
      with kv have b': "batch' = batch @ [?op]" by simp
      have "saveAll_loop pb d1 si tasks batch' ?m = Some (r, d')"
        using "2.prems" tid Some a Inr by (simp add: Let_def)
      from "2.IH" [OF tid refl Some a [symmetric] Inr this] kv(1) show ?thesis
        by (auto simp: tid Some b' task_kv_def index_map_def task_index_def)
    qed
  qed
qed

lemma saveAll_loop_no_faults:
  "db_faults d = [] \<Longrightarrow> those (map (task_kv pb) tasks) = Some kvs \<Longrightarrow>
     saveAll_loop pb d si tasks batch m = Some (Inr (batch @ bsets kvs, index_map si m tasks), d)"
proof (induction tasks arbitrary: batch m kvs)
  case (Cons task tasks)
  then obtain kv kvs' where kv: "task_kv pb task = Some kv" "those (map (task_kv pb) tasks) = Some kvs'"
    and kvs: "kvs = kv # kvs'"
    by (auto split: option.splits)
  obtain tid payload where p: "MustParseString (task_id task) = Some tid" "marshal_task pb task = Some payload"
      "kv = (getTaskKey task tid, payload)"
    using kv(1) by (auto simp: task_kv_def split: option.splits)
  with Cons.IH [OF Cons.prems(1) kv(2)] Cons.prems(1) show ?case
    by (simp add: Let_def kvs index_map_def task_index_def)
qed (simp add: index_map_def)

lemma saveIndex_loop_cases:
  assumes "saveIndex_loop d m batch = (r, d')"
  shows "db_kv d' = db_kv d \<and> (\<forall>b. r = Inr b \<longrightarrow> b = batch @ bsets (index_kvs m))"
  using assms
proof (induction d m batch rule: saveIndex_loop.induct)
  case (2 d ns index m batch)
  then show ?case
    by (fastforce simp: index_kvs_def split: sum.splits prod.splits dest: batch_add_cases)
qed (auto simp: index_kvs_def)

lemma saveIndex_loop_no_faults:
  "db_faults d = [] \<Longrightarrow> saveIndex_loop d m batch = (Inr (batch @ bsets (index_kvs m)), d)"
  by (induction m arbitrary: batch) (auto simp: index_kvs_def)

text \<open>All pairs that a call of \<^verbatim>\<open>SaveAll\<close> writes.\<close>

definition save_kvs :: "codec \<Rightarrow> Task list \<Rightarrow> bool \<Rightarrow> (bytes \<times> bytes) list option" where
  "save_kvs pb tasks si =
     map_option (\<lambda>kvs. kvs @ (if si then index_kvs (index_map si [] tasks) else []))
       (those (map (task_kv pb) tasks))"

lemma SaveAll_cases:
  assumes "SaveAll pb d tasks si = Some (r, d')"
  shows "if r = None then \<exists>kvs. save_kvs pb tasks si = Some kvs \<and> db_kv d' = foldl kv_apply (db_kv d) (bsets kvs)
         else db_kv d' = db_kv d"
proof -
  obtain q d1 where l: "saveAll_loop pb d si tasks [] [] = Some (q, d1)"
    using assms by (auto simp: SaveAll_def split: option.splits)
  note kv = saveAll_loop_cases [OF l]
  show ?thesis
  proof (cases q)
    case (Inl e)
    with assms l kv show ?thesis by (auto simp: SaveAll_def)
  next
    case (Inr bm)
    then obtain b m where q: "q = Inr (b, m)" by (cases bm) simp
    with kv obtain kvs where kvs: "those (map (task_kv pb) tasks) = Some kvs" "b = bsets kvs"
      "m = index_map si [] tasks" by auto
    show ?thesis
    proof (cases si)
      case False
      with assms l q have "batch_Commit d1 b = (r, d')" by (simp add: SaveAll_def)
      from batch_Commit_cases [OF this] kv kvs False show ?thesis by (auto simp: save_kvs_def)
    next
      case True
      obtain q2 d2 where i: "saveIndex_loop d1 m b = (q2, d2)" by force
      note kv2 = saveIndex_loop_cases [OF i]
      show ?thesis
      proof (cases q2)
        case (Inl e)
        with assms l q True i kv kv2 show ?thesis by (auto simp: SaveAll_def)
      next
        case (Inr b2)
        with assms l q True i have "batch_Commit d2 b2 = (r, d')" by (simp add: SaveAll_def)
        from batch_Commit_cases [OF this] kv kv2 kvs True Inr show ?thesis
          by (auto simp: save_kvs_def)
      qed
    qed
  qed
qed

lemma SaveAll_no_faults:
  assumes "db_faults d = []" "save_kvs pb tasks si = Some kvs"
  shows "SaveAll pb d tasks si = Some (None, d\<lparr>db_kv := foldl kv_apply (db_kv d) (bsets kvs)\<rparr>)"
  using assms
  by (auto simp: SaveAll_def save_kvs_def saveAll_loop_no_faults saveIndex_loop_no_faults)

lemma foldl_bsets_lookup:
  "kv_sorted es \<Longrightarrow> map_of (foldl kv_apply es (bsets kvs)) = map_of es ++ map_of (rev kvs)"
  using pebble.lookup_puts [of es kvs] by simp

lemma foldl_bdeletes_lookup:
  "kv_sorted es \<Longrightarrow>
     map_of (foldl kv_apply es (map BDelete ks)) k = (if k \<in> set ks then None else map_of es k)"
  using pebble.lookup_dels [of es ks k] by simp

section \<open>Acknowledgements\<close>

text \<open>The acknowledgement of a task.\<close>

definition ack_of :: "Task \<Rightarrow> Ack" where
  "ack_of t = \<lparr>ack_reference = Some \<lparr>ref_queue = task_queue t, ref_task_id = task_id t\<rparr>\<rparr>"

text \<open>The kind of a task shows in its identifier: only FIFO tasks have one without a time.\<close>

definition kind_ok :: "Task \<Rightarrow> bool" where
  "kind_ok t =
     (case ParseString (task_id t) of
        Inl _ \<Rightarrow> False
      | Inr tid \<Rightarrow> (schedule_time t = None) = (TaskID_Time tid = Inl ErrNoTime))"

lemma TaskID_Time_cases: "TaskID_Time t = Inl e \<Longrightarrow> e = ErrNoTime"
  by (auto simp: TaskID_Time_def Let_def split: if_splits)

lemma getAckKey_ack_of:
  assumes "kind_ok t"
  obtains tid where "MustParseString (task_id t) = Some tid" "getAckKey (ack_of t) = Inr (getTaskKey t tid)"
proof -
  obtain tid where tid: "ParseString (task_id t) = Inr tid"
    and k: "(schedule_time t = None) = (TaskID_Time tid = Inl ErrNoTime)"
    using assms by (auto simp: kind_ok_def split: sum.splits)
  have "getAckKey (ack_of t) = Inr (getTaskKey t tid)"
    using tid k TaskID_Time_cases [of tid]
    by (cases "TaskID_Time tid") (auto simp: getAckKey_def ack_of_def GetQueue_def GetTaskId_def getTaskKey_def errors_is.simps)
  with tid that show ?thesis by (simp add: MustParseString_def)
qed

lemma ack_keys_ack_of:
  assumes "\<forall>t \<in> set ts. kind_ok t" "those (map (task_kv pb) ts) = Some kvs"
  shows "ack_keys (map ack_of ts) = map fst kvs"
  using assms
proof (induction ts arbitrary: kvs)
  case (Cons t ts)
  then obtain kv kvs' where kv: "task_kv pb t = Some kv" "those (map (task_kv pb) ts) = Some kvs'" "kvs = kv # kvs'"
    by (auto split: option.splits)
  moreover have "getAckKey (ack_of t) = Inr (fst kv)"
    using kv(1) Cons.prems(1) getAckKey_ack_of [of t] by (fastforce simp: task_kv_def split: option.splits)
  ultimately show ?case using Cons by simp
qed simp

section \<open>Properties\<close>


lemma SaveAll_sample_fault:
  "SaveAll wire_codec \<lparr>db_kv = [], db_faults = [None, None, Some (EIO 5)]\<rparr> [fifo_sample ''q'' 3, fifo_sample ''p'' 4] True
     = Some (Some (EWrap ''failed to save index for queue'' (EIO 5)), \<lparr>db_kv = [], db_faults = []\<rparr>)"
  by (simp add: SaveAll_def Let_def batch_add_def db_call_def maxIndexes_add_def maxIndexes_get_def)




text \<open>C25. An acknowledgement addresses its task: acknowledging tasks that have been saved removes all of
  them and nothing else, for FIFO and scheduled tasks alike.\<close>

theorem save_then_acknowledge:
  assumes "db_ok d" "\<forall>t \<in> set tasks. kind_ok t" "SaveAll pb d tasks False = Some (None, d1)"
    "DeleteAll d1 (map ack_of tasks) = (None, d2)" "those (map (task_kv pb) tasks) = Some kvs"
  shows "db_lookup d2 k = (if k \<in> fst ` set kvs then None else db_lookup d k)"
proof -
  have "db_kv d1 = foldl kv_apply (db_kv d) (bsets kvs)"
    using SaveAll_cases [OF assms(3)] assms(5) by (simp add: save_kvs_def)
  moreover have "kv_sorted (db_kv d)" using assms(1) by (simp add: db_ok_def)
  moreover have "k \<notin> fst ` set kvs \<Longrightarrow> map_of (rev kvs) k = None" by (simp add: map_of_eq_None_iff)
  ultimately show ?thesis
    using DeleteAll_cases [OF assms(4)] ack_keys_ack_of [OF assms(2,5)]
    by (simp add: db_lookup_def foldl_bdeletes_lookup foldl_bsets_lookup foldl_kv_apply_sorted map_add_def
        del: map_map)
qed

theorem save_then_acknowledge_witness:
  "\<exists>d1 d2. SaveAll wire_codec \<lparr>db_kv = [], db_faults = []\<rparr> [fifo_sample ''q'' 3, sched_sample ''q'' 1700000000 4] False
       = Some (None, d1) \<and>
     DeleteAll d1 (map ack_of [fifo_sample ''q'' 3, sched_sample ''q'' 1700000000 4]) = (None, d2) \<and>
     (\<forall>k. db_lookup d2 k = None)"
proof -
  let ?ts = "[fifo_sample ''q'' 3, sched_sample ''q'' 1700000000 4]"
  obtain kvs where kvs: "those (map (task_kv wire_codec) ?ts) = Some kvs" by (simp add: task_kv_def)
  have "UnixNano (time_Unix 1700000000 0) \<noteq> UnixNano zero_time"
    by (simp add: zero_time_nano) (simp add: go_time_eval)
  then have kind: "\<forall>t \<in> set ?ts. kind_ok t" by (simp add: kind_ok_def TaskID_Time_New)
  obtain d1 where d1: "SaveAll wire_codec \<lparr>db_kv = [], db_faults = []\<rparr> ?ts False = Some (None, d1)" "db_faults d1 = []"
    using SaveAll_no_faults [of "\<lparr>db_kv = [], db_faults = []\<rparr>" wire_codec ?ts False] kvs by (simp add: save_kvs_def)
  obtain d2 where d2: "DeleteAll d1 (map ack_of ?ts) = (None, d2)"
    using DeleteAll_no_faults [OF d1(2)] by blast
  have "db_ok \<lparr>db_kv = [], db_faults = []\<rparr>" by (simp add: db_ok_def)
  from save_then_acknowledge [OF this kind d1(1) d2 kvs] d1(1) d2 show ?thesis
    by (auto simp: db_lookup_def)
qed

end
