(* ===== verification/Task_Iterator.thy ===== *)
theory Task_Iterator
  imports Task_Store Wire
begin

text \<open>
  \<^verbatim>\<open>src/storage/iterator.go\<close>: queries for a range of tasks and the iterator that runs them. The
  lemmas show that iterating visits exactly the stored pairs between the bounds of the query,
  in key order, and stops at the first pair that does not decode or that the handler rejects.
  They also state the shape of the stored tasks, \<open>tasks_wf\<close>, which every operation of the task
  store keeps.
\<close>

section \<open>Queries\<close>

datatype TaskRange = ScheduledRange string TaskID TaskID | FifoRange string u64 u64

fun GetPrefix :: "TaskRange \<Rightarrow> bytes" where
  "GetPrefix (ScheduledRange queue startID endID) = getSchedPrefix queue"
| "GetPrefix (FifoRange queue startIndex endIndex) = getFifoPrefix queue"

fun TaskRange_GetQueue :: "TaskRange \<Rightarrow> string" where
  "TaskRange_GetQueue (ScheduledRange queue startID endID) = queue"
| "TaskRange_GetQueue (FifoRange queue startIndex endIndex) = queue"

fun GetStart :: "TaskRange \<Rightarrow> bytes" where
  "GetStart (ScheduledRange queue startID endID) = getScheduledTaskKey queue startID"
| "GetStart (FifoRange queue startIndex endIndex) =
     getFifoTaskKey queue (iden_New zero_time startIndex)"

fun GetEnd :: "TaskRange \<Rightarrow> bytes" where
  "GetEnd (ScheduledRange queue startID endID) = getScheduledTaskKey queue endID"
| "GetEnd (FifoRange queue startIndex endIndex) =
     getFifoTaskKey queue (iden_New zero_time endIndex)"

section \<open>The iterator\<close>

record TaskIterator =
  ti_it :: kv
  ti_end :: bytes
  ti_prefix :: bytes

definition NewTaskIterator :: "db \<Rightarrow> TaskRange \<Rightarrow> TaskIterator" where
  "NewTaskIterator d query =
     \<lparr>ti_it = iter_SeekGE d (GetStart query), ti_end = GetEnd query, ti_prefix = GetPrefix query\<rparr>"

definition iter_Key :: "kv \<Rightarrow> bytes" where
  "iter_Key it = (case it of [] \<Rightarrow> [] | e # _ \<Rightarrow> fst e)"

definition iter_Value :: "kv \<Rightarrow> bytes" where
  "iter_Value it = (case it of [] \<Rightarrow> [] | e # _ \<Rightarrow> snd e)"

text \<open>\<^verbatim>\<open>ti.it.Valid() && bytes.HasPrefix(ti.it.Key(), ti.prefix)\<close>\<close>

definition ti_valid :: "TaskIterator \<Rightarrow> bool" where
  "ti_valid ti = (ti_it ti \<noteq> [] \<and> prefix (ti_prefix ti) (iter_Key (ti_it ti)))"

definition ti_peek :: "codec \<Rightarrow> TaskIterator \<Rightarrow> bool \<Rightarrow> error + Task" where
  "ti_peek pb ti skipCheck =
     (if \<not> skipCheck \<and> \<not> ti_valid ti then Inl EOF
      else if iter_Key (ti_it ti) > ti_end ti then Inl EOF
      else case unmarshal_task pb (iter_Value (ti_it ti)) of
             None \<Rightarrow> Inl EUnmarshal
           | Some task \<Rightarrow> if task_id task = [] then Inl EEmptyID else Inr task)"

definition ti_Peek :: "codec \<Rightarrow> TaskIterator \<Rightarrow> error + Task" where
  "ti_Peek pb ti = ti_peek pb ti False"

definition ti_Next :: "codec \<Rightarrow> TaskIterator \<Rightarrow> (error + Task) \<times> TaskIterator" where
  "ti_Next pb ti =
     (if \<not> ti_valid ti then (Inl EOF, ti)
      else let r = ti_peek pb ti True
           in (r, if r \<noteq> Inl EOF then ti\<lparr>ti_it := tl (ti_it ti)\<rparr> else ti))"

text \<open>\<^verbatim>\<open>ForEach\<close>; the handler works on a state \<open>'s\<close> of its own.\<close>

function ForEach ::
  "codec \<Rightarrow> ('s \<Rightarrow> Task \<Rightarrow> error option \<times> 's) \<Rightarrow> TaskIterator \<Rightarrow> 's \<Rightarrow> error option \<times> 's" where
  "ForEach pb handle ti s =
     (case ti_Next pb ti of
        (Inl e, _) \<Rightarrow> (if e = EOF then None else Some e, s)
      | (Inr task, ti') \<Rightarrow>
          (case handle s task of
             (Some e, s') \<Rightarrow> (Some e, s')
           | (None, s') \<Rightarrow> ForEach pb handle ti' s'))"
  by pat_completeness auto
termination
proof (relation "measure (\<lambda>(pb, handle, ti, s). length (ti_it ti))", simp, goal_cases)
  case (1 pb handle ti s x ti' task y s')
  then have "ti_Next pb ti = (Inr task, ti')" by simp
  then have "ti_it ti \<noteq> []" and "ti' = ti\<lparr>ti_it := tl (ti_it ti)\<rparr>"
    by (auto simp: ti_Next_def ti_valid_def Let_def split: if_splits)
  then show ?case by simp
qed

declare ForEach.simps [simp del]

section \<open>What iterating visits\<close>

text \<open>The task of a stored pair, or the error that stops an iteration there.\<close>

definition entry_task :: "codec \<Rightarrow> bytes \<times> bytes \<Rightarrow> error + Task" where
  "entry_task pb e =
     (case unmarshal_task pb (snd e) of
        None \<Rightarrow> Inl EUnmarshal
      | Some task \<Rightarrow> if task_id task = [] then Inl EEmptyID else Inr task)"

fun visit :: "codec \<Rightarrow> ('s \<Rightarrow> Task \<Rightarrow> error option \<times> 's) \<Rightarrow> kv \<Rightarrow> 's \<Rightarrow> error option \<times> 's" where
  "visit pb handle [] s = (None, s)"
| "visit pb handle (e # es) s =
     (case entry_task pb e of
        Inl x \<Rightarrow> (Some x, s)
      | Inr task \<Rightarrow>
          (case handle s task of
             (Some x, s') \<Rightarrow> (Some x, s')
           | (None, s') \<Rightarrow> visit pb handle es s'))"

definition range_entries :: "db \<Rightarrow> TaskRange \<Rightarrow> kv" where
  "range_entries d q = filter (\<lambda>e. GetStart q \<le> fst e \<and> fst e \<le> GetEnd q) (db_kv d)"

lemma entry_task_not_EOF [simp]: "entry_task pb e \<noteq> Inl EOF"
  by (auto simp: entry_task_def split: option.splits)

lemma ti_Next_Cons:
  "ti_Next pb \<lparr>ti_it = e # es, ti_end = b, ti_prefix = p\<rparr> =
     (if prefix p (fst e) \<and> fst e \<le> b
      then (entry_task pb e, \<lparr>ti_it = es, ti_end = b, ti_prefix = p\<rparr>)
      else (Inl EOF, \<lparr>ti_it = e # es, ti_end = b, ti_prefix = p\<rparr>))"
proof -
  have "ti_peek pb \<lparr>ti_it = e # es, ti_end = b, ti_prefix = p\<rparr> True
      = (if fst e \<le> b then entry_task pb e else Inl EOF)"
    by (auto simp: ti_peek_def iter_Key_def iter_Value_def entry_task_def split: option.splits)
  then show ?thesis
    by (simp add: ti_Next_def ti_valid_def iter_Key_def Let_def)
qed

lemma ti_Next_Nil: "ti_Next pb \<lparr>ti_it = [], ti_end = b, ti_prefix = p\<rparr> = (Inl EOF, \<lparr>ti_it = [], ti_end = b, ti_prefix = p\<rparr>)"
  by (simp add: ti_Next_def ti_valid_def)

lemma ForEach_takeWhile:
  "ForEach pb h \<lparr>ti_it = es, ti_end = b, ti_prefix = p\<rparr> s
     = visit pb h (takeWhile (\<lambda>e. prefix p (fst e) \<and> fst e \<le> b) es) s"
proof (induction es arbitrary: s)
  case Nil
  show ?case by (subst ForEach.simps) (simp add: ti_Next_Nil)
next
  case (Cons e es)
  show ?case
    by (subst ForEach.simps) (auto simp: ti_Next_Cons Cons.IH split: sum.splits option.splits prod.splits)
qed

lemma GetPrefix_bounds: "prefix (GetPrefix q) (GetStart q)" "prefix (GetPrefix q) (GetEnd q)"
  by (cases q; simp)+

text \<open>Every key between the bounds of a query has the prefix of the query.\<close>

lemma between_prefix: "GetStart q \<le> k \<Longrightarrow> k \<le> GetEnd q \<Longrightarrow> prefix (GetPrefix q) k"
  using GetPrefix_bounds [of q] by (auto elim!: prefixE intro: prefix_between)

lemma query_takeWhile:
  assumes "db_ok d"
  shows "takeWhile (\<lambda>e. prefix (GetPrefix q) (fst e) \<and> fst e \<le> GetEnd q) (iter_SeekGE d (GetStart q)) = range_entries d q"
proof -
  have ks: "kv_sorted (db_kv d)" using assms by (simp add: db_ok_def)
  define es where "es = dropWhile (\<lambda>e. fst e < GetStart q) (db_kv d)"
  have sorted: "kv_sorted es"
    using ks unfolding es_def by (metis dropWhile_eq_drop drop_map sorted_wrt_drop)
  have hd: "GetStart q \<le> fst (hd es)" if "es \<noteq> []"
    using that hd_dropWhile [of "\<lambda>e. fst e < GetStart q" "db_kv d"] by (simp add: es_def not_less)
  have ge: "GetStart q \<le> fst e" if "e \<in> set es" for e
    using that hd sorted by (cases es) auto
  have "takeWhile (\<lambda>e. prefix (GetPrefix q) (fst e) \<and> fst e \<le> GetEnd q) es
      = takeWhile (\<lambda>e. fst e \<le> GetEnd q) es"
    by (rule takeWhile_cong) (auto intro: between_prefix ge)
  also have "\<dots> = range_entries d q"
    using pebble.scan_range [OF ks, of "GetEnd q" "GetStart q"] by (simp add: range_entries_def es_def)
  finally show ?thesis
    by (simp add: iter_SeekGE_def es_def)
qed

lemma ForEach_range:
  assumes "db_ok d"
  shows "ForEach pb h (NewTaskIterator d q) s = visit pb h (range_entries d q) s"
  by (simp add: NewTaskIterator_def ForEach_takeWhile query_takeWhile [OF assms])

text \<open>With a handler that accepts every task, a range whose pairs all decode is visited to its end.\<close>

lemma visit_all:
  assumes "list_all (\<lambda>e. entry_task pb e = Inr (f e)) es" and "\<And>s t. h s t = (None, g s t)"
  shows "visit pb h es s = (None, foldl g s (map f es))"
  using assms(1) by (induction es arbitrary: s) (simp_all add: assms(2))

lemma kv_sorted_range: "db_ok d \<Longrightarrow> kv_sorted (range_entries d q)"
  by (simp add: db_ok_def range_entries_def)

section \<open>The shape of the stored tasks\<close>

definition task_entry :: "codec \<Rightarrow> bytes \<times> bytes \<Rightarrow> bool" where
  "task_entry pb e \<longleftrightarrow>
     (\<exists>t tid. unmarshal_task pb (snd e) = Some t \<and> MustParseString (task_id t) = Some tid \<and>
        fst e = getTaskKey t tid)"

text \<open>Every pair in the key space of the tasks is the pair of a task, under the key of its identifier.\<close>

definition tasks_wf :: "codec \<Rightarrow> db \<Rightarrow> bool" where
  "tasks_wf pb d \<longleftrightarrow> (\<forall>e \<in> set (db_kv d). prefix (str_bytes ''task#'') (fst e) \<longrightarrow> task_entry pb e)"

lemma MustParseString_Nil [simp]: "MustParseString [] = None"
  by (simp add: MustParseString_def ParseString_def big_SetString_def)

lemma task_entryD:
  assumes "task_entry pb e"
  obtains t tid where "entry_task pb e = Inr t" "MustParseString (task_id t) = Some tid"
    "fst e = getTaskKey t tid"
proof -
  obtain t tid where t: "unmarshal_task pb (snd e) = Some t" "MustParseString (task_id t) = Some tid"
    "fst e = getTaskKey t tid"
    using assms by (auto simp: task_entry_def)
  then have "task_id t \<noteq> []" by auto
  with t that show ?thesis by (simp add: entry_task_def)
qed

lemma set_kv_put_subset: "set (kv_put k v es) \<subseteq> insert (k, v) (set es)"
  by (induction es) auto

lemma set_foldl_bsets: "set (foldl kv_apply es (bsets kvs)) \<subseteq> set es \<union> set kvs"
proof (induction kvs arbitrary: es)
  case (Cons e kvs)
  obtain k v where "e = (k, v)" by force
  with Cons.IH [of "kv_put k v es"] set_kv_put_subset [of k v es] show ?case by auto
qed simp

lemma set_foldl_bdeletes: "set (foldl kv_apply es (map BDelete ks)) \<subseteq> set es"
proof (induction ks arbitrary: es)
  case (Cons k ks)
  from Cons.IH [of "kv_del k es"] show ?case by (auto simp: kv_del_def)
qed simp

lemma task_kv_entry:
  assumes "codec_ok pb" "task_kv pb t = Some e"
  shows "task_entry pb e"
proof -
  obtain tid b where "MustParseString (task_id t) = Some tid" "marshal_task pb t = Some b"
    "e = (getTaskKey t tid, b)"
    using assms(2) by (auto simp: task_kv_def split: option.splits)
  with codec_okD(1) [OF assms(1)] show ?thesis by (auto simp: task_entry_def)
qed

lemma those_Some_set: "those xs = Some ys \<Longrightarrow> y \<in> set ys \<Longrightarrow> Some y \<in> set xs"
  by (induction xs arbitrary: ys) (auto split: option.splits)

lemma seq_key_not_task: "\<not> prefix (str_bytes ''task#'') (getSeqKey q)"
  by (simp add: getSeqKey_def byte_of_def)

lemma tasks_wf_SaveAll:
  assumes "codec_ok pb" "tasks_wf pb d" "SaveAll pb d tasks si = Some (r, d')"
  shows "tasks_wf pb d'"
proof (cases r)
  case None
  with SaveAll_cases [OF assms(3)] obtain kvs where kvs: "save_kvs pb tasks si = Some kvs"
    and d': "db_kv d' = foldl kv_apply (db_kv d) (bsets kvs)" by auto
  obtain ts where ts: "those (map (task_kv pb) tasks) = Some ts"
    and eq: "kvs = ts @ (if si then index_kvs (index_map si [] tasks) else [])"
    using kvs by (auto simp: save_kvs_def)
  have "task_entry pb e" if "e \<in> set kvs" "prefix (str_bytes ''task#'') (fst e)" for e
  proof -
    have "e \<in> set ts"
      using that seq_key_not_task by (auto simp: eq index_kvs_def split: if_splits)
    with those_Some_set [OF ts] obtain t where "task_kv pb t = Some e" by fastforce
    with assms(1) show ?thesis by (rule task_kv_entry)
  qed
  with assms(2) set_foldl_bsets [of "db_kv d" kvs] show ?thesis
    by (auto simp: tasks_wf_def d')
next
  case (Some e)
  with SaveAll_cases [OF assms(3)] assms(2) show ?thesis by (simp add: tasks_wf_def)
qed

lemma tasks_wf_DeleteAll:
  assumes "tasks_wf pb d" "DeleteAll d acks = (r, d')"
  shows "tasks_wf pb d'"
  using assms DeleteAll_cases [OF assms(2)] set_foldl_bdeletes [of "db_kv d" "ack_keys acks"]
  by (auto simp: tasks_wf_def split: if_splits)

lemma db_ok_SaveAll: "db_ok d \<Longrightarrow> SaveAll pb d tasks si = Some (r, d') \<Longrightarrow> db_ok d'"
  using SaveAll_cases [of pb d tasks si r d'] by (auto simp: db_ok_def foldl_kv_apply_sorted split: if_splits)

lemma db_ok_DeleteAll: "db_ok d \<Longrightarrow> DeleteAll d acks = (r, d') \<Longrightarrow> db_ok d'"
  using DeleteAll_cases [of d acks r d'] by (auto simp: db_ok_def foldl_kv_apply_sorted split: if_splits)

section \<open>Queries return the tasks between their bounds\<close>

text \<open>The tasks in the database, and the handler that keeps every task it is given.\<close>

definition stored_tasks :: "codec \<Rightarrow> db \<Rightarrow> Task set" where
  "stored_tasks pb d =
     {t. \<exists>e \<in> set (db_kv d). prefix (str_bytes ''task#'') (fst e) \<and> unmarshal_task pb (snd e) = Some t}"

definition collect :: "Task list \<Rightarrow> Task \<Rightarrow> error option \<times> Task list" where
  "collect ts t = (None, ts @ [t])"

definition task_tid :: "Task \<Rightarrow> TaskID" where
  "task_tid t = (case MustParseString (task_id t) of None \<Rightarrow> [] | Some tid \<Rightarrow> tid)"

definition task_of :: "codec \<Rightarrow> bytes \<times> bytes \<Rightarrow> Task" where
  "task_of pb e = (case entry_task pb e of Inr t \<Rightarrow> t)"

lemma prefix_task_bound: "prefix (str_bytes ''task#'') (GetPrefix q)"
  by (cases q) (simp_all add: getSchedPrefix_def getFifoPrefix_def)

lemma range_entry_task:
  assumes "tasks_wf pb d" "e \<in> set (range_entries d q)"
  shows "entry_task pb e = Inr (task_of pb e)" "task_of pb e \<in> stored_tasks pb d"
    "fst e = getTaskKey (task_of pb e) (task_tid (task_of pb e))"
    "MustParseString (task_id (task_of pb e)) = Some (task_tid (task_of pb e))"
proof -
  have e: "e \<in> set (db_kv d)" "prefix (str_bytes ''task#'') (fst e)"
    using assms(2) between_prefix [of q "fst e"] prefix_order.trans [OF prefix_task_bound]
    by (auto simp: range_entries_def)
  then have "task_entry pb e" using assms(1) by (simp add: tasks_wf_def)
  then obtain t tid where t: "entry_task pb e = Inr t" "MustParseString (task_id t) = Some tid"
    "fst e = getTaskKey t tid" by (rule task_entryD)
  moreover have "unmarshal_task pb (snd e) = Some t"
    using t(1) by (auto simp: entry_task_def split: option.splits if_splits)
  moreover have "t \<in> stored_tasks pb d"
    using e calculation(4) unfolding stored_tasks_def by blast
  ultimately show "entry_task pb e = Inr (task_of pb e)" "task_of pb e \<in> stored_tasks pb d"
    "fst e = getTaskKey (task_of pb e) (task_tid (task_of pb e))"
    "MustParseString (task_id (task_of pb e)) = Some (task_tid (task_of pb e))"
    by (auto simp: task_of_def task_tid_def)
qed

lemma foldl_snoc: "foldl (\<lambda>xs x. xs @ [x]) ys zs = ys @ zs"
  by (induction zs arbitrary: ys) simp_all

lemma ForEach_collect:
  assumes "db_ok d" "tasks_wf pb d"
  shows "ForEach pb collect (NewTaskIterator d q) ts = (None, ts @ map (task_of pb) (range_entries d q))"
  using visit_all [of pb "task_of pb" "range_entries d q" collect "\<lambda>ts t. ts @ [t]" ts]
    range_entry_task(1) [OF assms(2)]
  by (simp add: ForEach_range [OF assms(1)] collect_def list_all_iff foldl_snoc)

lemma stored_task_key:
  assumes "tasks_wf pb d" "t \<in> stored_tasks pb d"
  obtains e where "e \<in> set (db_kv d)" "entry_task pb e = Inr t" "fst e = getTaskKey t (task_tid t)"
    "MustParseString (task_id t) = Some (task_tid t)"
proof -
  obtain e where e: "e \<in> set (db_kv d)" "prefix (str_bytes ''task#'') (fst e)" "unmarshal_task pb (snd e) = Some t"
    using assms(2) by (auto simp: stored_tasks_def)
  with assms(1) have "task_entry pb e" by (simp add: tasks_wf_def)
  then obtain t' tid where "entry_task pb e = Inr t'" "MustParseString (task_id t') = Some tid" "fst e = getTaskKey t' tid"
    by (rule task_entryD)
  moreover from this(1) e(3) have "t' = t" by (auto simp: entry_task_def split: if_splits)
  ultimately show ?thesis using that e(1) by (simp add: task_tid_def)
qed

text \<open>The tasks a query returns are the stored tasks whose key is between its bounds, in key order.\<close>

lemma range_tasks:
  fixes q
  assumes "db_ok d" "tasks_wf pb d"
  defines "ts \<equiv> map (task_of pb) (range_entries d q)"
  shows "set ts = {t \<in> stored_tasks pb d. GetStart q \<le> getTaskKey t (task_tid t) \<and> getTaskKey t (task_tid t) \<le> GetEnd q}"
    and "sorted_wrt (<) (map (\<lambda>t. getTaskKey t (task_tid t)) ts)"
proof -
  note r = range_entry_task [OF assms(2), of _ q]
  show "set ts = {t \<in> stored_tasks pb d. GetStart q \<le> getTaskKey t (task_tid t) \<and> getTaskKey t (task_tid t) \<le> GetEnd q}"
  proof (intro equalityI subsetI)
    fix t assume "t \<in> set ts"
    then show "t \<in> {t \<in> stored_tasks pb d. GetStart q \<le> getTaskKey t (task_tid t) \<and> getTaskKey t (task_tid t) \<le> GetEnd q}"
      using r(2,3) by (auto simp: ts_def) (auto simp: range_entries_def)
  next
    fix t assume t: "t \<in> {t \<in> stored_tasks pb d. GetStart q \<le> getTaskKey t (task_tid t) \<and> getTaskKey t (task_tid t) \<le> GetEnd q}"
    then obtain e where "e \<in> set (db_kv d)" "entry_task pb e = Inr t" "fst e = getTaskKey t (task_tid t)"
      using stored_task_key [OF assms(2)] by blast
    with t show "t \<in> set ts" by (force simp: ts_def range_entries_def task_of_def)
  qed
  have "map (\<lambda>t. getTaskKey t (task_tid t)) ts = map fst (range_entries d q)"
    using r(3) by (simp add: ts_def)
  with kv_sorted_range [OF assms(1), of q] show "sorted_wrt (<) (map (\<lambda>t. getTaskKey t (task_tid t)) ts)"
    by simp
qed

text \<open>The keys between the bounds of a query, by kind, when the queue names have no separator.\<close>

lemma FifoRange_between:
  assumes "plain_queue q" "plain_queue (task_queue t)"
  shows "(GetStart (FifoRange q a b) \<le> getTaskKey t tid \<and> getTaskKey t tid \<le> GetEnd (FifoRange q a b))
       = (task_queue t = q \<and> schedule_time t = None \<and> a \<le> TaskID_Index tid \<and> TaskID_Index tid \<le> b)"
proof -
  have "prefix (getFifoPrefix q) (getTaskKey t tid) = (task_queue t = q \<and> schedule_time t = None)"
    using assms by (auto simp: getTaskKey_def fifo_prefix_key fifo_sched_apart)
  then have other: "\<not> (GetStart (FifoRange q a b) \<le> getTaskKey t tid \<and> getTaskKey t tid \<le> GetEnd (FifoRange q a b))"
    if "\<not> (task_queue t = q \<and> schedule_time t = None)"
    using that between_prefix [of "FifoRange q a b" "getTaskKey t tid"] by fastforce
  show ?thesis
  proof (cases "task_queue t = q \<and> schedule_time t = None")
    case True
    then show ?thesis by (simp add: getTaskKey_def fifo_key_less)
  next
    case False
    with other [OF False] show ?thesis by blast
  qed
qed

lemma ScheduledRange_between:
  assumes "plain_queue q" "plain_queue (task_queue t)"
  shows "(GetStart (ScheduledRange q a b) \<le> getTaskKey t tid \<and> getTaskKey t tid \<le> GetEnd (ScheduledRange q a b))
       = (task_queue t = q \<and> schedule_time t \<noteq> None \<and> a \<le> tid \<and> tid \<le> b)"
proof -
  have "prefix (getSchedPrefix q) (getTaskKey t tid) = (task_queue t = q \<and> schedule_time t \<noteq> None)"
    using assms by (auto simp: getTaskKey_def sched_prefix_key fifo_sched_apart)
  then have other: "\<not> (GetStart (ScheduledRange q a b) \<le> getTaskKey t tid \<and> getTaskKey t tid \<le> GetEnd (ScheduledRange q a b))"
    if "\<not> (task_queue t = q \<and> schedule_time t \<noteq> None)"
    using that between_prefix [of "ScheduledRange q a b" "getTaskKey t tid"] by fastforce
  show ?thesis
  proof (cases "task_queue t = q \<and> schedule_time t \<noteq> None")
    case True
    then show ?thesis by (auto simp: getTaskKey_def sched_key_less)
  next
    case False
    with other [OF False] show ?thesis by blast
  qed
qed

text \<open>What a query should return, in terms of tasks.\<close>

fun in_range :: "TaskRange \<Rightarrow> Task \<Rightarrow> bool" where
  "in_range (FifoRange q a b) t =
     (task_queue t = q \<and> schedule_time t = None \<and> a \<le> TaskID_Index (task_tid t) \<and> TaskID_Index (task_tid t) \<le> b)"
| "in_range (ScheduledRange q a b) t =
     (task_queue t = q \<and> schedule_time t \<noteq> None \<and> a \<le> task_tid t \<and> task_tid t \<le> b)"

fun range_less :: "TaskRange \<Rightarrow> Task \<Rightarrow> Task \<Rightarrow> bool" where
  "range_less (FifoRange q a b) t u = (TaskID_Index (task_tid t) < TaskID_Index (task_tid u))"
| "range_less (ScheduledRange q a b) t u = (task_tid t < task_tid u)"

lemma range_tasks_spec:
  assumes "db_ok d" "tasks_wf pb d" "plain_queue (TaskRange_GetQueue q)"
    and plain: "\<forall>t \<in> stored_tasks pb d. plain_queue (task_queue t)"
  shows "set (map (task_of pb) (range_entries d q)) = {t \<in> stored_tasks pb d. in_range q t}"
    and "sorted_wrt (range_less q) (map (task_of pb) (range_entries d q))"
proof -
  let ?ts = "map (task_of pb) (range_entries d q)"
  have "GetStart q \<le> getTaskKey t (task_tid t) \<and> getTaskKey t (task_tid t) \<le> GetEnd q \<longleftrightarrow> in_range q t"
    if "t \<in> stored_tasks pb d" for t
    using that plain assms(3)
    by (cases q) (simp_all only: FifoRange_between ScheduledRange_between in_range.simps TaskRange_GetQueue.simps)
  then show s: "set ?ts = {t \<in> stored_tasks pb d. in_range q t}"
    unfolding range_tasks(1) [OF assms(1,2)] by blast
  have "range_less q t u" if "in_range q t" "in_range q u" "getTaskKey t (task_tid t) < getTaskKey u (task_tid u)" for t u
    using that by (cases q) (auto simp: getTaskKey_def fifo_key_less sched_key_less)
  then have "range_less q t u"
    if "t \<in> set ?ts" "u \<in> set ?ts" "getTaskKey t (task_tid t) < getTaskKey u (task_tid u)" for t u
    using that unfolding s by blast
  moreover have "sorted_wrt (\<lambda>t u. getTaskKey t (task_tid t) < getTaskKey u (task_tid u)) ?ts"
    using range_tasks(2) [OF assms(1,2), of q] by (simp only: sorted_wrt_map)
  ultimately show "sorted_wrt (range_less q) ?ts" by (rule sorted_wrt_mono_rel)
qed

section \<open>The set of stored tasks\<close>

abbreviation task_key :: "Task \<Rightarrow> bytes" where
  "task_key t \<equiv> getTaskKey t (task_tid t)"

lemma prefix_task_key: "prefix (str_bytes ''task#'') (getTaskKey t tid)"
  by (simp add: getTaskKey_def getFifoTaskKey_def getScheduledTaskKey_def getFifoPrefix_def getSchedPrefix_def)

lemma stored_tasks_lookup:
  assumes "db_ok d" "tasks_wf pb d"
  shows "t \<in> stored_tasks pb d \<longleftrightarrow>
    (\<exists>v. db_lookup d (task_key t) = Some v \<and> unmarshal_task pb v = Some t) \<and> MustParseString (task_id t) = Some (task_tid t)"
proof
  assume "t \<in> stored_tasks pb d"
  then obtain e where e: "e \<in> set (db_kv d)" "entry_task pb e = Inr t" "fst e = task_key t"
    "MustParseString (task_id t) = Some (task_tid t)" by (rule stored_task_key [OF assms(2)])
  moreover have "unmarshal_task pb (snd e) = Some t"
    using e(2) by (auto simp: entry_task_def split: option.splits if_splits)
  moreover have "db_lookup d (fst e) = Some (snd e)"
    using e(1) assms(1) by (simp add: db_lookup_def db_ok_def kv_sorted_distinct)
  ultimately show "(\<exists>v. db_lookup d (task_key t) = Some v \<and> unmarshal_task pb v = Some t) \<and>
      MustParseString (task_id t) = Some (task_tid t)" by auto
next
  assume "(\<exists>v. db_lookup d (task_key t) = Some v \<and> unmarshal_task pb v = Some t) \<and>
    MustParseString (task_id t) = Some (task_tid t)"
  then obtain v where "(task_key t, v) \<in> set (db_kv d)" "unmarshal_task pb v = Some t"
    by (auto simp: db_lookup_def dest: map_of_SomeD)
  then show "t \<in> stored_tasks pb d"
    using prefix_task_key [of t "task_tid t"] unfolding stored_tasks_def by force
qed

text \<open>No two stored tasks have the same key.\<close>

lemma stored_tasks_inj:
  assumes "db_ok d" "tasks_wf pb d" "t \<in> stored_tasks pb d" "u \<in> stored_tasks pb d" "task_key t = task_key u"
  shows "t = u"
  using assms(3-5) unfolding stored_tasks_lookup [OF assms(1,2)] by auto

lemma task_kv_key:
  assumes "task_kv pb t = Some e"
  shows "fst e = task_key t" "marshal_task pb t = Some (snd e)" "MustParseString (task_id t) = Some (task_tid t)"
  using assms by (auto simp: task_kv_def task_tid_def split: option.splits)

lemma those_task_kv:
  assumes "those (map (task_kv pb) ts) = Some kvs"
  shows "map fst kvs = map task_key ts"
    and "\<And>t. t \<in> set ts \<Longrightarrow> \<exists>e \<in> set kvs. task_kv pb t = Some e"
    and "\<And>e. e \<in> set kvs \<Longrightarrow> \<exists>t \<in> set ts. task_kv pb t = Some e"
proof -
  have "map fst kvs = map task_key ts \<and> (\<forall>t \<in> set ts. \<exists>e \<in> set kvs. task_kv pb t = Some e) \<and>
      (\<forall>e \<in> set kvs. \<exists>t \<in> set ts. task_kv pb t = Some e)"
    using assms
  proof (induction ts arbitrary: kvs)
    case (Cons t ts)
    then obtain kv kvs' where kv: "task_kv pb t = Some kv" "those (map (task_kv pb) ts) = Some kvs'" "kvs = kv # kvs'"
      by (auto split: option.splits)
    from Cons.IH [OF kv(2)] kv(1,3) task_kv_key(1) [OF kv(1)] show ?case by auto
  qed simp
  then show "map fst kvs = map task_key ts"
    and "\<And>t. t \<in> set ts \<Longrightarrow> \<exists>e \<in> set kvs. task_kv pb t = Some e"
    and "\<And>e. e \<in> set kvs \<Longrightarrow> \<exists>t \<in> set ts. task_kv pb t = Some e" by blast+
qed

text \<open>Saving tasks with different keys replaces the tasks stored under these keys.\<close>

lemma stored_tasks_SaveAll:
  assumes pb: "codec_ok pb" and d: "db_ok d" "tasks_wf pb d"
    and save: "SaveAll pb d ts si = Some (None, d')" and dist: "distinct (map task_key ts)"
  shows "stored_tasks pb d' = {t \<in> stored_tasks pb d. task_key t \<notin> task_key ` set ts} \<union> set ts"
proof -
  obtain kvs m where kvs: "those (map (task_kv pb) ts) = Some kvs"
    and d': "db_kv d' = foldl kv_apply (db_kv d) (bsets (kvs @ m))" and m: "m = [] \<or> m = index_kvs (index_map si [] ts)"
    using SaveAll_cases [OF save] by (auto simp: save_kvs_def)
  note kv = those_task_kv [OF kvs]
  have dk: "distinct (map fst kvs)" using dist kv(1) by simp
  have look: "db_lookup d' (task_key t) = (case map_of kvs (task_key t) of None \<Rightarrow> db_lookup d (task_key t) | Some v \<Rightarrow> Some v)" for t
  proof -
    have "map_of (rev m) (task_key t) = None"
      using m by (auto simp: map_of_eq_None_iff index_kvs_def task_key_not_seq_key)
    with d(1) dk show ?thesis
      by (simp add: d' db_lookup_def db_ok_def foldl_bsets_lookup map_add_def map_of_rev_distinct
          del: map_append split: option.splits)
  qed
  have keys: "map_of kvs (task_key t) = None \<longleftrightarrow> task_key t \<notin> task_key ` set ts" for t
    using kv(1) by (simp add: map_of_eq_None_iff flip: set_map)
  have val: "map_of kvs (task_key t) = Some v \<Longrightarrow> unmarshal_task pb v = Some t \<Longrightarrow> t \<in> set ts" for t v
  proof -
    assume v: "map_of kvs (task_key t) = Some v" "unmarshal_task pb v = Some t"
    then obtain u where u: "u \<in> set ts" "task_kv pb u = Some (task_key t, v)"
      using kv(3) map_of_SomeD by metis
    then have "unmarshal_task pb v = Some u" using codec_okD(1) [OF pb] task_kv_key(2) [OF u(2)] by simp
    with v u show ?thesis by simp
  qed
  have new: "\<exists>v. map_of kvs (task_key t) = Some v \<and> unmarshal_task pb v = Some t \<and> MustParseString (task_id t) = Some (task_tid t)"
    if "t \<in> set ts" for t
  proof -
    obtain e where e: "e \<in> set kvs" "task_kv pb t = Some e" using kv(2) [OF \<open>t \<in> set ts\<close>] by blast
    then have "map_of kvs (fst e) = Some (snd e)" using dk by simp
    with task_kv_key [OF e(2)] codec_okD(1) [OF pb] show ?thesis by auto
  qed
  note wf' = db_ok_SaveAll [OF d(1) save] tasks_wf_SaveAll [OF pb d(2) save]
  have "t \<in> stored_tasks pb d' \<longleftrightarrow> t \<in> stored_tasks pb d \<and> task_key t \<notin> task_key ` set ts \<or> t \<in> set ts" for t
  proof (cases "task_key t \<in> task_key ` set ts")
    case True
    then obtain v where "map_of kvs (task_key t) = Some v" using keys by (metis not_None_eq)
    then show ?thesis
      using True val [of t v] new [of t] by (auto simp: stored_tasks_lookup [OF wf'] stored_tasks_lookup [OF d] look)
  next
    case False
    then have "map_of kvs (task_key t) = None" using keys by simp
    moreover have "t \<notin> set ts" using False by auto
    ultimately show ?thesis
      using False by (simp add: stored_tasks_lookup [OF wf'] stored_tasks_lookup [OF d] look)
  qed
  then show ?thesis by blast
qed

lemma stored_tasks_DeleteAll:
  assumes d: "db_ok d" "tasks_wf pb d" and del: "DeleteAll d acks = (None, d')"
  shows "stored_tasks pb d' = {t \<in> stored_tasks pb d. task_key t \<notin> set (ack_keys acks)}"
proof -
  note wf' = db_ok_DeleteAll [OF d(1) del] tasks_wf_DeleteAll [OF d(2) del]
  have "db_lookup d' k = (if k \<in> set (ack_keys acks) then None else db_lookup d k)" for k
    using DeleteAll_cases [OF del] d(1) by (simp add: db_lookup_def db_ok_def foldl_bdeletes_lookup)
  then show ?thesis
    by (auto simp: stored_tasks_lookup [OF wf'] stored_tasks_lookup [OF d] split: if_splits)
qed

section \<open>Properties\<close>

text \<open>C15. Running a query of a queue returns, without an error, exactly the stored tasks of this queue
  and kind whose index (FIFO) or identifier (scheduled) lies between the bounds, each once and in ascending order,
  whatever else is stored. This takes queue names without the separator \<^verbatim>\<open>#\<close>.\<close>

theorem query_returns_range:
  assumes "db_ok d" "tasks_wf pb d" "plain_queue (TaskRange_GetQueue q)"
    "\<forall>t \<in> stored_tasks pb d. plain_queue (task_queue t)"
  shows "\<exists>ts. ForEach pb collect (NewTaskIterator d q) [] = (None, ts) \<and>
    set ts = {t \<in> stored_tasks pb d. in_range q t} \<and> sorted_wrt (range_less q) ts"
  using range_tasks_spec [OF assms] ForEach_collect [OF assms(1,2), of q "[]"] by auto

lemma sample_db:
  defines "d \<equiv> \<lparr>db_kv = [(getFifoTaskKey ''q'' (iden_New zero_time 3), enc_task (fifo_sample ''q'' 3))], db_faults = []\<rparr>"
  shows "db_ok d" "tasks_wf wire_codec d" "stored_tasks wire_codec d = {fifo_sample ''q'' 3}"
  by (auto simp: d_def db_ok_def tasks_wf_def task_entry_def stored_tasks_def getTaskKey_def
      getFifoTaskKey_def getFifoPrefix_def)

theorem query_returns_range_witness:
  "\<exists>ts. ForEach wire_codec collect (NewTaskIterator
      \<lparr>db_kv = [(getFifoTaskKey ''q'' (iden_New zero_time 3), enc_task (fifo_sample ''q'' 3))], db_faults = []\<rparr>
      (FifoRange ''q'' 2 9)) [] = (None, ts) \<and> set ts = {fifo_sample ''q'' 3}"
proof -
  have "{t. t = fifo_sample ''q'' 3 \<and> in_range (FifoRange ''q'' 2 9) t} = {fifo_sample ''q'' 3}"
    by (auto simp: task_tid_def)
  then show ?thesis
    using query_returns_range [OF sample_db(1,2), of "FifoRange ''q'' 2 9"]
    by (auto simp: sample_db(3) plain_queue_def)
qed

end
