(* ===== verification/Setting_Store.thy ===== *)
theory Setting_Store
  imports Task_Store
begin

text \<open>
  \<^verbatim>\<open>src/storage/queue.go\<close>: the store of queue settings. Settings are kept under
  \<^verbatim>\<open>queue#config#\<close> followed by the name of the queue. The lemmas say what is read back after a
  save, and that listing all settings returns those stored, in the order of the keys.
\<close>

definition config_prefix :: bytes where
  "config_prefix = str_bytes ''queue#config#''"

definition getConfigKey :: "string \<Rightarrow> bytes" where
  "getConfigKey queue = str_bytes (''queue#config#'' @ queue)"

definition SequenceLeaseSize :: u64 where
  "SequenceLeaseSize = 10000"

definition SettingStore_Save :: "codec \<Rightarrow> db \<Rightarrow> QueueConfig \<Rightarrow> error option \<times> db" where
  "SettingStore_Save pb d settings =
     (case marshal_config pb settings of
        None \<Rightarrow> (Some (EWrap ''could not encode queue settings'' EMarshal), d)
      | Some payload \<Rightarrow> db_Set d (getConfigKey (qc_id settings)) payload)"

text \<open>The loop of \<^verbatim>\<open>GetAll\<close>: settings that do not decode are logged and left out.\<close>

fun getAll_loop :: "codec \<Rightarrow> kv \<Rightarrow> QueueConfig list" where
  "getAll_loop pb [] = []"
| "getAll_loop pb (e # es) =
     (if prefix config_prefix (fst e)
      then (case unmarshal_config pb (snd e) of
              None \<Rightarrow> getAll_loop pb es
            | Some settings \<Rightarrow> settings # getAll_loop pb es)
      else [])"

definition SettingStore_GetAll :: "codec \<Rightarrow> db \<Rightarrow> error + QueueConfig list" where
  "SettingStore_GetAll pb d = Inr (getAll_loop pb (iter_SeekGE d config_prefix))"

definition SettingStore_Get :: "codec \<Rightarrow> db \<Rightarrow> string \<Rightarrow> (error + QueueConfig) \<times> db" where
  "SettingStore_Get pb d queue =
     (case db_Get d (getConfigKey queue) of
        (Inl e, d') \<Rightarrow> (Inl e, d')
      | (Inr item, d') \<Rightarrow>
          (case unmarshal_config pb item of None \<Rightarrow> Inl EUnmarshal | Some c \<Rightarrow> Inr c, d'))"

section \<open>Keys\<close>

lemma getConfigKey_eq: "getConfigKey q = config_prefix @ str_bytes q"
  by (simp add: getConfigKey_def config_prefix_def)

lemma getConfigKey_inj [simp]: "(getConfigKey p = getConfigKey q) = (p = q)"
  by (simp add: getConfigKey_def)

lemma config_key_prefix [simp]: "prefix config_prefix (getConfigKey q)"
  by (simp add: getConfigKey_eq)

lemma config_keys_apart [z4_keys]:
  "getConfigKey q \<noteq> getTaskKey task t"
  "getConfigKey q \<noteq> getSeqKey p"
  "\<not> prefix config_prefix (getTaskKey task t)"
  "\<not> prefix config_prefix (getSeqKey p)"
  "\<not> prefix (str_bytes ''task#'') (getConfigKey q)"
  by (auto simp: getConfigKey_def getTaskKey_def getFifoTaskKey_def getScheduledTaskKey_def
      getFifoPrefix_def getSchedPrefix_def getSeqKey_def config_prefix_def byte_of_def)

section \<open>Reading back\<close>

text \<open>Keys that start with a prefix follow it in the order and are not interrupted by others.\<close>

lemma takeWhile_prefix_sorted:
  assumes "kv_sorted es" "\<forall>e \<in> set es. p \<le> fst e"
  shows "takeWhile (\<lambda>e. prefix p (fst e)) es = filter (\<lambda>e. prefix p (fst e)) es"
  using assms
proof (induction es)
  case (Cons e es)
  have "filter (\<lambda>e. prefix p (fst e)) es = []" if np: "\<not> prefix p (fst e)"
  proof -
    have "p < fst e" using np Cons.prems(2) by (auto simp: order_le_less)
    have "\<not> prefix p (fst x)" if "x \<in> set es" for x
    proof
      assume "prefix p (fst x)"
      then obtain zs where "fst x = p @ zs" by (auto simp: prefix_def)
      moreover have "fst e < fst x" using that Cons.prems(1) by auto
      ultimately have "fst e < p @ zs" by simp
      with list_less_not_prefix [OF \<open>p < fst e\<close> np, of zs "[]"] show False by simp
    qed
    then show ?thesis by (simp add: filter_empty_conv)
  qed
  with Cons show ?case by auto
qed simp

lemma getAll_loop_takeWhile:
  "getAll_loop pb es =
     concat (map (\<lambda>e. case unmarshal_config pb (snd e) of None \<Rightarrow> [] | Some c \<Rightarrow> [c])
       (takeWhile (\<lambda>e. prefix config_prefix (fst e)) es))"
  by (induction es) (auto split: option.splits)

lemma SettingStore_GetAll_eq:
  assumes "db_ok d"
  shows "SettingStore_GetAll pb d =
     Inr (concat (map (\<lambda>e. case unmarshal_config pb (snd e) of None \<Rightarrow> [] | Some c \<Rightarrow> [c])
       (filter (\<lambda>e. prefix config_prefix (fst e)) (db_kv d))))"
proof -
  define es where "es = dropWhile (\<lambda>e. fst e < config_prefix) (db_kv d)"
  have ks: "kv_sorted (db_kv d)" using assms by (simp add: db_ok_def)
  have sorted: "kv_sorted es"
    using ks unfolding es_def by (metis dropWhile_eq_drop drop_map sorted_wrt_drop)
  have hd: "config_prefix \<le> fst (hd es)" if "es \<noteq> []"
    using that hd_dropWhile [of "\<lambda>e. fst e < config_prefix" "db_kv d"] by (simp add: es_def not_less)
  have ge: "\<forall>e \<in> set es. config_prefix \<le> fst e"
    using hd sorted by (cases es) auto
  have "filter (\<lambda>e. prefix config_prefix (fst e)) (db_kv d)
      = filter (\<lambda>e. prefix config_prefix (fst e))
          (takeWhile (\<lambda>e. fst e < config_prefix) (db_kv d) @ es)"
    by (simp add: es_def)
  also have "\<dots> = filter (\<lambda>e. prefix config_prefix (fst e)) es"
    by (auto simp: filter_empty_conv dest!: set_takeWhileD prefix_leI)
  finally show ?thesis
    using takeWhile_prefix_sorted [OF sorted ge]
    by (simp add: SettingStore_GetAll_def iter_SeekGE_def es_def getAll_loop_takeWhile)
qed

lemma SettingStore_Save_lookup:
  assumes "db_ok d" "SettingStore_Save pb d c = (None, d')"
  shows "\<exists>b. marshal_config pb c = Some b \<and> db_ok d' \<and>
           db_lookup d' = (db_lookup d)(getConfigKey (qc_id c) \<mapsto> b)"
  using assms
  by (auto simp: SettingStore_Save_def db_ok_def db_lookup_def fun_eq_iff map_of_kv_put
      split: option.splits dest!: db_Set_cases)

section \<open>Properties\<close>

text \<open>Settings that were saved are read back, by name and in the listing of all settings; the settings
  of the other queues, the tasks and the sequences are untouched; a failed save changes nothing.\<close>

theorem settings_round_trip:
  assumes "codec_ok pb" "db_ok d" "SettingStore_Save pb d c = (r, d')"
  shows "db_ok d' \<and>
    (if r = None
     then (db_faults d' = [] \<longrightarrow> SettingStore_Get pb d' (qc_id c) = (Inr c, d')) \<and>
       (\<exists>cs. SettingStore_GetAll pb d' = Inr cs \<and> c \<in> set cs) \<and>
       (\<forall>k. k \<noteq> getConfigKey (qc_id c) \<longrightarrow> db_lookup d' k = db_lookup d k)
     else db_lookup d' = db_lookup d)"
proof (cases r)
  case None
  with SettingStore_Save_lookup [OF assms(2)] assms(3) obtain b where b: "marshal_config pb c = Some b"
    and d': "db_ok d'" "db_lookup d' = (db_lookup d)(getConfigKey (qc_id c) \<mapsto> b)" by blast
  have u: "unmarshal_config pb b = Some c" by (rule codec_okD(2) [OF assms(1) b])
  have "db_lookup d' (getConfigKey (qc_id c)) = Some b" by (simp add: d'(2))
  then have "(getConfigKey (qc_id c), b) \<in> set (db_kv d')"
    by (simp add: db_lookup_def map_of_SomeD)
  then have "\<exists>cs. SettingStore_GetAll pb d' = Inr cs \<and> c \<in> set cs"
    using u by (force simp: SettingStore_GetAll_eq [OF d'(1)])
  with None d' u show ?thesis by (simp add: SettingStore_Get_def)
next
  case (Some e)
  with assms(2,3) show ?thesis
    by (auto simp: SettingStore_Save_def db_ok_def db_lookup_def fun_eq_iff split: option.splits dest!: db_Set_cases)
qed

theorem settings_round_trip_witness:
  "\<exists>d'. SettingStore_Get wire_codec d' ''jobs'' = (Inr \<lparr>qc_id = ''jobs'', last_delivered_scheduled_task = [],
      last_delivered_queued_task = ''5'', ack_deadline_seconds = 30\<rparr>, d')"
proof -
  let ?c = "\<lparr>qc_id = ''jobs'', last_delivered_scheduled_task = [], last_delivered_queued_task = ''5'',
    ack_deadline_seconds = 30\<rparr>"
  let ?d = "\<lparr>db_kv = [], db_faults = []\<rparr>"
  have s: "SettingStore_Save wire_codec ?d ?c = (None, \<lparr>db_kv = [(getConfigKey ''jobs'', enc_config ?c)], db_faults = []\<rparr>)"
    by (simp add: SettingStore_Save_def)
  show ?thesis
    using settings_round_trip [OF codec_ok_wire _ s] by (auto simp: db_ok_def)
qed

end
