(* ===== verification/Task_Writer.thy ===== *)
theory Task_Writer
  imports Task_Iterator Setting_Store
begin

text \<open>
  \<^verbatim>\<open>src/feeds/q/writer.go\<close>: the task writer, through which the state machine changes the tasks of the
  store. Acknowledgements are buffered and applied when there are more than 2000 of them or when the timer
  ticks.

  The locale \<open>task_writer\<close> is the interface the state machine relies on. It describes a writer by the
  \<open>view\<close> its clients have, the pairs stored without those whose deletion is still buffered. Its
  lemmas compose the operations of a batch; the writer of the code, together with the store of settings, is
  shown to implement it.
\<close>

section \<open>The writer\<close>

record taskWriter =
  tw_ackBuffer :: "Ack list"

definition NewTaskWriter :: taskWriter where
  "NewTaskWriter = \<lparr>tw_ackBuffer = []\<rparr>"

definition tw_Push :: "codec \<Rightarrow> Task list \<Rightarrow> bool \<Rightarrow> db \<Rightarrow> (error option \<times> db) option" where
  "tw_Push pb tasks isFollower d = SaveAll pb d tasks isFollower"

text \<open>An error of the store is logged, and the buffer is kept for the next attempt.\<close>

definition tw_flush :: "taskWriter \<Rightarrow> db \<Rightarrow> taskWriter \<times> db" where
  "tw_flush w d =
     (case DeleteAll d (tw_ackBuffer w) of
        (Some e, d') \<Rightarrow> (w, d')
      | (None, d') \<Rightarrow> (w\<lparr>tw_ackBuffer := []\<rparr>, d'))"

definition tw_Acknowledge :: "Ack list \<Rightarrow> taskWriter \<Rightarrow> db \<Rightarrow> error option \<times> taskWriter \<times> db" where
  "tw_Acknowledge acks w d =
     (let w' = w\<lparr>tw_ackBuffer := tw_ackBuffer w @ acks\<rparr>
      in if length (tw_ackBuffer w') > 2000 then (None, tw_flush w' d) else (None, w', d))"

text \<open>One tick of the timer in \<^verbatim>\<open>handleAckFlush\<close>.\<close>

definition handleAckFlush_tick :: "taskWriter \<Rightarrow> db \<Rightarrow> taskWriter \<times> db" where
  "handleAckFlush_tick w d = (if length (tw_ackBuffer w) > 0 then tw_flush w d else (w, d))"

text \<open>\<^verbatim>\<open>Close\<close> stops the timer; what is buffered then is dropped with the process.\<close>

definition tw_Close :: "taskWriter \<Rightarrow> error option \<times> taskWriter" where
  "tw_Close w = (None, w)"

section \<open>The interface\<close>

locale task_writer =
  fixes push :: "Task list \<Rightarrow> bool \<Rightarrow> 's \<Rightarrow> (error option \<times> 's) option"
    and acknowledge :: "Ack list \<Rightarrow> 's \<Rightarrow> error option \<times> 's"
    and save_settings :: "QueueConfig \<Rightarrow> 's \<Rightarrow> error option \<times> 's"
    and view :: "'s \<Rightarrow> bytes \<Rightarrow> bytes option"
    and acked :: "'s \<Rightarrow> bytes set"
    and ok :: "'s \<Rightarrow> bool"
    and pb :: codec
  assumes push_ok: "ok s \<Longrightarrow> those (map (task_kv pb) ts) = Some kvs \<Longrightarrow> fst ` set kvs \<inter> acked s = {} \<Longrightarrow>
      \<exists>s'. push ts fl s = Some (None, s') \<and> ok s' \<and> acked s' = acked s \<and> view s' = view s ++ map_of (rev kvs)"
    and acknowledge_ok: "ok s \<Longrightarrow>
      \<exists>s'. acknowledge as s = (None, s') \<and> ok s' \<and> acked s' \<subseteq> acked s \<union> set (ack_keys as) \<and>
        view s' = (\<lambda>k. if k \<in> set (ack_keys as) then None else view s k)"
    and save_ok: "ok s \<Longrightarrow> marshal_config pb c = Some b \<Longrightarrow>
      \<exists>s'. save_settings c s = (None, s') \<and> ok s' \<and> acked s' = acked s \<and> view s' = (view s)(getConfigKey (qc_id c) \<mapsto> b)"

section \<open>The writer implements the interface\<close>

text \<open>The keys of sequences, which followers write along with the tasks, are not part of the view.\<close>

definition seq_prefix :: bytes where
  "seq_prefix = str_bytes ''queue#seq#''"

definition tw_view :: "taskWriter \<times> db \<Rightarrow> bytes \<Rightarrow> bytes option" where
  "tw_view s k =
     (if k \<in> set (ack_keys (tw_ackBuffer (fst s))) \<or> prefix seq_prefix k then None else db_lookup (snd s) k)"

definition tw_acked :: "taskWriter \<times> db \<Rightarrow> bytes set" where
  "tw_acked s = set (ack_keys (tw_ackBuffer (fst s)))"

definition tw_ok :: "taskWriter \<times> db \<Rightarrow> bool" where
  "tw_ok s = (db_ok (snd s) \<and> db_faults (snd s) = [])"

definition tw_push :: "codec \<Rightarrow> Task list \<Rightarrow> bool \<Rightarrow> taskWriter \<times> db \<Rightarrow> (error option \<times> (taskWriter \<times> db)) option" where
  "tw_push pb ts fl s = (case tw_Push pb ts fl (snd s) of None \<Rightarrow> None | Some (r, d') \<Rightarrow> Some (r, (fst s, d')))"

definition tw_acknowledge :: "Ack list \<Rightarrow> taskWriter \<times> db \<Rightarrow> error option \<times> (taskWriter \<times> db)" where
  "tw_acknowledge as s = (case tw_Acknowledge as (fst s) (snd s) of (r, w', d') \<Rightarrow> (r, (w', d')))"

definition tw_save :: "codec \<Rightarrow> QueueConfig \<Rightarrow> taskWriter \<times> db \<Rightarrow> error option \<times> (taskWriter \<times> db)" where
  "tw_save pb c s = (case SettingStore_Save pb (snd s) c of (r, d') \<Rightarrow> (r, (fst s, d')))"

lemma ack_keys_append [simp]: "ack_keys (as @ bs) = ack_keys as @ ack_keys bs"
  by (simp add: ack_keys_def)

lemma getAckKey_task: "getAckKey a = Inr k \<Longrightarrow> prefix (str_bytes ''task#'') k"
  by (auto simp: getAckKey_def getFifoTaskKey_def getScheduledTaskKey_def getFifoPrefix_def getSchedPrefix_def
      split: sum.splits if_splits)

lemma ack_keys_task: "k \<in> set (ack_keys as) \<Longrightarrow> prefix (str_bytes ''task#'') k"
proof (induction as)
  case (Cons a as)
  then show ?case
    by (cases "getAckKey a") (auto simp del: str_bytes_simps dest: getAckKey_task)
qed simp

lemma key_spaces [simp]:
  "\<not> prefix seq_prefix (getTaskKey t tid)" "\<not> prefix seq_prefix (getConfigKey q)" "prefix seq_prefix (getSeqKey q)"
  by (auto simp: seq_prefix_def getTaskKey_def getFifoTaskKey_def getScheduledTaskKey_def getFifoPrefix_def
      getSchedPrefix_def getConfigKey_def getSeqKey_def byte_of_def)

lemma config_key_not_acked [simp]: "getConfigKey q \<notin> set (ack_keys as)"
  using config_keys_apart(5) ack_keys_task by blast

lemma tw_push_ok:
  assumes "tw_ok s" "those (map (task_kv pb) ts) = Some kvs" "fst ` set kvs \<inter> tw_acked s = {}"
  shows "\<exists>s'. tw_push pb ts fl s = Some (None, s') \<and> tw_ok s' \<and> tw_acked s' = tw_acked s \<and>
    tw_view s' = tw_view s ++ map_of (rev kvs)"
proof -
  obtain w d where s: "s = (w, d)" by force
  define m where "m = (if fl then index_kvs (index_map fl [] ts) else [])"
  define d' where "d' = d\<lparr>db_kv := foldl kv_apply (db_kv d) (bsets (kvs @ m))\<rparr>"
  have "SaveAll pb d ts fl = Some (None, d')"
    using SaveAll_no_faults [of d pb ts fl "kvs @ m"] assms(1,2) by (simp add: s tw_ok_def save_kvs_def m_def d'_def)
  then have push: "tw_push pb ts fl s = Some (None, (w, d'))" by (simp add: tw_push_def tw_Push_def s)
  have sorted: "kv_sorted (db_kv d)" using assms(1) by (simp add: s tw_ok_def db_ok_def)
  have ok: "tw_ok (w, d')"
    using assms(1) sorted by (simp add: s tw_ok_def db_ok_def d'_def foldl_kv_apply_sorted del: foldl_append)
  have seq: "prefix seq_prefix k" if "map_of (rev m) k = Some v" for k v
    using map_of_SomeD [OF that] by (auto simp: m_def index_kvs_def split: if_splits)
  have nk: "\<not> prefix seq_prefix k \<and> k \<notin> set (ack_keys (tw_ackBuffer w))" if "map_of (rev kvs) k = Some v" for k v
  proof -
    have "(k, v) \<in> set kvs" using map_of_SomeD [OF that] by simp
    then have "k \<in> fst ` set kvs" by force
    moreover have "fst ` set kvs = task_key ` set ts"
      using arg_cong [OF those_task_kv(1) [OF assms(2)], of set] by simp
    ultimately show ?thesis using assms(3) by (auto simp: s tw_acked_def)
  qed
  have "tw_view (w, d') = tw_view s ++ map_of (rev kvs)"
  proof
    fix k
    have "db_lookup d' k = (map_of (db_kv d) ++ map_of (rev (kvs @ m))) k"
      using foldl_bsets_lookup [OF sorted, of "kvs @ m"] by (simp add: d'_def db_lookup_def del: map_append)
    then show "tw_view (w, d') k = (tw_view s ++ map_of (rev kvs)) k"
      using nk [of k] seq [of k] by (auto simp: tw_view_def s db_lookup_def map_add_def split: option.splits)
  qed
  with push ok show ?thesis by (auto simp: s tw_acked_def)
qed

lemma DeleteAll_view:
  assumes "db_ok d" "db_faults d = []"
  shows "\<exists>d'. DeleteAll d as = (None, d') \<and> db_ok d' \<and> db_faults d' = [] \<and>
    db_lookup d' = (\<lambda>k. if k \<in> set (ack_keys as) then None else db_lookup d k)"
  using assms
  by (auto simp: DeleteAll_no_faults db_ok_def db_lookup_def fun_eq_iff foldl_bdeletes_lookup foldl_kv_apply_sorted)

lemma tw_acknowledge_ok:
  assumes "tw_ok s"
  shows "\<exists>s'. tw_acknowledge as s = (None, s') \<and> tw_ok s' \<and> tw_acked s' \<subseteq> tw_acked s \<union> set (ack_keys as) \<and>
    tw_view s' = (\<lambda>k. if k \<in> set (ack_keys as) then None else tw_view s k)"
proof -
  obtain w d where s: "s = (w, d)" by force
  obtain d' where "DeleteAll d (tw_ackBuffer w @ as) = (None, d')" "db_ok d'" "db_faults d' = []"
    "db_lookup d' = (\<lambda>k. if k \<in> set (ack_keys (tw_ackBuffer w @ as)) then None else db_lookup d k)"
    using DeleteAll_view [of d "tw_ackBuffer w @ as"] assms by (auto simp: s tw_ok_def)
  with assms show ?thesis
    by (auto simp: s tw_acknowledge_def tw_Acknowledge_def tw_flush_def Let_def tw_ok_def tw_acked_def tw_view_def
        fun_eq_iff)
qed

lemma tw_save_ok:
  assumes "tw_ok s" "marshal_config pb c = Some b"
  shows "\<exists>s'. tw_save pb c s = (None, s') \<and> tw_ok s' \<and> tw_acked s' = tw_acked s \<and>
    tw_view s' = (tw_view s)(getConfigKey (qc_id c) \<mapsto> b)"
  using assms
  by (auto simp: tw_save_def SettingStore_Save_def tw_ok_def tw_acked_def tw_view_def db_ok_def db_lookup_def
      map_of_kv_put fun_eq_iff)

interpretation tw: task_writer "tw_push pb" tw_acknowledge "tw_save pb" tw_view tw_acked tw_ok pb for pb
  by unfold_locales (use tw_push_ok tw_acknowledge_ok tw_save_ok in blast)+

end
