(* ===== verification/Snapshot.thy ===== *)
theory Snapshot
  imports Task_Writer
begin

text \<open>
  Snapshots of the state machine: \<^verbatim>\<open>src/server/cluster/sm/snapshot.go\<close> over the interfaces of
  \<^verbatim>\<open>src/server/cluster/sm/sm.go\<close>, and their implementation \<^verbatim>\<open>src/server/cluster/store.go\<close>. A snapshot is the
  sequence of all keys and values, each with its length in front. The sink of raft and the reader of a stored
  snapshot are streams of bytes that can fail at any point.

  The locale \<open>kv_store\<close> is the interface \<^verbatim>\<open>KVStore\<close> with what a restore relies on: \<^verbatim>\<open>DeleteAll\<close> empties
  the collection and \<^verbatim>\<open>Write\<close> adds a pair. The pebble store of the code keeps to it as long as the database holds
  only keys of z4, because \<^verbatim>\<open>DeleteAll\<close> removes two ranges of keys.
\<close>

section \<open>Streams\<close>

text \<open>A \<^verbatim>\<open>raft.SnapshotSink\<close>: what was written, and the outcomes of the next writes.\<close>

record sink =
  sink_data :: bytes
  sink_faults :: "error option list"

definition sink_Write :: "sink \<Rightarrow> bytes \<Rightarrow> error option \<times> sink" where
  "sink_Write s b =
     (case sink_faults s of
        [] \<Rightarrow> (None, s\<lparr>sink_data := sink_data s @ b\<rparr>)
      | None # fs \<Rightarrow> (None, s\<lparr>sink_data := sink_data s @ b, sink_faults := fs\<rparr>)
      | Some e # fs \<Rightarrow> (Some e, s\<lparr>sink_faults := fs\<rparr>))"

lemma sink_Write_cases:
  assumes "sink_Write s b = (r, s')"
  shows "sink_data s' = (if r = None then sink_data s @ b else sink_data s)"
  using assms by (auto simp: sink_Write_def split: list.splits option.splits)

text \<open>
  An \<^verbatim>\<open>io.ReadCloser\<close>: the bytes left and the error found behind them, \<^verbatim>\<open>io.EOF\<close> at the end of a
  stream. \<^verbatim>\<open>io.ReadFull\<close> turns an end in the middle into \<^verbatim>\<open>io.ErrUnexpectedEOF\<close>.
\<close>

record stream =
  st_data :: bytes
  st_end :: error

definition ReadFull :: "stream \<Rightarrow> nat \<Rightarrow> (error + bytes) \<times> stream" where
  "ReadFull src n =
     (if n \<le> length (st_data src) then (Inr (take n (st_data src)), src\<lparr>st_data := drop n (st_data src)\<rparr>)
      else (Inl (if st_end src = EOF \<and> st_data src \<noteq> [] then ErrUnexpectedEOF else st_end src), src\<lparr>st_data := []\<rparr>))"

section \<open>Writing a snapshot\<close>

definition checkLengthBuffer :: "bytes \<Rightarrow> error option" where
  "checkLengthBuffer lb = (if length lb \<noteq> 4 then Some EBadLengthBuffer else None)"

text \<open>\<^verbatim>\<open>uint32(len(src))\<close> keeps the low 32 bits of the length.\<close>

definition snap_write :: "bytes \<Rightarrow> sink \<Rightarrow> bytes \<Rightarrow> error option \<times> sink" where
  "snap_write src dst lb =
     (case checkLengthBuffer lb of
        Some e \<Rightarrow> (Some e, dst)
      | None \<Rightarrow>
          (let lb' = PutUint32 (word_of_nat (length src))
           in case sink_Write dst lb' of
                (Some e, dst') \<Rightarrow> (Some e, dst')
              | (None, dst') \<Rightarrow> sink_Write dst' src))"

text \<open>\<^verbatim>\<open>KVIterator.ForEach\<close>, as the scanner of the pebble store implements it, over the pairs of its snapshot.\<close>

fun scanner_ForEach :: "('s \<Rightarrow> bytes \<Rightarrow> bytes \<Rightarrow> error option \<times> 's) \<Rightarrow> kv \<Rightarrow> 's \<Rightarrow> error option \<times> 's" where
  "scanner_ForEach f [] s = (None, s)"
| "scanner_ForEach f (e # es) s =
     (case f s (fst e) (snd e) of
        (Some x, s') \<Rightarrow> (Some x, s')
      | (None, s') \<Rightarrow> scanner_ForEach f es s')"

definition Persist :: "kv \<Rightarrow> sink \<Rightarrow> error option \<times> sink" where
  "Persist it dst =
     (let lb = replicate 4 0
      in scanner_ForEach
           (\<lambda>dst k v. case snap_write k dst lb of (Some e, dst') \<Rightarrow> (Some e, dst') | (None, dst') \<Rightarrow> snap_write v dst' lb)
           it dst)"

section \<open>Reading a snapshot\<close>

definition snap_read :: "stream \<Rightarrow> bytes \<Rightarrow> (error + bytes) \<times> stream" where
  "snap_read src lb =
     (case checkLengthBuffer lb of
        Some e \<Rightarrow> (Inl e, src)
      | None \<Rightarrow>
          (case ReadFull src 4 of
             (Inl e, src') \<Rightarrow> (Inl e, src')
           | (Inr lb', src') \<Rightarrow> ReadFull src' (be_dec lb')))"

lemma snap_read_shorter: "snap_read src lb = (Inr v, src') \<Longrightarrow> length (st_data src') < length (st_data src)"
  by (auto simp: snap_read_def ReadFull_def split: option.splits prod.splits sum.splits if_splits)

text \<open>The loop of \<^verbatim>\<open>loadData\<close>, over the \<^verbatim>\<open>Write\<close> of the store.\<close>

function loadData :: "(bytes \<Rightarrow> bytes \<Rightarrow> 's \<Rightarrow> error option \<times> 's) \<Rightarrow> stream \<Rightarrow> 's \<Rightarrow> error option \<times> 's" where
  "loadData write src s =
     (case snap_read src (replicate 4 0) of
        (Inl e, src') \<Rightarrow> (if e = EOF then None else Some e, s)
      | (Inr key, src') \<Rightarrow>
          (case snap_read src' (replicate 4 0) of
             (Inl e, src'') \<Rightarrow> (Some e, s)
           | (Inr val, src'') \<Rightarrow>
               (case write key val s of
                  (Some e, s') \<Rightarrow> (Some e, s')
                | (None, s') \<Rightarrow> loadData write src'' s')))"
  by pat_completeness auto
termination
proof (relation "measure (\<lambda>(write, src, s). length (st_data src))", simp, goal_cases)
  case (1 w src s x src' k y src'' v z s')
  then have r: "snap_read src (replicate 4 0) = (Inr k, src')" "snap_read src' (replicate 4 0) = (Inr v, src'')"
    by simp_all
  from snap_read_shorter [OF r(1)] snap_read_shorter [OF r(2)] show ?case by simp
qed

declare loadData.simps [simp del]

definition Restore ::
  "('s \<Rightarrow> error option \<times> 's) \<Rightarrow> (bytes \<Rightarrow> bytes \<Rightarrow> 's \<Rightarrow> error option \<times> 's) \<Rightarrow> stream \<Rightarrow> 's \<Rightarrow> error option \<times> 's" where
  "Restore deleteAll write snapshot s =
     (case deleteAll s of
        (Some e, s') \<Rightarrow> (Some e, s')
      | (None, s') \<Rightarrow> loadData write snapshot s')"

section \<open>The pebble store\<close>

definition store_Write :: "bytes \<Rightarrow> bytes \<Rightarrow> db \<Rightarrow> error option \<times> db" where
  "store_Write k v d = db_Set d k v"

definition store_DeleteAll :: "db \<Rightarrow> error option \<times> db" where
  "store_DeleteAll d =
     (case db_DeleteRange d (str_bytes ''task# '') (str_bytes ''task#z'') of
        (Some e, d') \<Rightarrow> (Some e, d')
      | (None, d') \<Rightarrow> db_DeleteRange d' (str_bytes ''queue# '') (str_bytes ''queue#z''))"

definition store_Iterator :: "db \<Rightarrow> kv" where
  "store_Iterator d = db_kv d"

section \<open>The format of a snapshot\<close>

text \<open>The bytes of a snapshot.\<close>

definition frame :: "bytes \<Rightarrow> bytes" where
  "frame b = PutUint32 (word_of_nat (length b)) @ b"

definition frames :: "kv \<Rightarrow> bytes" where
  "frames es = concat (map (\<lambda>e. frame (fst e) @ frame (snd e)) es)"

definition fits :: "kv \<Rightarrow> bool" where
  "fits es = (\<forall>e \<in> set es. length (fst e) < 2 ^ 32 \<and> length (snd e) < 2 ^ 32)"

lemma Persist_frames:
  assumes "sink_faults dst = []"
  shows "Persist es dst = (None, dst\<lparr>sink_data := sink_data dst @ frames es\<rparr>)"
  using assms
proof (induction es arbitrary: dst)
  case Nil
  then show ?case by (simp add: Persist_def frames_def)
next
  case (Cons e es)
  have w: "snap_write b d (replicate 4 0) = (None, d\<lparr>sink_data := sink_data d @ frame b\<rparr>)" if "sink_faults d = []" for b d
    using that by (simp add: snap_write_def checkLengthBuffer_def sink_Write_def frame_def)
  from Cons.IH [of "dst\<lparr>sink_data := sink_data dst @ frame (fst e) @ frame (snd e)\<rparr>"] Cons.prems show ?case
    by (simp add: Persist_def w frames_def)
qed

lemma snap_read_frame:
  assumes "length b < 2 ^ 32"
  shows "snap_read \<lparr>st_data = frame b @ rest, st_end = e\<rparr> (replicate 4 0) = (Inr b, \<lparr>st_data = rest, st_end = e\<rparr>)"
proof -
  have "unat (word_of_nat (length b) :: 32 word) = length b"
    using assms by (simp add: unat_of_nat take_bit_nat_eq_self)
  then show ?thesis by (simp add: snap_read_def checkLengthBuffer_def ReadFull_def frame_def)
qed

lemma snap_read_end: "snap_read \<lparr>st_data = [], st_end = EOF\<rparr> (replicate 4 0) = (Inl EOF, \<lparr>st_data = [], st_end = EOF\<rparr>)"
  by (simp add: snap_read_def checkLengthBuffer_def ReadFull_def)

text \<open>Loading a snapshot writes its pairs in order.\<close>

fun write_all :: "(bytes \<Rightarrow> bytes \<Rightarrow> 's \<Rightarrow> error option \<times> 's) \<Rightarrow> kv \<Rightarrow> 's \<Rightarrow> error option \<times> 's" where
  "write_all write [] s = (None, s)"
| "write_all write (e # es) s =
     (case write (fst e) (snd e) s of (Some x, s') \<Rightarrow> (Some x, s') | (None, s') \<Rightarrow> write_all write es s')"

lemma loadData_frames:
  "fits es \<Longrightarrow> loadData write \<lparr>st_data = frames es, st_end = EOF\<rparr> s = write_all write es s"
proof (induction es arbitrary: s)
  case Nil
  show ?case by (subst loadData.simps) (simp add: frames_def snap_read_end)
next
  case (Cons e es)
  have fr: "frames (e # es) = frame (fst e) @ frame (snd e) @ frames es" by (simp add: frames_def)
  have "fits es" and b: "length (fst e) < 2 ^ 32" "length (snd e) < 2 ^ 32" using Cons.prems by (auto simp: fits_def)
  with Cons.IH show ?case
    by (subst loadData.simps) (auto simp: fr snap_read_frame [OF b(1)] snap_read_frame [OF b(2)] split: option.splits prod.splits)
qed

section \<open>The interface\<close>

locale kv_store =
  fixes contents :: "'s \<Rightarrow> bytes \<Rightarrow> bytes option"
    and wr :: "bytes \<Rightarrow> bytes \<Rightarrow> 's \<Rightarrow> error option \<times> 's"
    and deleteAll :: "'s \<Rightarrow> error option \<times> 's"
    and ok :: "'s \<Rightarrow> bool"
    and key_ok :: "bytes \<Rightarrow> bool"
  assumes write_ok: "ok s \<Longrightarrow> key_ok k \<Longrightarrow>
      \<exists>s'. wr k v s = (None, s') \<and> ok s' \<and> contents s' = (contents s)(k \<mapsto> v)"
    and deleteAll_ok: "ok s \<Longrightarrow> \<exists>s'. deleteAll s = (None, s') \<and> ok s' \<and> contents s' = Map.empty"
begin

lemma write_all_ok:
  assumes "ok s" "\<forall>e \<in> set es. key_ok (fst e)"
  shows "\<exists>s'. write_all wr es s = (None, s') \<and> ok s' \<and> contents s' = contents s ++ map_of (rev es)"
  using assms
proof (induction es arbitrary: s)
  case (Cons e es)
  obtain s1 where s1: "wr (fst e) (snd e) s = (None, s1)" "ok s1" "contents s1 = (contents s)(fst e \<mapsto> snd e)"
    using write_ok [of s "fst e" "snd e"] Cons.prems by auto
  obtain s' where s': "write_all wr es s1 = (None, s')" "ok s'" "contents s' = contents s1 ++ map_of (rev es)"
    using Cons.IH [OF s1(2)] Cons.prems(2) by auto
  have "contents s' = contents s ++ map_of (rev (e # es))"
    unfolding s'(3) s1(3) by (auto simp: map_add_def fun_eq_iff split: option.splits)
  with s1(1) s'(1,2) show ?case by simp
qed simp

lemma restore_frames:
  assumes "ok s" "kv_sorted es" "fits es" "\<forall>e \<in> set es. key_ok (fst e)"
  shows "\<exists>s'. Restore deleteAll wr \<lparr>st_data = frames es, st_end = EOF\<rparr> s = (None, s') \<and> ok s' \<and> contents s' = map_of es"
proof -
  obtain s1 where s1: "deleteAll s = (None, s1)" "ok s1" "contents s1 = Map.empty" using deleteAll_ok [OF assms(1)] by blast
  obtain s' where "write_all wr es s1 = (None, s')" "ok s'" "contents s' = contents s1 ++ map_of (rev es)"
    using write_all_ok [OF s1(2) assms(4)] by blast
  then show ?thesis
    using s1 map_of_rev_distinct [OF kv_sorted_distinct [OF assms(2)]]
    by (simp add: Restore_def loadData_frames [OF assms(3)])
qed

end

section \<open>The pebble store keeps the interface\<close>

text \<open>The keys of z4: of tasks, of settings and of sequences.\<close>

definition z4_key :: "bytes \<Rightarrow> bool" where
  "z4_key k = (prefix (str_bytes ''task#fifo#'') k \<or> prefix (str_bytes ''task#sched#'') k \<or>
     prefix config_prefix k \<or> prefix seq_prefix k)"

definition z4_db :: "db \<Rightarrow> bool" where
  "z4_db d = (db_ok d \<and> db_faults d = [] \<and> (\<forall>e \<in> set (db_kv d). z4_key (fst e)))"

lemma z4_keys [simp]: "z4_key (getTaskKey t tid)" "z4_key (getConfigKey q)" "z4_key (getSeqKey q)"
  by (auto simp: z4_key_def getTaskKey_def getFifoTaskKey_def getScheduledTaskKey_def getFifoPrefix_def
      getSchedPrefix_def getConfigKey_eq getSeqKey_def seq_prefix_def)

text \<open>Both ranges of \<^verbatim>\<open>DeleteAll\<close> together hold every key of z4.\<close>

lemma z4_key_deleted:
  assumes "z4_key k"
  shows "str_bytes ''task# '' \<le> k \<and> k < str_bytes ''task#z'' \<or> str_bytes ''queue# '' \<le> k \<and> k < str_bytes ''queue#z''"
  using assms
  by (auto simp: z4_key_def config_prefix_def seq_prefix_def byte_of_def elim!: prefixE)

lemma DeleteRange_no_faults:
  "db_faults d = [] \<Longrightarrow> db_DeleteRange d a b = (None, d\<lparr>db_kv := kv_del_range a b (db_kv d)\<rparr>)"
  by (simp add: db_DeleteRange_def)

lemma store_DeleteAll_empty:
  assumes "z4_db d"
  shows "store_DeleteAll d = (None, d\<lparr>db_kv := []\<rparr>)"
proof -
  have "kv_del_range (str_bytes ''queue# '') (str_bytes ''queue#z'') (kv_del_range (str_bytes ''task# '') (str_bytes ''task#z'') (db_kv d)) = []"
    using assms z4_key_deleted unfolding z4_db_def kv_del_range_def filter_filter by (fastforce simp: filter_empty_conv)
  with assms show ?thesis
    by (simp add: store_DeleteAll_def DeleteRange_no_faults z4_db_def del: str_bytes_simps)
qed

interpretation store: kv_store db_lookup store_Write store_DeleteAll z4_db z4_key
proof unfold_locales
  fix d k v assume d: "z4_db d" "z4_key k"
  then have "\<forall>e \<in> set (kv_put k v (db_kv d)). z4_key (fst e)"
    using set_kv_put_subset [of k v "db_kv d"] by (auto simp: z4_db_def)
  with d show "\<exists>d'. store_Write k v d = (None, d') \<and> z4_db d' \<and> db_lookup d' = (db_lookup d)(k \<mapsto> v)"
    by (auto simp: store_Write_def z4_db_def db_ok_def db_lookup_def map_of_kv_put fun_eq_iff)
next
  fix d assume "z4_db d"
  then show "\<exists>d'. store_DeleteAll d = (None, d') \<and> z4_db d' \<and> db_lookup d' = Map.empty"
    by (auto simp: store_DeleteAll_empty) (auto simp: z4_db_def db_ok_def db_lookup_def)
qed

section \<open>Properties\<close>

text \<open>What \<^verbatim>\<open>Persist\<close> writes is restored as it was, whatever the other database held.\<close>

lemma snapshot_copies:
  assumes "z4_db d" "z4_db d2" "fits (db_kv d)"
  shows "\<exists>dst d2'. Persist (store_Iterator d) \<lparr>sink_data = [], sink_faults = []\<rparr> = (None, dst) \<and>
    Restore store_DeleteAll store_Write \<lparr>st_data = sink_data dst, st_end = EOF\<rparr> d2 = (None, d2') \<and>
    z4_db d2' \<and> db_kv d2' = db_kv d"
proof -
  have d: "kv_sorted (db_kv d)" "\<forall>e \<in> set (db_kv d). z4_key (fst e)" using assms(1) by (auto simp: z4_db_def db_ok_def)
  obtain d2' where r: "Restore store_DeleteAll store_Write \<lparr>st_data = frames (db_kv d), st_end = EOF\<rparr> d2 = (None, d2')"
    "z4_db d2'" "db_lookup d2' = map_of (db_kv d)"
    using store.restore_frames [OF assms(2) d(1) assms(3) d(2)] by blast
  have "db_kv d2' = db_kv d"
    using r(2,3) d(1) by (intro kv_sorted_eqI) (auto simp: z4_db_def db_ok_def db_lookup_def fun_eq_iff)
  with r show ?thesis by (simp add: store_Iterator_def Persist_frames)
qed

text \<open>Whichever write to the sink fails, what \<^verbatim>\<open>Persist\<close> has written is a prefix of the snapshot, and it is the
  whole snapshot if no error is reported.\<close>

theorem persist_prefix:
  assumes "Persist es dst = (r, dst')"
  shows "\<exists>b. sink_data dst' = sink_data dst @ b \<and> prefix b (frames es) \<and> (r = None \<longrightarrow> b = frames es)"
proof -
  have w: "\<exists>c. sink_data d' = sink_data d @ c \<and> prefix c (frame b) \<and> (r = None \<longrightarrow> c = frame b)"
    if "snap_write b d (replicate 4 0) = (r, d')" for b d r d'
  proof -
    obtain r1 d1 where s1: "sink_Write d (PutUint32 (word_of_nat (length b))) = (r1, d1)" by force
    with that show ?thesis
      using sink_Write_cases [OF s1] sink_Write_cases [of d1 b r d']
      by (cases r1) (auto simp: snap_write_def checkLengthBuffer_def frame_def Let_def)
  qed
  show ?thesis
    using assms
  proof (induction es arbitrary: dst)
    case Nil
    then show ?case by (simp add: Persist_def frames_def)
  next
    case (Cons e es)
    have fr: "frames (e # es) = frame (fst e) @ frame (snd e) @ frames es" by (simp add: frames_def)
    obtain r1 d1 where s1: "snap_write (fst e) dst (replicate 4 0) = (r1, d1)" by force
    obtain c1 where c1: "sink_data d1 = sink_data dst @ c1" "prefix c1 (frame (fst e))" "r1 = None \<Longrightarrow> c1 = frame (fst e)"
      using w [OF s1] by blast
    obtain r2 d2 where s2: "snap_write (snd e) d1 (replicate 4 0) = (r2, d2)" by force
    obtain c2 where c2: "sink_data d2 = sink_data d1 @ c2" "prefix c2 (frame (snd e))" "r2 = None \<Longrightarrow> c2 = frame (snd e)"
      using w [OF s2] by blast
    show ?case
    proof (cases r1)
      case (Some x)
      with Cons.prems s1 c1 show ?thesis by (auto simp: Persist_def fr)
    next
      case None
      show ?thesis
      proof (cases r2)
        case (Some x)
        with Cons.prems s1 s2 None c1 c2 show ?thesis by (auto simp: Persist_def fr)
      next
        case None2: None
        with Cons.prems s1 s2 None have "Persist es d2 = (r, dst')" by (simp add: Persist_def)
        from Cons.IH [OF this] c1 c2 None None2 show ?thesis by (auto simp: fr)
      qed
    qed
  qed
qed

theorem persist_prefix_witness:
  "\<exists>r dst'. Persist [([1], [2])] \<lparr>sink_data = [], sink_faults = [None, None, Some (EIO 28)]\<rparr> = (r, dst') \<and>
    prefix (sink_data dst') (frames [([1], [2])])"
proof -
  obtain r dst' where r: "Persist [([1], [2])] \<lparr>sink_data = [], sink_faults = [None, None, Some (EIO 28)]\<rparr> = (r, dst')" by force
  from persist_prefix [OF this] r show ?thesis by auto
qed

text \<open>
  The end of the stream is told from a cut only by where it falls. A snapshot that ends right behind the length of
  a key is taken for complete: the end is found by the second read of the key, whose error is
  \<^verbatim>\<open>io.EOF\<close> as well.
\<close>

theorem truncated_snapshot_accepted:
  assumes "z4_db d2" "kv_sorted es" "fits es" "\<forall>e \<in> set es. z4_key (fst e)" "0 < n" "n < 2 ^ 32"
  shows "\<exists>d2'. Restore store_DeleteAll store_Write
      \<lparr>st_data = frames es @ PutUint32 (word_of_nat n), st_end = EOF\<rparr> d2 = (None, d2') \<and> db_lookup d2' = map_of es"
proof -
  have n: "unat (word_of_nat n :: 32 word) = n" using assms(6) by (simp add: unat_of_nat take_bit_nat_eq_self)
  have load: "loadData wr \<lparr>st_data = frames es @ PutUint32 (word_of_nat n), st_end = EOF\<rparr> s = write_all wr es s"
    if "fits es" for wr es and s :: db
    using that
  proof (induction es arbitrary: s)
    case Nil
    have "snap_read \<lparr>st_data = PutUint32 (word_of_nat n), st_end = EOF\<rparr> (replicate 4 0) = (Inl EOF, \<lparr>st_data = [], st_end = EOF\<rparr>)"
      using assms(5) n by (simp add: snap_read_def checkLengthBuffer_def ReadFull_def)
    then show ?case by (subst loadData.simps) (simp add: frames_def)
  next
    case (Cons e es)
    have fr: "frames (e # es) = frame (fst e) @ frame (snd e) @ frames es" by (simp add: frames_def)
    have "fits es" and b: "length (fst e) < 2 ^ 32" "length (snd e) < 2 ^ 32" using Cons.prems by (auto simp: fits_def)
    with Cons.IH show ?case
      by (subst loadData.simps) (auto simp: fr snap_read_frame [OF b(1)] snap_read_frame [OF b(2)] split: option.splits prod.splits)
  qed
  from store.restore_frames [OF assms(1-4)] show ?thesis
    by (auto simp: Restore_def load [OF assms(3)] loadData_frames [OF assms(3)] split: prod.splits option.splits)
qed

end
