(* ===== verification/Index_Sequence.thy ===== *)
theory Index_Sequence
  imports Setting_Store
begin

text \<open>
  \<^verbatim>\<open>src/storage/sequence.go\<close> and \<^verbatim>\<open>src/storage/generator.go\<close>: where the indexes in task
  identifiers come from. A \<^verbatim>\<open>Sequence\<close> hands out consecutive numbers and persists, ahead of
  time, the end of a lease of numbers, from which a sequence opened later goes on. The
  \<^verbatim>\<open>IndexStore\<close> caches one sequence per queue. The cache is \<^verbatim>\<open>gcache\<close>, third-party code; which
  entries it evicts when a sequence is loaded is an argument of the model.

  The locale \<open>index_source\<close> is what a user of indexes needs: every number handed out for a
  queue is above all earlier ones. It is interpreted on the index store, with evictions and
  restarts of the process between the calls.
\<close>

section \<open>Sequences\<close>

record Sequence =
  seq_leaseSize :: u64
  seq_nextLease :: u64
  seq_i :: u64
  seq_key :: bytes

definition seq_reserve :: "Sequence \<Rightarrow> db \<Rightarrow> error option \<times> Sequence \<times> db" where
  "seq_reserve s d =
     (let s' = s\<lparr>seq_nextLease := seq_i s + seq_leaseSize s - 1\<rparr>;
          (r, d') = db_Set d (seq_key s) (PutUint64 (seq_nextLease s'))
      in (r, s', d'))"

text \<open>\<open>None\<close> is the panic of reading a stored value of less than 8 bytes.\<close>

definition seq_init :: "Sequence \<Rightarrow> db \<Rightarrow> (error option \<times> Sequence \<times> db) option" where
  "seq_init s d =
     (case db_Get d (seq_key s) of
        (Inl e, d') \<Rightarrow>
          (if \<not> errors_is e ErrNotFound then Some (Some e, s, d')
           else Some (seq_reserve (s\<lparr>seq_i := 0\<rparr>) d'))
      | (Inr val, d') \<Rightarrow>
          (case Uint64 val of
             None \<Rightarrow> None
           | Some i \<Rightarrow> Some (seq_reserve (s\<lparr>seq_i := i\<rparr>) d')))"

definition NewSequence :: "db \<Rightarrow> bytes \<Rightarrow> u64 \<Rightarrow> (error option \<times> Sequence \<times> db) option" where
  "NewSequence d key lease =
     seq_init \<lparr>seq_leaseSize = lease, seq_nextLease = 0, seq_i = 0, seq_key = key\<rparr> d"

definition seq_Next :: "Sequence \<Rightarrow> db \<Rightarrow> (error + u64) \<times> Sequence \<times> db" where
  "seq_Next s d =
     (if seq_i s = seq_nextLease s
      then (case seq_reserve s d of
              (Some e, s', d') \<Rightarrow> (Inl e, s', d')
            | (None, s', d') \<Rightarrow> (Inr (seq_i s' + 1), s'\<lparr>seq_i := seq_i s' + 1\<rparr>, d'))
      else (Inr (seq_i s + 1), s\<lparr>seq_i := seq_i s + 1\<rparr>, d))"

definition seq_Close :: "Sequence \<Rightarrow> db \<Rightarrow> error option \<times> db" where
  "seq_Close s d = db_Set d (seq_key s) (PutUint64 (seq_i s))"

definition SettingStore_Sequence :: "db \<Rightarrow> string \<Rightarrow> (error option \<times> Sequence \<times> db) option" where
  "SettingStore_Sequence d queue = NewSequence d (getSeqKey queue) SequenceLeaseSize"

section \<open>The index store\<close>

record IndexStore =
  is_cache :: "(string \<times> Sequence) list"

definition NewIndexStore :: IndexStore where
  "NewIndexStore = \<lparr>is_cache = []\<rparr>"

text \<open>\<^verbatim>\<open>release\<close>, called for every evicted or purged sequence: an error is only logged.\<close>

definition is_release :: "Sequence \<Rightarrow> db \<Rightarrow> db" where
  "is_release s d = snd (seq_Close s d)"

definition cache_put :: "string \<Rightarrow> Sequence \<Rightarrow> (string \<times> Sequence) list \<Rightarrow> (string \<times> Sequence) list" where
  "cache_put q s c = (q, s) # filter (\<lambda>e. fst e \<noteq> q) c"

fun is_evict :: "string list \<Rightarrow> IndexStore \<Rightarrow> db \<Rightarrow> IndexStore \<times> db" where
  "is_evict [] st d = (st, d)"
| "is_evict (q # qs) st d =
     (case map_of (is_cache st) q of
        None \<Rightarrow> is_evict qs st d
      | Some s \<Rightarrow> is_evict qs (st\<lparr>is_cache := filter (\<lambda>e. fst e \<noteq> q) (is_cache st)\<rparr>) (is_release s d))"

text \<open>
  \<^verbatim>\<open>c.seqCache.Get(queue)\<close>: a miss loads the sequence, which makes room by evicting the queues
  of \<open>evicted\<close>; a sequence whose loading fails is not kept.
\<close>

definition is_Get ::
  "string list \<Rightarrow> IndexStore \<Rightarrow> db \<Rightarrow> string \<Rightarrow> ((error + Sequence) \<times> IndexStore \<times> db) option" where
  "is_Get evicted st d queue =
     (case map_of (is_cache st) queue of
        Some s \<Rightarrow> Some (Inr s, st, d)
      | None \<Rightarrow>
          (case SettingStore_Sequence d queue of
             None \<Rightarrow> None
           | Some (Some e, _, d') \<Rightarrow> Some (Inl e, st, d')
           | Some (None, s, d') \<Rightarrow>
               (let (st', d'') = is_evict (filter (\<lambda>q. q \<noteq> queue) evicted) st d'
                in Some (Inr s, st'\<lparr>is_cache := cache_put queue s (is_cache st')\<rparr>, d''))))"

definition IndexStore_Next ::
  "string list \<Rightarrow> IndexStore \<Rightarrow> db \<Rightarrow> string \<Rightarrow> ((error + u64) \<times> IndexStore \<times> db) option" where
  "IndexStore_Next evicted st d queue =
     (case is_Get evicted st d queue of
        None \<Rightarrow> None
      | Some (Inl e, st', d') \<Rightarrow> Some (Inl e, st', d')
      | Some (Inr s, st', d') \<Rightarrow>
          (case seq_Next s d' of
             (r, s', d'') \<Rightarrow> Some (r, st'\<lparr>is_cache := cache_put queue s' (is_cache st')\<rparr>, d'')))"

definition IndexStore_Close :: "IndexStore \<Rightarrow> db \<Rightarrow> error option \<times> IndexStore \<times> db" where
  "IndexStore_Close st d =
     (None, st\<lparr>is_cache := []\<rparr>, foldl (\<lambda>d e. is_release (snd e) d) d (is_cache st))"

text \<open>\<^verbatim>\<open>IDGenerator.ID\<close>\<close>

definition IDGenerator_ID ::
  "string list \<Rightarrow> IndexStore \<Rightarrow> db \<Rightarrow> string \<Rightarrow> time \<Rightarrow> ((error + TaskID) \<times> IndexStore \<times> db) option" where
  "IDGenerator_ID evicted st d queue ts =
     (case IndexStore_Next evicted st d queue of
        None \<Rightarrow> None
      | Some (Inl e, st', d') \<Rightarrow> Some (Inl (EWrap ''failed to get next index'' e), st', d')
      | Some (Inr idx, st', d') \<Rightarrow> Some (Inr (iden_New ts idx), st', d'))"

section \<open>One sequence\<close>

text \<open>The number stored for a key, 0 when there is none.\<close>

definition stored :: "db \<Rightarrow> bytes \<Rightarrow> nat" where
  "stored d k = (case db_lookup d k of None \<Rightarrow> 0 | Some b \<Rightarrow> be_dec (take 8 b))"

text \<open>What holds between calls: the lease is persisted and not used up beyond its end.\<close>

definition seq_ok :: "Sequence \<Rightarrow> db \<Rightarrow> bool" where
  "seq_ok s d \<longleftrightarrow>
     2 \<le> unat (seq_leaseSize s) \<and>
     db_lookup d (seq_key s) = Some (PutUint64 (seq_nextLease s)) \<and>
     seq_i s \<le> seq_nextLease s \<and>
     unat (seq_nextLease s) < unat (seq_i s) + unat (seq_leaseSize s)"

lemma unat_lease_end:
  assumes "unat (i :: u64) + unat l < 2 ^ 64" "1 \<le> unat l"
  shows "unat (i + l - 1) = unat i + unat l - 1"
proof -
  have "unat (i + l) = unat i + unat l"
    using assms(1) by (simp add: unat_word_ariths(1))
  moreover have "1 \<le> i + l"
    using calculation assms(2) by (simp add: word_le_nat_alt)
  ultimately show ?thesis by (simp add: unat_sub)
qed

lemma seq_reserve_ok:
  assumes "db_ok d" "db_faults d = []" "2 \<le> unat (seq_leaseSize s)"
    "unat (seq_i s) + unat (seq_leaseSize s) < 2 ^ 64"
  shows "\<exists>d'. seq_reserve s d = (None, s\<lparr>seq_nextLease := seq_i s + seq_leaseSize s - 1\<rparr>, d') \<and>
    db_faults d' = [] \<and> db_ok d' \<and> seq_ok (s\<lparr>seq_nextLease := seq_i s + seq_leaseSize s - 1\<rparr>) d' \<and>
    unat (seq_i s + seq_leaseSize s - 1) = unat (seq_i s) + unat (seq_leaseSize s) - 1 \<and>
    (\<forall>k. k \<noteq> seq_key s \<longrightarrow> db_lookup d' k = db_lookup d k)"
proof -
  have e: "unat (seq_i s + seq_leaseSize s - 1) = unat (seq_i s) + unat (seq_leaseSize s) - 1"
    using assms by (intro unat_lease_end) simp_all
  then have "seq_i s \<le> seq_i s + seq_leaseSize s - 1"
    using assms(3) by (simp add: word_le_nat_alt)
  with assms e show ?thesis
    by (auto simp: seq_reserve_def seq_ok_def db_ok_def db_lookup_def map_of_kv_put)
qed

lemma seq_Next_ok:
  assumes "db_ok d" "db_faults d = []" "seq_ok s d"
    "unat (seq_i s) + unat (seq_leaseSize s) < 2 ^ 64"
  shows "\<exists>s' d'. seq_Next s d = (Inr (seq_i s + 1), s', d') \<and> seq_i s' = seq_i s + 1 \<and>
    seq_leaseSize s' = seq_leaseSize s \<and> seq_key s' = seq_key s \<and>
    unat (seq_i s + 1) = Suc (unat (seq_i s)) \<and>
    db_faults d' = [] \<and> db_ok d' \<and> seq_ok s' d' \<and>
    (\<forall>k. k \<noteq> seq_key s \<longrightarrow> db_lookup d' k = db_lookup d k)"
proof -
  have l: "2 \<le> unat (seq_leaseSize s)" using assms(3) by (simp add: seq_ok_def)
  have inc: "unat (seq_i s + 1) = Suc (unat (seq_i s))"
    using assms(4) l by (simp add: unat_word_ariths(1))
  show ?thesis
  proof (cases "seq_i s = seq_nextLease s")
    case True
    obtain d' where d': "seq_reserve s d = (None, s\<lparr>seq_nextLease := seq_i s + seq_leaseSize s - 1\<rparr>, d')"
      "db_faults d' = []" "db_ok d'" "seq_ok (s\<lparr>seq_nextLease := seq_i s + seq_leaseSize s - 1\<rparr>) d'"
      "unat (seq_i s + seq_leaseSize s - 1) = unat (seq_i s) + unat (seq_leaseSize s) - 1"
      "\<forall>k. k \<noteq> seq_key s \<longrightarrow> db_lookup d' k = db_lookup d k"
      using seq_reserve_ok [OF assms(1,2) l assms(4)] by blast
    with True inc l show ?thesis
      by (auto simp: seq_Next_def seq_ok_def word_le_nat_alt)
  next
    case False
    then have "seq_i s < seq_nextLease s" using assms(3) by (simp add: seq_ok_def order_less_le)
    with False inc assms show ?thesis
      by (auto simp: seq_Next_def seq_ok_def word_le_nat_alt word_less_nat_alt)
  qed
qed

lemma NewSequence_ok:
  assumes "db_ok d" "db_faults d = []" "2 \<le> unat lease"
    "db_lookup d key = None \<or> (\<exists>v. db_lookup d key = Some (PutUint64 v))"
    "stored d key + unat lease < 2 ^ 64"
  shows "\<exists>s d'. NewSequence d key lease = Some (None, s, d') \<and> unat (seq_i s) = stored d key \<and>
    seq_leaseSize s = lease \<and> seq_key s = key \<and> db_faults d' = [] \<and> db_ok d' \<and> seq_ok s d' \<and>
    (\<forall>k. k \<noteq> key \<longrightarrow> db_lookup d' k = db_lookup d k)"
proof -
  obtain i where i: "NewSequence d key lease
      = Some (seq_reserve \<lparr>seq_leaseSize = lease, seq_nextLease = 0, seq_i = i, seq_key = key\<rparr> d)"
    and s: "unat i = stored d key"
    using assms(2,4)
    by (cases "db_lookup d key") (auto simp: NewSequence_def seq_init_def stored_def)
  show ?thesis
    using seq_reserve_ok [of d "\<lparr>seq_leaseSize = lease, seq_nextLease = 0, seq_i = i, seq_key = key\<rparr>"]
      assms(1,2,3,5) s
    by (auto simp: i seq_ok_def)
qed

lemma seq_Close_ok:
  assumes "db_ok d" "db_faults d = []"
  shows "\<exists>d'. seq_Close s d = (None, d') \<and> db_faults d' = [] \<and> db_ok d' \<and>
    db_lookup d' = (db_lookup d)(seq_key s \<mapsto> PutUint64 (seq_i s))"
  using assms by (simp add: seq_Close_def db_ok_def db_lookup_def map_of_kv_put fun_eq_iff)

section \<open>The interface and the index store\<close>

text \<open>The outputs of a run of events.\<close>

fun run_events :: "('s \<Rightarrow> 'e \<Rightarrow> 'o list \<times> 's) \<Rightarrow> 's \<Rightarrow> 'e list \<Rightarrow> 'o list \<times> 's" where
  "run_events step s [] = ([], s)"
| "run_events step s (e # es) =
     (let (out, s') = step s e; (outs, s'') = run_events step s' es in (out @ outs, s''))"

text \<open>The indexes of one queue among the indexes handed out.\<close>

definition issued :: "string \<Rightarrow> (string \<times> u64) list \<Rightarrow> nat list" where
  "issued q outs = map (\<lambda>e. unat (snd e)) (filter (\<lambda>e. fst e = q) outs)"

lemma issued_append [simp]: "issued q (xs @ ys) = issued q xs @ issued q ys"
  by (simp add: issued_def)

locale index_source =
  fixes step :: "'s \<Rightarrow> 'e \<Rightarrow> (string \<times> u64) list \<times> 's"
    and mark :: "'s \<Rightarrow> string \<Rightarrow> nat"
    and ok :: "'s \<Rightarrow> bool"
    and stride :: nat
    and limit :: nat
  assumes step_ok: "ok s \<Longrightarrow> \<forall>q. mark s q + stride < limit \<Longrightarrow> step s e = (out, s') \<Longrightarrow> ok s'"
    and step_mark: "ok s \<Longrightarrow> \<forall>q. mark s q + stride < limit \<Longrightarrow> step s e = (out, s') \<Longrightarrow>
          mark s q \<le> mark s' q \<and> mark s' q \<le> mark s q + stride"
    and step_out: "ok s \<Longrightarrow> \<forall>q. mark s q + stride < limit \<Longrightarrow> step s e = (out, s') \<Longrightarrow>
          out = [] \<or> (\<exists>q v. out = [(q, v)] \<and> mark s q < unat v \<and> unat v \<le> mark s' q)"
begin

lemma step_issued:
  assumes "ok s" "\<forall>q. mark s q + stride < limit" "step s e = (out, s')"
  shows "issued q out = [] \<or> (\<exists>n. issued q out = [n] \<and> mark s q < n \<and> n \<le> mark s' q)"
  using step_out [OF assms] by (fastforce simp: issued_def)

lemma run_increasing:
  assumes "ok s" "\<forall>q. mark s q + length es * stride < limit" "run_events step s es = (outs, s')"
  shows "sorted_wrt (<) (mark s q # issued q outs) \<and> (\<forall>n \<in> set (issued q outs). n \<le> mark s' q) \<and> mark s q \<le> mark s' q"
  using assms
proof (induction es arbitrary: s outs)
  case Nil
  then show ?case by (simp add: issued_def)
next
  case (Cons e es)
  obtain out s1 where st: "step s e = (out, s1)" by force
  obtain rest where rest: "run_events step s1 es = (rest, s')" and outs: "outs = out @ rest"
    using Cons.prems(3) st by (auto simp: Let_def split: prod.splits)
  have room: "\<forall>q. mark s q + stride < limit"
    using Cons.prems(2) by (auto simp: algebra_simps) (metis add.assoc add_lessD1)
  note m = step_mark [OF Cons.prems(1) room st]
  have "\<forall>q. mark s1 q + length es * stride < limit"
  proof
    fix q
    have "mark s1 q + length es * stride \<le> mark s q + length (e # es) * stride"
      using m [of q] by simp
    also have "\<dots> < limit" using Cons.prems(2) by blast
    finally show "mark s1 q + length es * stride < limit" .
  qed
  with Cons.IH [OF step_ok [OF Cons.prems(1) room st] _ rest]
  have ih: "sorted_wrt (<) (mark s1 q # issued q rest)" "\<forall>n \<in> set (issued q rest). n \<le> mark s' q"
    "mark s1 q \<le> mark s' q" by auto
  from step_issued [OF Cons.prems(1) room st, of q] show ?case
  proof
    assume "issued q out = []"
    with ih m [of q] show ?thesis by (auto simp: outs)
  next
    assume "\<exists>n. issued q out = [n] \<and> mark s q < n \<and> n \<le> mark s1 q"
    then obtain n where "issued q out = [n]" "mark s q < n" "n \<le> mark s1 q" by blast
    with ih m [of q] show ?thesis by (auto simp: outs)
  qed
qed

end

text \<open>The events between which indexes are handed out: a call, a crash, an orderly shutdown.\<close>

datatype index_event = Idx_Next "string list" string | Idx_Crash | Idx_Shutdown

fun index_step :: "IndexStore \<times> db \<Rightarrow> index_event \<Rightarrow> (string \<times> u64) list \<times> (IndexStore \<times> db)" where
  "index_step (st, d) (Idx_Next evicted q) =
     (case IndexStore_Next evicted st d q of
        Some (Inr v, st', d') \<Rightarrow> ([(q, v)], (st', d'))
      | Some (Inl _, st', d') \<Rightarrow> ([], (st', d'))
      | None \<Rightarrow> ([], (st, d)))"
| "index_step (st, d) Idx_Crash = ([], (NewIndexStore, d))"
| "index_step (st, d) Idx_Shutdown = (case IndexStore_Close st d of (_, _, d') \<Rightarrow> ([], (NewIndexStore, d')))"

definition index_mark :: "IndexStore \<times> db \<Rightarrow> string \<Rightarrow> nat" where
  "index_mark sd q =
     (case map_of (is_cache (fst sd)) q of
        Some s \<Rightarrow> unat (seq_i s)
      | None \<Rightarrow> stored (snd sd) (getSeqKey q))"

definition index_ok :: "IndexStore \<times> db \<Rightarrow> bool" where
  "index_ok sd \<longleftrightarrow>
     db_ok (snd sd) \<and> db_faults (snd sd) = [] \<and> distinct (map fst (is_cache (fst sd))) \<and>
     (\<forall>q s. map_of (is_cache (fst sd)) q = Some s \<longrightarrow>
        seq_ok s (snd sd) \<and> seq_key s = getSeqKey q \<and> seq_leaseSize s = SequenceLeaseSize) \<and>
     (\<forall>q. db_lookup (snd sd) (getSeqKey q) = None \<or> (\<exists>v. db_lookup (snd sd) (getSeqKey q) = Some (PutUint64 v)))"

lemma index_okD:
  assumes "index_ok (st, d)"
  shows "db_ok d" "db_faults d = []" "distinct (map fst (is_cache st))"
    and "map_of (is_cache st) q = Some s \<Longrightarrow> seq_ok s d"
    and "map_of (is_cache st) q = Some s \<Longrightarrow> seq_key s = getSeqKey q"
    and "map_of (is_cache st) q = Some s \<Longrightarrow> seq_leaseSize s = SequenceLeaseSize"
    and "db_lookup d (getSeqKey q) = None \<or> (\<exists>v. db_lookup d (getSeqKey q) = Some (PutUint64 v))"
  using assms unfolding index_ok_def by (metis fst_conv snd_conv)+

lemma index_okI:
  assumes "db_ok d" "db_faults d = []" "distinct (map fst (is_cache st))"
    and "\<And>q s. map_of (is_cache st) q = Some s \<Longrightarrow>
           seq_ok s d \<and> seq_key s = getSeqKey q \<and> seq_leaseSize s = SequenceLeaseSize"
    and "\<And>q. db_lookup d (getSeqKey q) = None \<or> (\<exists>v. db_lookup d (getSeqKey q) = Some (PutUint64 v))"
  shows "index_ok (st, d)"
  using assms by (simp only: index_ok_def fst_conv snd_conv) blast

lemma seq_ok_cong: "db_lookup d' (seq_key s) = db_lookup d (seq_key s) \<Longrightarrow> seq_ok s d' = seq_ok s d"
  by (simp add: seq_ok_def)

lemma map_of_filter_neq: "map_of (filter (\<lambda>e. fst e \<noteq> q) c) = (map_of c)(q := None)"
  by (induction c) (auto simp: fun_eq_iff)

lemma distinct_filter_keys: "distinct (map fst c) \<Longrightarrow> distinct (map fst (filter P c))"
  by (induction c) auto

lemma map_of_cache_put [simp]: "map_of (cache_put q s c) = (map_of c)(q \<mapsto> s)"
  by (simp add: cache_put_def map_of_filter_neq fun_eq_iff)

lemma distinct_cache_put [simp]: "distinct (map fst c) \<Longrightarrow> distinct (map fst (cache_put q s c))"
  by (auto simp: cache_put_def distinct_filter_keys)

text \<open>Releasing a sequence stores the number it has reached: no mark changes.\<close>

lemma release_ok:
  assumes "index_ok (st, d)" "map_of (is_cache st) q = Some s"
  defines "st' \<equiv> st\<lparr>is_cache := filter (\<lambda>e. fst e \<noteq> q) (is_cache st)\<rparr>"
  shows "index_ok (st', is_release s d)" "index_mark (st', is_release s d) = index_mark (st, d)"
proof -
  note ok = index_okD [OF assms(1)]
  obtain d' where d': "seq_Close s d = (None, d')" "db_faults d' = []" "db_ok d'"
    "db_lookup d' = (db_lookup d)(seq_key s \<mapsto> PutUint64 (seq_i s))"
    using seq_Close_ok [OF ok(1,2), of s] by auto
  have k: "seq_key s = getSeqKey q" by (rule ok(5) [OF assms(2)])
  have r: "is_release s d = d'" by (simp add: is_release_def d')
  have cached: "seq_ok t d' \<and> seq_key t = getSeqKey p \<and> seq_leaseSize t = SequenceLeaseSize"
    if "map_of (is_cache st') p = Some t" for p t
  proof -
    from that have "p \<noteq> q" and t: "map_of (is_cache st) p = Some t"
      by (auto simp: st'_def map_of_filter_neq split: if_splits)
    then have "db_lookup d' (seq_key t) = db_lookup d (seq_key t)"
      using ok(5) [OF t] k d'(4) by simp
    with ok(4-6) [OF t] show ?thesis by (simp add: seq_ok_cong [of d' t d])
  qed
  have stored: "db_lookup d' (getSeqKey p) = None \<or> (\<exists>v. db_lookup d' (getSeqKey p) = Some (PutUint64 v))" for p
    using ok(7) [of p] d'(4) by auto
  have "distinct (map fst (is_cache st'))"
    using ok(3) by (simp add: st'_def distinct_filter_keys)
  from index_okI [OF d'(3,2) this cached stored] show "index_ok (st', is_release s d)"
    by (simp add: r)
  show "index_mark (st', is_release s d) = index_mark (st, d)"
    using assms(2) d'(4) k
    by (auto simp: fun_eq_iff index_mark_def st'_def r map_of_filter_neq stored_def split: option.splits)
qed

lemma is_evict_ok:
  assumes "index_ok (st, d)" "is_evict qs st d = (st', d')"
  shows "index_ok (st', d') \<and> index_mark (st', d') = index_mark (st, d)"
  using assms
proof (induction qs st d rule: is_evict.induct)
  case (2 q qs st d)
  then show ?case
    by (cases "map_of (is_cache st) q") (auto simp: release_ok)
qed simp

lemma is_evict_miss:
  "is_evict qs st d = (st', d') \<Longrightarrow> map_of (is_cache st) q = None \<Longrightarrow> map_of (is_cache st') q = None"
proof (induction qs st d rule: is_evict.induct)
  case (2 p qs st d)
  then show ?case
    by (cases "map_of (is_cache st) p") (auto simp: map_of_filter_neq split: if_splits)
qed simp

lemma is_evict_lookup:
  assumes "index_ok (st, d)" "is_evict qs st d = (st', d')" "\<forall>p s. map_of (is_cache st) p = Some s \<longrightarrow> getSeqKey p \<noteq> k"
  shows "db_lookup d' k = db_lookup d k"
  using assms
proof (induction qs st d rule: is_evict.induct)
  case (2 p qs st d)
  show ?case
  proof (cases "map_of (is_cache st) p")
    case None
    with 2 show ?thesis by auto
  next
    case (Some s)
    have key: "seq_key s = getSeqKey p" and ok: "db_ok d" "db_faults d = []"
      using "2.prems"(1) Some by (simp_all add: index_ok_def)
    then have "db_lookup (is_release s d) k = db_lookup d k"
      using seq_Close_ok [of d s] "2.prems"(3) Some by (auto simp: is_release_def)
    moreover have "db_lookup d' k = db_lookup (is_release s d) k"
      using Some "2.prems" by (intro "2.IH"(2) [OF Some release_ok(1)]) (auto simp: map_of_filter_neq split: if_splits)
    ultimately show ?thesis by simp
  qed
qed simp

text \<open>Caching a sequence for a queue, and writing under the key of that queue only.\<close>

lemma index_ok_put:
  assumes "index_ok (st, d)" "db_ok d'" "db_faults d' = []"
    and "seq_ok s d'" "seq_key s = getSeqKey q" "seq_leaseSize s = SequenceLeaseSize"
    and frame: "\<And>k. k \<noteq> getSeqKey q \<Longrightarrow> db_lookup d' k = db_lookup d k"
  shows "index_ok (st\<lparr>is_cache := cache_put q s (is_cache st)\<rparr>, d')"
    and "index_mark (st\<lparr>is_cache := cache_put q s (is_cache st)\<rparr>, d')
       = (index_mark (st, d))(q := unat (seq_i s))"
proof -
  note ok = index_okD [OF assms(1)]
  let ?st = "st\<lparr>is_cache := cache_put q s (is_cache st)\<rparr>"
  have cached: "seq_ok t d' \<and> seq_key t = getSeqKey p \<and> seq_leaseSize t = SequenceLeaseSize"
    if "map_of (is_cache ?st) p = Some t" for p t
  proof (cases "p = q")
    case True
    with that assms(4-6) show ?thesis by simp
  next
    case False
    with that have t: "map_of (is_cache st) p = Some t" by simp
    have "db_lookup d' (seq_key t) = db_lookup d (seq_key t)"
      using False ok(5) [OF t] by (intro frame) simp
    with ok(4-6) [OF t] show ?thesis by (simp add: seq_ok_cong [of d' t d])
  qed
  have st: "db_lookup d' (getSeqKey p) = None \<or> (\<exists>v. db_lookup d' (getSeqKey p) = Some (PutUint64 v))" for p
  proof (cases "p = q")
    case True
    with assms(4,5) show ?thesis by (simp add: seq_ok_def)
  next
    case False
    with ok(7) [of p] frame [of "getSeqKey p"] show ?thesis by simp
  qed
  have "distinct (map fst (is_cache ?st))" using ok(3) by simp
  from index_okI [OF assms(2,3) this cached st] show "index_ok (?st, d')" .
  show "index_mark (?st, d') = (index_mark (st, d))(q := unat (seq_i s))"
    by (auto simp: fun_eq_iff index_mark_def stored_def frame split: option.splits)
qed

lemma unat_SequenceLeaseSize [simp]: "unat SequenceLeaseSize = 10000"
  by (simp add: SequenceLeaseSize_def)

lemma is_Get_ok:
  assumes ok: "index_ok (st, d)" and room: "index_mark (st, d) q + 10000 < 2 ^ 64"
  shows "\<exists>s st' d'. is_Get evicted st d q = Some (Inr s, st', d') \<and> index_ok (st', d') \<and>
    map_of (is_cache st') q = Some s \<and> index_mark (st', d') = index_mark (st, d) \<and>
    (\<forall>k. k \<notin> range getSeqKey \<longrightarrow> db_lookup d' k = db_lookup d k)"
proof (cases "map_of (is_cache st) q")
  case (Some s)
  with ok show ?thesis by (simp add: is_Get_def)
next
  case None
  note okd = index_okD [OF ok]
  obtain s d1 where new: "SettingStore_Sequence d q = Some (None, s, d1)"
    "unat (seq_i s) = stored d (getSeqKey q)" "seq_leaseSize s = SequenceLeaseSize"
    "seq_key s = getSeqKey q" "db_faults d1 = []" "db_ok d1" "seq_ok s d1"
    and frame: "\<And>k. k \<noteq> getSeqKey q \<Longrightarrow> db_lookup d1 k = db_lookup d k"
    using NewSequence_ok [OF okd(1,2) _ okd(7) [of q], of SequenceLeaseSize] room None
    by (auto simp: SettingStore_Sequence_def index_mark_def)
  have keys: "\<forall>p t. map_of (is_cache st) p = Some t \<longrightarrow> getSeqKey p \<noteq> getSeqKey q"
    using None by auto
  have ok1: "index_ok (st, d1)"
  proof (rule index_okI [OF new(6,5) okd(3)])
    fix p t assume t: "map_of (is_cache st) p = Some t"
    then have "db_lookup d1 (seq_key t) = db_lookup d (seq_key t)"
      using keys okd(5) [OF t] by (intro frame) auto
    with okd(4-6) [OF t] show "seq_ok t d1 \<and> seq_key t = getSeqKey p \<and> seq_leaseSize t = SequenceLeaseSize"
      by (simp add: seq_ok_cong [of d1 t d])
  next
    fix p show "db_lookup d1 (getSeqKey p) = None \<or> (\<exists>v. db_lookup d1 (getSeqKey p) = Some (PutUint64 v))"
      using new(4,7) okd(7) [of p] frame [of "getSeqKey p"] by (cases "p = q") (auto simp: seq_ok_def)
  qed
  obtain st2 d2 where ev: "is_evict (filter (\<lambda>p. p \<noteq> q) evicted) st d1 = (st2, d2)" by force
  note ok2 = is_evict_ok [OF ok1 ev]
  have "db_lookup d2 (getSeqKey q) = db_lookup d1 (getSeqKey q)"
    by (rule is_evict_lookup [OF ok1 ev keys])
  then have "seq_ok s d2" using new(4,7) by (simp add: seq_ok_cong [of d2 s d1])
  moreover have "db_ok d2" "db_faults d2 = []" using index_okD(1,2) ok2 by blast+
  ultimately have put: "index_ok (st2\<lparr>is_cache := cache_put q s (is_cache st2)\<rparr>, d2)"
    "index_mark (st2\<lparr>is_cache := cache_put q s (is_cache st2)\<rparr>, d2) = (index_mark (st2, d2))(q := unat (seq_i s))"
    using index_ok_put [of st2 d2 d2 s q] ok2 new by simp_all
  moreover have "(index_mark (st2, d2))(q := unat (seq_i s)) = index_mark (st, d)"
    using ok2 None new(2) by (auto simp: fun_eq_iff index_mark_def stored_def frame split: option.splits)
  moreover have "db_lookup d2 k = db_lookup d k" if "k \<notin> range getSeqKey" for k
  proof -
    have "getSeqKey p \<noteq> k" for p using that by blast
    then show ?thesis using is_evict_lookup [OF ok1 ev, of k] frame [of k] by metis
  qed
  ultimately show ?thesis
    using None new(1) ev by (simp add: is_Get_def)
qed

lemma IndexStore_Next_ok:
  assumes ok: "index_ok (st, d)" and room: "index_mark (st, d) q + 10000 < 2 ^ 64"
  shows "\<exists>v st' d'. IndexStore_Next evicted st d q = Some (Inr v, st', d') \<and> index_ok (st', d') \<and>
    unat v = Suc (index_mark (st, d) q) \<and> index_mark (st', d') = (index_mark (st, d))(q := unat v) \<and>
    (\<forall>k. k \<notin> range getSeqKey \<longrightarrow> db_lookup d' k = db_lookup d k)"
proof -
  obtain s st1 d1 where get: "is_Get evicted st d q = Some (Inr s, st1, d1)" "index_ok (st1, d1)"
    "map_of (is_cache st1) q = Some s" "index_mark (st1, d1) = index_mark (st, d)"
    "\<forall>k. k \<notin> range getSeqKey \<longrightarrow> db_lookup d1 k = db_lookup d k"
    using is_Get_ok [OF assms] by blast
  note ok1 = index_okD [OF get(2)]
  have m: "index_mark (st, d) q = unat (seq_i s)"
    using get(3) by (simp flip: get(4) add: index_mark_def)
  obtain s' d' where nx: "seq_Next s d1 = (Inr (seq_i s + 1), s', d')" "seq_i s' = seq_i s + 1"
    "seq_leaseSize s' = SequenceLeaseSize" "seq_key s' = getSeqKey q"
    "unat (seq_i s + 1) = Suc (unat (seq_i s))" "db_faults d' = []" "db_ok d'" "seq_ok s' d'"
    "\<forall>k. k \<noteq> getSeqKey q \<longrightarrow> db_lookup d' k = db_lookup d1 k"
    using seq_Next_ok [OF ok1(1,2) ok1(4) [OF get(3)]] room ok1(5,6) [OF get(3)] by (auto simp: m)
  have "index_ok (st1\<lparr>is_cache := cache_put q s' (is_cache st1)\<rparr>, d')"
    and "index_mark (st1\<lparr>is_cache := cache_put q s' (is_cache st1)\<rparr>, d') = (index_mark (st1, d1))(q := unat (seq_i s'))"
    using index_ok_put [OF get(2) nx(7,6,8,4,3)] nx(9) by auto
  moreover have "db_lookup d' k = db_lookup d k" if "k \<notin> range getSeqKey" for k
    using that nx(9) get(5) rangeI by metis
  ultimately show ?thesis using get nx m by (simp add: IndexStore_Next_def)
qed

text \<open>A crash loses the numbers of the leases only: no mark goes down, and none rises above its lease.\<close>

lemma index_crash_ok:
  assumes "index_ok (st, d)"
  shows "index_ok (NewIndexStore, d)"
    and "index_mark (st, d) q \<le> index_mark (NewIndexStore, d) q"
    and "index_mark (NewIndexStore, d) q \<le> index_mark (st, d) q + 9999"
proof -
  note ok = index_okD [OF assms]
  show "index_ok (NewIndexStore, d)"
    using ok(1,2,7) by (intro index_okI) (auto simp: NewIndexStore_def)
  have "index_mark (st, d) q \<le> stored d (getSeqKey q) \<and> stored d (getSeqKey q) \<le> index_mark (st, d) q + 9999"
  proof (cases "map_of (is_cache st) q")
    case (Some s)
    with ok(4) [OF Some] ok(5,6) [OF Some] show ?thesis
      by (auto simp: index_mark_def stored_def seq_ok_def word_le_nat_alt)
  qed (simp add: index_mark_def)
  then show "index_mark (st, d) q \<le> index_mark (NewIndexStore, d) q"
    and "index_mark (NewIndexStore, d) q \<le> index_mark (st, d) q + 9999"
    by (simp_all add: index_mark_def NewIndexStore_def)
qed

text \<open>A shutdown stores every mark.\<close>

lemma index_shutdown_ok:
  assumes "index_ok (st, d)" "IndexStore_Close st d = (r, st', d')"
  shows "index_ok (NewIndexStore, d') \<and> index_mark (NewIndexStore, d') = index_mark (st, d)"
proof -
  have "index_ok (\<lparr>is_cache = []\<rparr>, foldl (\<lambda>d e. is_release (snd e) d) d c) \<and>
      index_mark (\<lparr>is_cache = []\<rparr>, foldl (\<lambda>d e. is_release (snd e) d) d c) = index_mark (\<lparr>is_cache = c\<rparr>, d)"
    if "index_ok (\<lparr>is_cache = c\<rparr>, d)" for c d
    using that
  proof (induction c arbitrary: d)
    case (Cons e c)
    obtain q s where e: "e = (q, s)" by force
    have "q \<notin> fst ` set c" using index_okD(3) [OF Cons.prems] e by simp
    then have "filter (\<lambda>x. fst x \<noteq> q) c = c" by (auto intro!: filter_True)
    then have "index_ok (\<lparr>is_cache = c\<rparr>, is_release s d)"
      "index_mark (\<lparr>is_cache = c\<rparr>, is_release s d) = index_mark (\<lparr>is_cache = (q, s) # c\<rparr>, d)"
      using release_ok [of "\<lparr>is_cache = (q, s) # c\<rparr>" d q s] Cons.prems e by simp_all
    with Cons.IH show ?case by (simp add: e)
  qed simp
  from this [of "is_cache st" d] assms show ?thesis
    by (cases st) (auto simp: IndexStore_Close_def NewIndexStore_def)
qed

interpretation indexes: index_source index_step index_mark index_ok 10000 "2 ^ 64"
proof unfold_locales
  fix sd e out sd' q
  assume ok: "index_ok sd" and room: "\<forall>q. index_mark sd q + 10000 < 2 ^ 64"
    and step: "index_step sd e = (out, sd')"
  obtain st d where sd: "sd = (st, d)" by force
  have main: "index_ok sd' \<and> (\<forall>q. index_mark sd q \<le> index_mark sd' q \<and> index_mark sd' q \<le> index_mark sd q + 10000) \<and>
    (out = [] \<or> (\<exists>q v. out = [(q, v)] \<and> index_mark sd q < unat v \<and> unat v \<le> index_mark sd' q))"
  proof (cases e)
    case (Idx_Next evicted p)
    have "index_mark (st, d) p + 10000 < 2 ^ 64" using room sd by blast
    with ok sd obtain v st' d' where "IndexStore_Next evicted st d p = Some (Inr v, st', d')" "index_ok (st', d')"
      "unat v = Suc (index_mark (st, d) p)" "index_mark (st', d') = (index_mark (st, d))(p := unat v)"
      using IndexStore_Next_ok by blast
    with step Idx_Next sd show ?thesis by auto
  next
    case Idx_Crash
    have "index_mark (NewIndexStore, d) p \<le> index_mark (st, d) p + 10000" for p
      using index_crash_ok(3) [of st d p] ok sd by simp
    with index_crash_ok(1,2) [of st d] ok step Idx_Crash sd show ?thesis by auto
  next
    case Idx_Shutdown
    obtain r st' d' where "IndexStore_Close st d = (r, st', d')" by (metis prod_cases3)
    with index_shutdown_ok [of st d r st' d'] ok step Idx_Shutdown sd show ?thesis by auto
  qed
  then show "index_ok sd'" and "index_mark sd q \<le> index_mark sd' q \<and> index_mark sd' q \<le> index_mark sd q + 10000"
    and "out = [] \<or> (\<exists>q v. out = [(q, v)] \<and> index_mark sd q < unat v \<and> unat v \<le> index_mark sd' q)"
    by blast+
qed

section \<open>Properties\<close>

lemma NewIndexStore_ok [simp]: "index_ok (NewIndexStore, \<lparr>db_kv = [], db_faults = []\<rparr>)"
  by (intro index_okI) (simp_all add: db_ok_def NewIndexStore_def db_lookup_def)

lemma NewIndexStore_mark [simp]: "index_mark (NewIndexStore, \<lparr>db_kv = [], db_faults = []\<rparr>) q = 0"
  by (simp add: index_mark_def NewIndexStore_def stored_def db_lookup_def)



text \<open>C32. While the engine works, a request for an index succeeds with the successor of the last one of
  its queue, moves no other queue and writes nothing but indexes; a shutdown loses no index; and a crash skips at most the 9999 indexes of a lease.\<close>

theorem index_steps:
  assumes "index_ok (st, d)" "index_mark (st, d) q + 10000 < 2 ^ 64"
  shows "(\<exists>v st' d'. IndexStore_Next evicted st d q = Some (Inr v, st', d') \<and> index_ok (st', d') \<and>
      unat v = Suc (index_mark (st, d) q) \<and> index_mark (st', d') = (index_mark (st, d))(q := unat v) \<and>
      (\<forall>k. k \<notin> range getSeqKey \<longrightarrow> db_lookup d' k = db_lookup d k)) \<and>
    (\<exists>st' d'. IndexStore_Close st d = (None, st', d') \<and> index_mark (NewIndexStore, d') = index_mark (st, d)) \<and>
    index_mark (NewIndexStore, d) q \<in> {index_mark (st, d) q .. index_mark (st, d) q + 9999}"
proof -
  obtain st' d' where c: "IndexStore_Close st d = (None, st', d')" by (simp add: IndexStore_Close_def)
  show ?thesis
    using IndexStore_Next_ok [OF assms, of evicted] index_shutdown_ok [OF assms(1) c] c
      index_crash_ok(2,3) [OF assms(1), of q] by simp
qed

theorem index_steps_witness:
  "\<exists>v st' d'. IndexStore_Next [] NewIndexStore \<lparr>db_kv = [], db_faults = []\<rparr> ''q'' = Some (Inr v, st', d') \<and> unat v = 1"
  using index_steps [OF NewIndexStore_ok, of "''q''" "[]"] by auto

section \<open>Sequences on followers\<close>

text \<open>On followers the sequence of a queue is what \<^verbatim>\<open>SaveAll\<close> last stored: the largest index of its batch.\<close>

lemma maxIndexes_add_get:
  "maxIndexes_get (maxIndexes_add True m q i) p = (if p = q then max (maxIndexes_get m q) i else maxIndexes_get m p)"
  by (auto simp: maxIndexes_add_def maxIndexes_get_def map_of_filter_neq split: option.splits)

lemma index_map_get:
  "maxIndexes_get (index_map True m ts) q
     = foldl max (maxIndexes_get m q) (map task_index (filter (\<lambda>t. task_queue t = q) ts))"
proof (induction ts arbitrary: m)
  case (Cons t ts)
  then show ?case by (simp add: index_map_def maxIndexes_add_get)
qed (simp add: index_map_def)

lemma distinct_index_map: "distinct (map fst m) \<Longrightarrow> distinct (map fst (index_map si m ts))"
proof (induction ts arbitrary: m)
  case (Cons t ts)
  have "distinct (map fst (maxIndexes_add si m (task_queue t) (task_index t)))"
    using Cons.prems by (auto simp: maxIndexes_add_def distinct_filter_keys)
  from Cons.IH [OF this] show ?case by (simp add: index_map_def)
qed (simp add: index_map_def)

lemma map_of_index_kvs: "map_of (index_kvs m) (getSeqKey q) = map_option PutUint64 (map_of m q)"
  by (induction m) (auto simp: index_kvs_def)

lemma those_task_kv_keys:
  "those (map (task_kv pb) ts) = Some kvs \<Longrightarrow> getSeqKey q \<notin> fst ` set kvs"
proof (induction ts arbitrary: kvs)
  case (Cons t ts)
  then obtain kv kvs' where kv: "task_kv pb t = Some kv" "those (map (task_kv pb) ts) = Some kvs'" "kvs = kv # kvs'"
    by (auto split: option.splits)
  have "fst kv \<noteq> getSeqKey q"
    using kv(1) by (auto simp: task_kv_def task_key_not_seq_key split: option.splits)
  with Cons.IH [OF kv(2)] kv(3) show ?case by simp
qed auto

lemma SaveAll_sequence:
  assumes "db_ok d" "SaveAll pb d ts True = Some (None, d')"
  shows "db_lookup d' (getSeqKey q) =
    (case map_of (index_map True [] ts) q of None \<Rightarrow> db_lookup d (getSeqKey q) | Some i \<Rightarrow> Some (PutUint64 i))"
proof -
  let ?m = "index_map True [] ts"
  obtain kvs where kvs: "those (map (task_kv pb) ts) = Some kvs"
    and d': "db_kv d' = foldl kv_apply (db_kv d) (bsets (kvs @ index_kvs ?m))"
    using SaveAll_cases [OF assms(2)] by (auto simp: save_kvs_def)
  have "map fst (index_kvs ?m) = map getSeqKey (map fst ?m)" by (auto simp: index_kvs_def)
  then have "distinct (map fst (index_kvs ?m))"
    using distinct_index_map [of "[]" True ts] by (simp only: distinct_map [of getSeqKey]) (simp add: inj_on_def)
  then have "map_of (rev (index_kvs ?m)) = map_of (index_kvs ?m)" by (rule map_of_rev_distinct)
  moreover have "map_of (rev kvs) (getSeqKey q) = None"
    using those_task_kv_keys [OF kvs, of q] by (simp add: map_of_eq_None_iff)
  moreover have "kv_sorted (db_kv d)" using assms(1) by (simp add: db_ok_def)
  ultimately show ?thesis
    by (simp add: d' db_lookup_def foldl_bsets_lookup map_add_def map_of_index_kvs del: map_append
        split: option.splits)
qed

text \<open>A follower that applies a batch of tasks stores, for each queue of the batch, the largest index in
  the batch as the number from which it would go on as the leader.\<close>

theorem follower_sequence:
  assumes "db_ok d" "SaveAll pb d tasks True = Some (None, d')"
    "\<exists>t \<in> set tasks. task_queue t = q \<and> task_index t \<noteq> 0"
  shows "db_lookup d' (getSeqKey q)
    = Some (PutUint64 (foldl max 0 (map task_index (filter (\<lambda>t. task_queue t = q) tasks))))"
proof -
  let ?is = "map task_index (filter (\<lambda>t. task_queue t = q) tasks)"
  have g: "maxIndexes_get (index_map True [] tasks) q = foldl max 0 ?is"
    by (simp add: index_map_get) (simp add: maxIndexes_get_def)
  obtain i where i: "i \<in> set ?is" "i \<noteq> 0" using assms(3) by auto
  have le: "a \<le> foldl max a is \<and> (\<forall>i \<in> set is. i \<le> foldl max a is)" for a :: u64 and "is"
    by (induction "is" arbitrary: a) (auto, meson max.boundedE, meson max.boundedE)
  have "foldl max 0 ?is \<noteq> 0" using le [of 0 ?is] i by (metis word_le_0_iff)
  then have "map_of (index_map True [] tasks) q = Some (foldl max 0 ?is)"
    using g by (simp add: maxIndexes_get_def split: option.splits)
  then show ?thesis by (simp add: SaveAll_sequence [OF assms(1,2)])
qed

lemma task_kv_fifo_sample:
  "task_kv wire_codec (fifo_sample q i) = Some (getFifoTaskKey q (iden_New zero_time i), enc_task (fifo_sample q i))"
  by (simp add: task_kv_def getTaskKey_def)

lemma task_index_fifo_sample [simp]: "task_index (fifo_sample q i) = i"
  by (simp add: task_index_def)

lemma SaveAll_samples:
  "db_faults d = [] \<Longrightarrow> \<exists>d'. SaveAll wire_codec d (map (fifo_sample q) is) si = Some (None, d') \<and> db_faults d' = []"
proof -
  assume d: "db_faults d = []"
  have "those (map (task_kv wire_codec) (map (fifo_sample q) is))
      = Some (map (\<lambda>i. (getFifoTaskKey q (iden_New zero_time i), enc_task (fifo_sample q i))) is)"
    by (induction "is") (simp_all add: task_kv_fifo_sample)
  then show ?thesis
    using d SaveAll_no_faults [OF d, of wire_codec "map (fifo_sample q) is" si] by (simp add: save_kvs_def)
qed

theorem follower_sequence_witness:
  "\<exists>d'. SaveAll wire_codec \<lparr>db_kv = [], db_faults = []\<rparr> (map (fifo_sample ''q'') [5, 7, 6]) True = Some (None, d') \<and>
     db_lookup d' (getSeqKey ''q'') = Some (PutUint64 7)"
proof -
  obtain d' where d': "SaveAll wire_codec \<lparr>db_kv = [], db_faults = []\<rparr> (map (fifo_sample ''q'') [5, 7, 6]) True = Some (None, d')"
    using SaveAll_samples [of "\<lparr>db_kv = [], db_faults = []\<rparr>"] by fastforce
  with follower_sequence [OF _ d', of "''q''"] show ?thesis by (simp add: db_ok_def)
qed

text \<open>
  The number stored by a follower is that of its last batch, not of all batches: indexes of concurrent
  requests can be applied out of order, and a leader elected after the batches 5 and 4 issues 5
  again although a task with this index is stored.
\<close>

theorem follower_sequence_regresses:
  "\<exists>d1 d2 st' d3.
     SaveAll wire_codec \<lparr>db_kv = [], db_faults = []\<rparr> [fifo_sample ''q'' 5] True = Some (None, d1) \<and>
     SaveAll wire_codec d1 [fifo_sample ''q'' 4] True = Some (None, d2) \<and>
     IndexStore_Next [] NewIndexStore d2 ''q'' = Some (Inr 5, st', d3) \<and>
     db_lookup d2 (getFifoTaskKey ''q'' (iden_New zero_time 5)) \<noteq> None"
proof -
  let ?k = "\<lambda>i. (getFifoTaskKey ''q'' (iden_New zero_time i), enc_task (fifo_sample ''q'' i))"
  define put where "put d i = d\<lparr>db_kv := foldl kv_apply (db_kv d) (bsets [?k i, (getSeqKey ''q'', PutUint64 i)])\<rparr>" for d :: db and i
  define d1 where "d1 = put \<lparr>db_kv = [], db_faults = []\<rparr> 5"
  define d2 where "d2 = put d1 4"
  have save: "SaveAll wire_codec d [fifo_sample ''q'' i] True = Some (None, put d i)" if "db_faults d = []" "i \<noteq> 0" for d i
    using SaveAll_no_faults [OF that(1), of wire_codec "[fifo_sample ''q'' i]" True] that(2)
    by (simp add: save_kvs_def task_kv_fifo_sample index_map_def index_kvs_def maxIndexes_add_def
        maxIndexes_get_def put_def word_gt_0)
  have f: "db_faults d1 = []" "db_faults d2 = []" by (simp_all add: d1_def d2_def put_def)
  have apart: "getFifoTaskKey ''q'' t \<noteq> getSeqKey p" for t p
    using fifo_sched_apart(3) [of "''q''" p] key_prefix(1) [of "''q''" t] by metis
  have inj: "getFifoTaskKey ''q'' (iden_New zero_time i) = getFifoTaskKey ''q'' (iden_New zero_time j) \<longleftrightarrow> i = j" for i j
    by (simp add: getFifoTaskKey_def PutUint64_inj)
  have put: "db_ok (put d i)" "db_lookup (put d i) = (db_lookup d)(fst (?k i) \<mapsto> snd (?k i), getSeqKey ''q'' \<mapsto> PutUint64 i)"
    if "db_ok d" for d i
    using that by (simp_all add: put_def db_ok_def db_lookup_def fun_eq_iff map_of_kv_put)
  have ok: "db_ok d1" "db_ok d2" unfolding d1_def d2_def by (intro put(1), simp add: db_ok_def)+
  have l1: "db_lookup d1 = [fst (?k 5) \<mapsto> snd (?k 5), getSeqKey ''q'' \<mapsto> PutUint64 5]"
    unfolding d1_def by (subst put(2)) (simp_all add: db_ok_def db_lookup_def fun_eq_iff)
  have l2: "db_lookup d2 = (db_lookup d1)(fst (?k 4) \<mapsto> snd (?k 4), getSeqKey ''q'' \<mapsto> PutUint64 4)"
    unfolding d2_def using ok(1) by (rule put(2))
  have "index_ok (NewIndexStore, d2)"
    using ok f by (intro index_okI) (auto simp: NewIndexStore_def l1 l2 apart [THEN not_sym])
  moreover have m: "index_mark (NewIndexStore, d2) ''q'' = 4"
    by (simp add: index_mark_def NewIndexStore_def stored_def l2)
  ultimately obtain v st' d3 where n: "IndexStore_Next [] NewIndexStore d2 ''q'' = Some (Inr v, st', d3)" "unat v = 5"
    using IndexStore_Next_ok [of NewIndexStore d2 "''q''" "[]"] by auto
  have "unat v = unat (5 :: u64)" using n(2) by simp
  then have "v = 5" by (rule unsigned_word_eqI)
  have "db_lookup d2 (getFifoTaskKey ''q'' (iden_New zero_time 5)) \<noteq> None" by (simp add: l1 l2 apart inj)
  moreover have "SaveAll wire_codec \<lparr>db_kv = [], db_faults = []\<rparr> [fifo_sample ''q'' 5] True = Some (None, d1)"
    "SaveAll wire_codec d1 [fifo_sample ''q'' 4] True = Some (None, d2)"
    using save f by (simp_all add: d1_def d2_def)
  ultimately show ?thesis using n(1) \<open>v = 5\<close> by blast
qed

text \<open>
  A sequence whose reservation fails keeps the new lease end: the request after the failed one
  hands out an index that no stored lease covers, so that the index is issued again after a crash.
\<close>

theorem failed_reserve_unpersisted:
  assumes "seq_ok s d" "seq_i s = seq_nextLease s" "db_faults d = [Some e]"
    "unat (seq_i s) + unat (seq_leaseSize s) < 2 ^ 64"
  shows "\<exists>s1 d1 s2. seq_Next s d = (Inl e, s1, d1) \<and> seq_Next s1 d1 = (Inr (seq_i s + 1), s2, d1) \<and>
    db_lookup d1 (seq_key s) = Some (PutUint64 (seq_i s))"
proof -
  let ?s = "s\<lparr>seq_nextLease := seq_i s + seq_leaseSize s - 1\<rparr>"
  let ?d = "d\<lparr>db_faults := []\<rparr>"
  have l: "2 \<le> unat (seq_leaseSize s)" using assms(1) by (simp add: seq_ok_def)
  have "unat (seq_i s + seq_leaseSize s - 1) = unat (seq_i s) + unat (seq_leaseSize s) - 1"
    using assms(4) l by (intro unat_lease_end) simp_all
  then have "unat (seq_i s) \<noteq> unat (seq_i s + seq_leaseSize s - 1)" using l by linarith
  then have ne: "seq_i s \<noteq> seq_i s + seq_leaseSize s - 1" by metis
  have "seq_Next s d = (Inl e, ?s, ?d)"
    using assms(2,3) by (simp add: seq_Next_def seq_reserve_def db_Set_def db_call_def)
  moreover have "seq_Next ?s ?d = (Inr (seq_i s + 1), ?s\<lparr>seq_i := seq_i s + 1\<rparr>, ?d)"
    using ne by (simp add: seq_Next_def)
  moreover have "db_lookup ?d (seq_key s) = Some (PutUint64 (seq_i s))"
    using assms(1,2) by (simp add: seq_ok_def db_lookup_def)
  ultimately show ?thesis by blast
qed

end
