(* ===== verification/Go_Strings.thy ===== *)
theory Go_Strings
  imports Z4_Prelude
begin

text \<open>
  What the code uses of the Go packages \<^verbatim>\<open>strings\<close>, \<^verbatim>\<open>strconv\<close> and \<^verbatim>\<open>fmt\<close>: splitting at a character, and
  decimal numbers.
\<close>

section \<open>Splitting\<close>

text \<open>\<^verbatim>\<open>strings.Split(s, sep)\<close> for a separator of one character.\<close>

fun strings_Split :: "string \<Rightarrow> char \<Rightarrow> string list" where
  "strings_Split [] sep = [[]]"
| "strings_Split (c # s) sep =
     (if c = sep then [] # strings_Split s sep
      else case strings_Split s sep of [] \<Rightarrow> [[c]] | p # ps \<Rightarrow> (c # p) # ps)"

lemma strings_Split_none [simp]: "sep \<notin> set s \<Longrightarrow> strings_Split s sep = [s]"
  by (induction s) auto

lemma strings_Split_sep [simp]: "sep \<notin> set p \<Longrightarrow> strings_Split (p @ sep # s) sep = p # strings_Split s sep"
  by (induction p) auto

lemma length_strings_Split: "length (strings_Split s sep) = Suc (length (filter ((=) sep) s))"
proof (induction s)
  case (Cons c s)
  then show ?case by (cases "strings_Split s sep") auto
qed simp

lemma strings_Split_nonempty [simp]: "strings_Split s sep \<noteq> []"
  using length_strings_Split [of s sep] by auto

lemma strings_Split_two:
  assumes "strings_Split s sep = [p, r]"
  shows "s = p @ sep # r \<and> sep \<notin> set p \<and> sep \<notin> set r"
proof -
  have one: "s = p \<and> sep \<notin> set s" if "strings_Split s sep = [p]" for s p
    using that by (induction s arbitrary: p) (auto split: if_splits list.splits)
  show ?thesis using assms
    by (induction s arbitrary: p) (auto split: if_splits list.splits dest: one)
qed

section \<open>Decimal numbers\<close>

definition digit :: "nat \<Rightarrow> char" where
  "digit d = char_of (48 + d)"

fun digits :: "nat \<Rightarrow> string" where
  "digits n = (if n < 10 then [digit n] else digits (n div 10) @ [digit (n mod 10)])"

declare digits.simps [simp del]

text \<open>\<^verbatim>\<open>%d\<close> of an integer.\<close>

definition itoa :: "int \<Rightarrow> string" where
  "itoa i = (if i < 0 then CHR ''-'' # digits (nat (- i)) else digits (nat i))"

text \<open>\<^verbatim>\<open>strconv.Atoi\<close>: an optional sign and at least one digit; the value is an \<^verbatim>\<open>int\<close> of 64 bits.\<close>

definition digit_val :: "char \<Rightarrow> nat option" where
  "digit_val c = (let n = of_char c in if 48 \<le> n \<and> n \<le> 57 then Some (n - 48) else None)"

primrec digits_val :: "nat \<Rightarrow> string \<Rightarrow> nat option" where
  "digits_val acc [] = Some acc"
| "digits_val acc (c # s) = (case digit_val c of None \<Rightarrow> None | Some d \<Rightarrow> digits_val (10 * acc + d) s)"

definition Atoi :: "string \<Rightarrow> error + int" where
  "Atoi s =
     (let neg = (s \<noteq> [] \<and> hd s = CHR ''-'');
          body = (if s \<noteq> [] \<and> (hd s = CHR ''-'' \<or> hd s = CHR ''+'') then tl s else s)
      in if body = [] then Inl (EMsg ''invalid syntax'')
         else case digits_val 0 body of
                None \<Rightarrow> Inl (EMsg ''invalid syntax'')
              | Some n \<Rightarrow>
                  (let v = (if neg then - int n else int n)
                   in if - (2 ^ 63) \<le> v \<and> v < 2 ^ 63 then Inr v else Inl (EMsg ''value out of range'')))"

lemma digit_val_digit [simp]: "d < 10 \<Longrightarrow> digit_val (digit d) = Some d"
  by (simp add: digit_val_def digit_def)

lemma digits_val_append: "digits_val acc (s @ t) = (case digits_val acc s of None \<Rightarrow> None | Some a \<Rightarrow> digits_val a t)"
  by (induction s arbitrary: acc) (auto split: option.splits)

lemma digits_val_digits [simp]: "digits_val 0 (digits n) = Some n"
proof (induction n rule: digits.induct)
  case (1 n)
  show ?case
  proof (cases "n < 10")
    case False
    with 1 show ?thesis by (subst digits.simps) (simp add: digits_val_append)
  qed (simp add: digits.simps [of n])
qed

lemma digit_char: "d < 10 \<Longrightarrow> digit d = c \<Longrightarrow> of_char c = 48 + d"
  by (auto simp: digit_def)

lemma digits_chars: "c \<in> set (digits n) \<Longrightarrow> 48 \<le> (of_char c :: nat) \<and> (of_char c :: nat) \<le> 57"
proof (induction n rule: digits.induct)
  case (1 n)
  show ?case
  proof (cases "n < 10")
    case False
    with 1 have "c \<in> set (digits (n div 10)) \<or> digit (n mod 10) = c" by (subst (asm) (2) digits.simps) auto
    with 1 False digit_char [of "n mod 10" c] show ?thesis by auto
  next
    case True
    with 1 have "digit n = c" by (subst (asm) (2) digits.simps) auto
    from digit_char [OF True this] True show ?thesis by simp
  qed
qed

lemma digits_no_sign [simp]: "CHR ''-'' \<notin> set (digits n)" "CHR ''+'' \<notin> set (digits n)" "CHR '':'' \<notin> set (digits n)"
  using digits_chars by fastforce+

lemma digits_nonempty [simp]: "digits n \<noteq> []"
  by (subst digits.simps) simp

lemma hd_digits [simp]: "hd (digits n) \<noteq> CHR ''-''" "hd (digits n) \<noteq> CHR ''+''"
  using digits_no_sign [of n] list.set_sel(1) [OF digits_nonempty [of n]] by metis+

lemma itoa_nonempty [simp]: "itoa i \<noteq> []"
  by (simp add: itoa_def)

lemma itoa_no_colon [simp]: "CHR '':'' \<notin> set (itoa i)"
  by (simp add: itoa_def)

lemma Atoi_itoa: "- (2 ^ 63) \<le> i \<Longrightarrow> i < 2 ^ 63 \<Longrightarrow> Atoi (itoa i) = Inr i"
  by (auto simp: Atoi_def itoa_def Let_def)

end
