(* ===== verification/Leader_Group.thy ===== *)
theory Leader_Group
  imports Go_Strings
begin

text \<open>
  \<^verbatim>\<open>src/server/cluster/group\<close>: which node leads the cluster, and the connection to it through which other
  nodes forward requests. What raft reports (its configuration and the address of the leader), and whether dialling
  and closing a connection succeed, are arguments; a connection and the clients made from it are the address dialled.
\<close>

section \<open>The tracker\<close>

record raft_server =
  srv_ID :: string
  srv_Address :: string

text \<open>An observer is a function on the state \<open>'s\<close> that it changes.\<close>

record 's LeaderTracker =
  lt_isLeader :: bool
  lt_observers :: "(string \<Rightarrow> 's \<Rightarrow> 's) list"

fun server_at :: "string \<Rightarrow> raft_server list \<Rightarrow> string" where
  "server_at leader [] = []"
| "server_at leader (peer # peers) = (if srv_Address peer = leader then srv_ID peer else server_at leader peers)"

definition getLeaderServerID :: "error + raft_server list \<Rightarrow> string \<Rightarrow> string" where
  "getLeaderServerID config leader = (case config of Inl err \<Rightarrow> [] | Inr peers \<Rightarrow> server_at leader peers)"

definition detectLeader :: "error + raft_server list \<Rightarrow> string \<Rightarrow> string \<Rightarrow> 's LeaderTracker \<Rightarrow> 's LeaderTracker" where
  "detectLeader config leader selfServerID lsc = lsc\<lparr>lt_isLeader := (getLeaderServerID config leader = selfServerID)\<rparr>"

definition NewTracker :: "error + raft_server list \<Rightarrow> string \<Rightarrow> string \<Rightarrow> 's LeaderTracker" where
  "NewTracker config leader selfServerID = detectLeader config leader selfServerID \<lparr>lt_isLeader = False, lt_observers = []\<rparr>"

definition AddObserver :: "(string \<Rightarrow> 's \<Rightarrow> 's) \<Rightarrow> 's LeaderTracker \<Rightarrow> 's LeaderTracker" where
  "AddObserver handler lsc = lsc\<lparr>lt_observers := lt_observers lsc @ [handler]\<rparr>"

text \<open>
  The two loops of \<^verbatim>\<open>trackLeaderChanges\<close>, on what they receive: the role of this node from \<^verbatim>\<open>LeaderCh\<close>, or an
  observation of raft, of which the ones about the leader are handed on.
\<close>

datatype leader_event = LeaderCh bool | LeaderObservation string | OtherObservation

fun trackLeaderChanges :: "leader_event \<Rightarrow> 's LeaderTracker \<times> 's \<Rightarrow> 's LeaderTracker \<times> 's" where
  "trackLeaderChanges (LeaderCh isLeader) (lsc, s) = (lsc\<lparr>lt_isLeader := isLeader\<rparr>, s)"
| "trackLeaderChanges (LeaderObservation leaderAddr) (lsc, s) = (lsc, foldl (\<lambda>s h. h leaderAddr s) s (lt_observers lsc))"
| "trackLeaderChanges OtherObservation (lsc, s) = (lsc, s)"

section \<open>The handle\<close>

record LeaderHandle =
  ha_conn :: "string option"
  ha_collectionClient :: "string option"
  ha_adminClient :: "string option"
  ha_grpcPort :: int

text \<open>\<open>dial\<close> and \<open>hang_up\<close> are \<^verbatim>\<open>grpc.Dial\<close> and \<^verbatim>\<open>conn.Close\<close>.\<close>

definition resetConn ::
  "(string \<Rightarrow> error option) \<Rightarrow> (string \<Rightarrow> error option) \<Rightarrow> string \<Rightarrow> LeaderHandle \<Rightarrow> error option \<times> LeaderHandle" where
  "resetConn dial hang_up leaderAddress lh =
     (if leaderAddress = [] then (None, lh)
      else case (case ha_conn lh of
                   None \<Rightarrow> (None, lh)
                 | Some conn \<Rightarrow>
                     (case hang_up conn of
                        Some err \<Rightarrow> (Some (EWrap ''failed to close leader connection'' err), lh)
                      | None \<Rightarrow> (None, lh\<lparr>ha_conn := None, ha_collectionClient := None, ha_adminClient := None\<rparr>))) of
             (Some err, lh') \<Rightarrow> (Some err, lh')
           | (None, lh') \<Rightarrow>
               (case strings_Split leaderAddress CHR '':'' of
                  [host, port] \<Rightarrow>
                    (let target = host @ '':'' @ itoa (ha_grpcPort lh')
                     in case dial target of
                          Some err \<Rightarrow> (Some err, lh')
                        | None \<Rightarrow>
                            (None, lh'\<lparr>ha_conn := Some target, ha_collectionClient := Some target, ha_adminClient := Some target\<rparr>))
                | _ \<Rightarrow> (Some (EMsg ''unexpected host:port for leader''), lh')))"

text \<open>
  \<^verbatim>\<open>NewHandle\<close>: the first connection, and an observer that resets it, which is put in the tracker. The
  observer logs its errors.
\<close>

definition NewHandle ::
  "(string \<Rightarrow> error option) \<Rightarrow> (string \<Rightarrow> error option) \<Rightarrow> string \<Rightarrow> int \<Rightarrow> LeaderHandle LeaderTracker \<Rightarrow>
     error + LeaderHandle LeaderTracker \<times> LeaderHandle" where
  "NewHandle dial hang_up leader grpcPort tracker =
     (case resetConn dial hang_up leader
             \<lparr>ha_conn = None, ha_collectionClient = None, ha_adminClient = None, ha_grpcPort = grpcPort\<rparr> of
        (Some err, _) \<Rightarrow> Inl err
      | (None, handle) \<Rightarrow> Inr (AddObserver (\<lambda>newAddr h. snd (resetConn dial hang_up newAddr h)) tracker, handle))"

definition QueueClient :: "LeaderHandle \<Rightarrow> error + string" where
  "QueueClient lh =
     (if ha_conn lh = None then Inl ENoLeader
      else case ha_collectionClient lh of None \<Rightarrow> Inl ENoLeader | Some c \<Rightarrow> Inr c)"

definition AdminClient :: "LeaderHandle \<Rightarrow> error + string" where
  "AdminClient lh =
     (if ha_conn lh = None then Inl ENoLeader
      else case ha_adminClient lh of None \<Rightarrow> Inl ENoLeader | Some c \<Rightarrow> Inr c)"

section \<open>Lemmas\<close>

text \<open>The clients belong to the connection.\<close>

definition handle_ok :: "LeaderHandle \<Rightarrow> bool" where
  "handle_ok lh \<longleftrightarrow> ha_collectionClient lh = ha_conn lh \<and> ha_adminClient lh = ha_conn lh"

lemma resetConn_ok: "handle_ok lh \<Longrightarrow> handle_ok (snd (resetConn dial hang_up addr lh))"
  by (auto simp: handle_ok_def resetConn_def Let_def split: option.splits list.splits)

lemma resetConn_port [simp]: "ha_grpcPort (snd (resetConn dial hang_up addr lh)) = ha_grpcPort lh"
  by (auto simp: resetConn_def Let_def split: option.splits list.splits)

lemma resetConn_dial:
  assumes "handle_ok lh" "addr = host @ CHR '':'' # port" "CHR '':'' \<notin> set host" "CHR '':'' \<notin> set port" "\<forall>c. hang_up c = None"
  shows "resetConn dial hang_up addr lh =
    (case dial (host @ '':'' @ itoa (ha_grpcPort lh)) of
       Some err \<Rightarrow> (Some err, lh\<lparr>ha_conn := None, ha_collectionClient := None, ha_adminClient := None\<rparr>)
     | None \<Rightarrow> (None, lh\<lparr>ha_conn := Some (host @ '':'' @ itoa (ha_grpcPort lh)),
                 ha_collectionClient := Some (host @ '':'' @ itoa (ha_grpcPort lh)),
                 ha_adminClient := Some (host @ '':'' @ itoa (ha_grpcPort lh))\<rparr>))"
  using assms by (cases lh) (auto simp: resetConn_def handle_ok_def Let_def split: option.splits)

lemma server_at_nth:
  assumes "distinct (map srv_Address peers)" "p \<in> set peers"
  shows "server_at (srv_Address p) peers = srv_ID p"
  using assms by (induction peers) (auto simp: rev_image_eqI)

text \<open>What the tracker and the handle are after a sequence of events.\<close>

definition track :: "LeaderHandle LeaderTracker \<times> LeaderHandle \<Rightarrow> leader_event list \<Rightarrow> LeaderHandle LeaderTracker \<times> LeaderHandle" where
  "track = foldl (\<lambda>s e. trackLeaderChanges e s)"

lemma track_observers:
  assumes "lt_observers (fst s) = [obs]"
  shows "lt_observers (fst (track s es)) = [obs]"
  using assms unfolding track_def
proof (induction es arbitrary: s)
  case (Cons e es)
  have "lt_observers (fst (trackLeaderChanges e s)) = [obs]" using Cons.prems by (cases s; cases e) auto
  with Cons.IH show ?case by simp
qed simp

lemma track_ok:
  assumes "lt_observers (fst s) = [\<lambda>a h. snd (resetConn dial hang_up a h)]" "handle_ok (snd s)"
  shows "handle_ok (snd (track s es)) \<and> ha_grpcPort (snd (track s es)) = ha_grpcPort (snd s)"
  using assms unfolding track_def
proof (induction es arbitrary: s)
  case (Cons e es)
  let ?t = "trackLeaderChanges e s"
  have "lt_observers (fst ?t) = [\<lambda>a h. snd (resetConn dial hang_up a h)] \<and> handle_ok (snd ?t) \<and> ha_grpcPort (snd ?t) = ha_grpcPort (snd s)"
    using Cons.prems by (cases s; cases e) (auto simp: resetConn_ok)
  with Cons.IH [of ?t] show ?case by simp
qed simp

lemma NewHandle_ok:
  assumes "NewHandle dial hang_up leader port tracker = Inr s" "lt_observers tracker = []"
  shows "lt_observers (fst s) = [\<lambda>a h. snd (resetConn dial hang_up a h)]" "handle_ok (snd s)" "ha_grpcPort (snd s) = port"
proof -
  let ?h = "\<lparr>ha_conn = None, ha_collectionClient = None, ha_adminClient = None, ha_grpcPort = port\<rparr>"
  obtain handle where r: "resetConn dial hang_up leader ?h = (None, handle)"
    "s = (AddObserver (\<lambda>a h. snd (resetConn dial hang_up a h)) tracker, handle)"
    using assms(1) by (auto simp: NewHandle_def split: prod.splits option.splits)
  show "lt_observers (fst s) = [\<lambda>a h. snd (resetConn dial hang_up a h)]" using r(2) assms(2) by (simp add: AddObserver_def)
  have "handle_ok ?h" by (simp add: handle_ok_def)
  from resetConn_ok [OF this, of dial hang_up leader] r show "handle_ok (snd s)" by simp
  from resetConn_port [of dial hang_up leader ?h] r show "ha_grpcPort (snd s) = port" by simp
qed

text \<open>Events that do not name a leader leave the connection alone.\<close>

lemma track_idle:
  assumes "lt_observers (fst s) = [\<lambda>a h. snd (resetConn dial hang_up a h)]" "\<forall>a. LeaderObservation a \<in> set es \<longrightarrow> a = []"
  shows "snd (track s es) = snd s"
  using assms unfolding track_def
proof (induction es arbitrary: s)
  case (Cons e es)
  have "lt_observers (fst (trackLeaderChanges e s)) = [\<lambda>a h. snd (resetConn dial hang_up a h)] \<and> snd (trackLeaderChanges e s) = snd s"
    using Cons.prems by (cases s; cases e) (auto simp: resetConn_def)
  with Cons show ?case by simp
qed simp

lemma track_append: "track s (es @ es') = track (track s es) es'"
  by (simp add: track_def)

section \<open>Properties\<close>

text \<open>C29. Forwarding follows the leader: whatever happened before, once raft has named a leader at \<open>host:port\<close>, and
  until it names another, both clients are connected to that host at the port of the service, or there is no client
  at all if it could not be dialled.\<close>

theorem clients_follow_leader:
  assumes s: "NewHandle dial hang_up leader grpcPort (NewTracker config leader self) = Inr s"
    and host: "CHR '':'' \<notin> set host" "CHR '':'' \<notin> set port" and up: "\<forall>c. hang_up c = None"
    and idle: "\<forall>a. LeaderObservation a \<in> set es' \<longrightarrow> a = []"
  shows "let target = host @ '':'' @ itoa grpcPort;
             h = snd (track s (es @ LeaderObservation (host @ '':'' @ port) # es'))
         in QueueClient h = (if dial target = None then Inr target else Inl ENoLeader) \<and>
            AdminClient h = (if dial target = None then Inr target else Inl ENoLeader)"
proof -
  have "lt_observers (NewTracker config leader self) = []" by (simp add: NewTracker_def detectLeader_def)
  note new = NewHandle_ok [OF s this]
  obtain t h where t: "track s es = (t, h)" by force
  have t': "lt_observers t = [\<lambda>a h. snd (resetConn dial hang_up a h)]" using track_observers [OF new(1), of es] t by simp
  have h: "handle_ok h" "ha_grpcPort h = grpcPort" using track_ok [OF new(1,2), of es] new(3) t by simp_all
  let ?h = "snd (resetConn dial hang_up (host @ CHR '':'' # port) h)"
  have "track s (es @ LeaderObservation (host @ '':'' @ port) # es') = track (t, ?h) es'"
    unfolding track_append t using t' by (simp add: track_def)
  moreover have "snd (track (t, ?h) es') = ?h" using track_idle [of "(t, ?h)", OF _ idle] t' by simp
  ultimately show ?thesis
    using resetConn_dial [OF h(1) refl host up, of dial] h(2)
    by (simp add: QueueClient_def AdminClient_def split: option.splits)
qed

theorem clients_follow_leader_witness:
  "\<exists>s. NewHandle (\<lambda>_. None) (\<lambda>_. None) [] 6355 (NewTracker (Inr []) [] ''n1'') = Inr s \<and>
     QueueClient (snd (track s [LeaderCh True, LeaderObservation ''n2:6356'', OtherObservation])) = Inr ''n2:6355''"
proof -
  obtain s where s: "NewHandle (\<lambda>_. None) (\<lambda>_. None) [] 6355 (NewTracker (Inr []) [] ''n1'') = Inr s"
    by (simp add: NewHandle_def resetConn_def)
  have "itoa 6355 = ''6355''" by (simp add: itoa_def digits.simps digit_def char_of_def bit_0)
  with clients_follow_leader [OF s, of "''n2''" "''6356''" "[OtherObservation]" "[LeaderCh True]"] s
  show ?thesis by (simp add: Let_def)
qed

text \<open>A node takes itself for the leader exactly as raft last told it; before it was told, if the leader's
  address in the configuration is that of its own entry.\<close>

theorem role_follows_raft:
  assumes "distinct (map srv_Address peers)" "p \<in> set peers" "NewHandle dial hang_up (srv_Address p) grpcPort
      (NewTracker (Inr peers) (srv_Address p) self) = Inr s" "\<forall>b. LeaderCh b \<notin> set es'"
  shows "lt_isLeader (fst (track s (es @ LeaderCh b # es'))) = b \<and> lt_isLeader (fst (track s es')) = (srv_ID p = self)"
proof -
  have idle: "lt_isLeader (fst (track u es')) = lt_isLeader (fst u)" for u
    using assms(4) unfolding track_def
  proof (induction es' arbitrary: u)
    case (Cons e es')
    have "lt_isLeader (fst (trackLeaderChanges e u)) = lt_isLeader (fst u)" using Cons.prems by (cases u; cases e) auto
    with Cons show ?case by simp
  qed simp
  obtain t h where t: "track s es = (t, h)" by force
  have "lt_isLeader (fst s) = (srv_ID p = self)"
    using assms(3) server_at_nth [OF assms(1,2)]
    by (auto simp: NewHandle_def AddObserver_def NewTracker_def detectLeader_def getLeaderServerID_def split: prod.splits option.splits)
  then show ?thesis unfolding track_append t idle by (simp add: track_def t idle [unfolded track_def])
qed

theorem role_follows_raft_witness:
  "\<exists>s. NewHandle (\<lambda>_. None) (\<lambda>_. None) ''n1:6356'' 6355
      (NewTracker (Inr [\<lparr>srv_ID = ''n1'', srv_Address = ''n1:6356''\<rparr>]) ''n1:6356'' ''n1'') = Inr s \<and>
     \<not> lt_isLeader (fst (track s [LeaderCh False])) \<and> lt_isLeader (fst (track s []))"
proof -
  let ?p = "\<lparr>srv_ID = ''n1'', srv_Address = ''n1:6356''\<rparr>"
  obtain s where s: "NewHandle (\<lambda>_. None) (\<lambda>_. None) (srv_Address ?p) 6355 (NewTracker (Inr [?p]) (srv_Address ?p) ''n1'') = Inr s"
    by (auto simp: NewHandle_def resetConn_def Let_def split: prod.splits)
  from role_follows_raft [OF _ _ s, of "[]" "[]" False] s show ?thesis by auto
qed

end
