(* ===== verification/Feed_Readers.thy ===== *)
theory Feed_Readers
  imports Task_Iterator
begin

text \<open>
  The package \<^verbatim>\<open>feeds/q\<close> (\<^verbatim>\<open>src/feeds/q\<close>) without its writer: the readers that take tasks out of the
  store. Two undelivered readers, for FIFO and for scheduled tasks, deliver the tasks behind a
  checkpoint in the settings of the queue and move the checkpoint; two delivered readers deliver again
  what was not acknowledged in time. A reader is given the function that takes a task, the
  push of the feed. It works on a state \<open>'s\<close> of its own; \<^verbatim>\<open>time.Now()\<close> is an argument, and a panic is
  \<open>None\<close>.

  The locale \<open>resumable\<close> is the contract between a query factory and its checkpointer. From it
  follows, once for both kinds of tasks, that reading neither loses nor repeats a task however it is cut
  off; both pairs of the code are shown to keep the contract.
\<close>

section \<open>Query factories and checkpointers\<close>

definition fifoDelivered_Query :: "time \<Rightarrow> QueueConfig \<Rightarrow> TaskRange option" where
  "fifoDelivered_Query now settings =
     (case MustParseString (last_delivered_queued_task settings) of
        None \<Rightarrow> None
      | Some lastID \<Rightarrow> Some (FifoRange (qc_id settings) 0 (TaskID_Index lastID)))"

definition fifoUndelivered_Query :: "time \<Rightarrow> QueueConfig \<Rightarrow> TaskRange option" where
  "fifoUndelivered_Query now settings =
     (case MustParseString (last_delivered_queued_task settings) of
        None \<Rightarrow> None
      | Some lastID \<Rightarrow>
          (let nextIndex = TaskID_Index lastID + 1
           in Some (FifoRange (qc_id settings) nextIndex (- 1))))"

definition fifoCheckpointer_Set :: "QueueConfig \<Rightarrow> Task \<Rightarrow> QueueConfig" where
  "fifoCheckpointer_Set settings task = settings\<lparr>last_delivered_queued_task := task_id task\<rparr>"

definition schedDelivered_Query :: "time \<Rightarrow> QueueConfig \<Rightarrow> TaskRange option" where
  "schedDelivered_Query now settings =
     (let ackDeadline = seconds (ack_deadline_seconds settings);
          watermark = time_Add now (wrap64 (- ackDeadline))
      in Some (ScheduledRange (qc_id settings) iden_Min (iden_New watermark 0)))"

definition schedUndelivered_Query :: "time \<Rightarrow> QueueConfig \<Rightarrow> TaskRange option" where
  "schedUndelivered_Query now settings =
     (case MustParseString (last_delivered_scheduled_task settings) of
        None \<Rightarrow> None
      | Some lastID \<Rightarrow>
          (let nextID = iden_New (MustTime lastID) (TaskID_Index lastID + 1)
           in Some (ScheduledRange (qc_id settings) nextID (iden_New now 0))))"

definition schedCheckpointer_Set :: "QueueConfig \<Rightarrow> Task \<Rightarrow> QueueConfig" where
  "schedCheckpointer_Set settings task = settings\<lparr>last_delivered_scheduled_task := task_id task\<rparr>"

section \<open>The undelivered readers\<close>

definition undelivered_executeQuery ::
  "codec \<Rightarrow> (time \<Rightarrow> QueueConfig \<Rightarrow> TaskRange option) \<Rightarrow> time \<Rightarrow> db \<Rightarrow> QueueConfig \<Rightarrow>
     ('s \<Rightarrow> Task \<Rightarrow> error option \<times> 's) \<Rightarrow> 's \<Rightarrow> (error option \<times> 's) option" where
  "undelivered_executeQuery pb qf now d settings handle s =
     (case qf now settings of
        None \<Rightarrow> None
      | Some query \<Rightarrow> Some (ForEach pb handle (NewTaskIterator d query) s))"

text \<open>The function that \<^verbatim>\<open>Read\<close> passes on: it moves the checkpoint after every task that was taken.\<close>

definition undelivered_handle ::
  "(QueueConfig \<Rightarrow> Task \<Rightarrow> QueueConfig) \<Rightarrow> ('s \<Rightarrow> Task \<Rightarrow> error option \<times> 's) \<Rightarrow>
     QueueConfig \<times> 's \<Rightarrow> Task \<Rightarrow> error option \<times> (QueueConfig \<times> 's)" where
  "undelivered_handle check f st task =
     (case f (snd st) task of
        (Some e, s') \<Rightarrow> (Some e, (fst st, s'))
      | (None, s') \<Rightarrow> (None, (check (fst st) task, s')))"

definition undelivered_Ready :: "bool" where
  "undelivered_Ready = True"

definition undelivered_Read ::
  "codec \<Rightarrow> (time \<Rightarrow> QueueConfig \<Rightarrow> TaskRange option) \<Rightarrow> (QueueConfig \<Rightarrow> Task \<Rightarrow> QueueConfig) \<Rightarrow>
     time \<Rightarrow> db \<Rightarrow> ('s \<Rightarrow> Task \<Rightarrow> error option \<times> 's) \<Rightarrow> QueueConfig \<Rightarrow> 's \<Rightarrow>
     (error option \<times> QueueConfig \<times> 's) option" where
  "undelivered_Read pb qf check now d f settings s =
     (case undelivered_executeQuery pb qf now d settings (undelivered_handle check f) (settings, s) of
        None \<Rightarrow> None
      | Some (err, settings', s') \<Rightarrow>
          Some (if err \<noteq> None \<and> err \<noteq> Some EOF then err else None, settings', s'))"

section \<open>The delivered readers\<close>

record deliveredReader =
  dr_lastRun :: time
  dr_interval :: int
  dr_active :: bool

definition newDeliveredReader :: "int \<Rightarrow> deliveredReader" where
  "newDeliveredReader interval = \<lparr>dr_lastRun = zero_time, dr_interval = interval, dr_active = False\<rparr>"

definition delivered_Ready :: "time \<Rightarrow> deliveredReader \<Rightarrow> bool" where
  "delivered_Ready now r = (time_Sub now (dr_lastRun r) > dr_interval r \<and> \<not> dr_active r)"

text \<open>\<^verbatim>\<open>Read\<close> starts a goroutine that executes \<^verbatim>\<open>run\<close> and returns at once, without an error.\<close>

definition delivered_Read :: "time \<Rightarrow> deliveredReader \<Rightarrow> deliveredReader" where
  "delivered_Read now r = r\<lparr>dr_lastRun := now, dr_active := True\<rparr>"

definition retryTask :: "Task \<Rightarrow> time \<Rightarrow> bool" where
  "retryTask task watermark =
     (if last_retry task = None then Before (AsTime (created_at task)) watermark
      else Before (AsTime (last_retry task)) watermark)"

definition delivered_executeQuery ::
  "codec \<Rightarrow> (time \<Rightarrow> QueueConfig \<Rightarrow> TaskRange option) \<Rightarrow> time \<Rightarrow> time \<Rightarrow> db \<Rightarrow> QueueConfig \<Rightarrow>
     ('s \<Rightarrow> Task \<Rightarrow> error option \<times> 's) \<Rightarrow> 's \<Rightarrow> (error option \<times> 's) option" where
  "delivered_executeQuery pb qf now now_q d settings handle s =
     (let ackDeadline = seconds (ack_deadline_seconds settings);
          watermark = time_Add now (wrap64 (- ackDeadline))
      in case qf now_q settings of
           None \<Rightarrow> None
         | Some query \<Rightarrow>
             Some (ForEach pb (\<lambda>s task. if retryTask task watermark then handle s task else (None, s))
               (NewTaskIterator d query) s))"

text \<open>
  \<^verbatim>\<open>run\<close> in its two parts, between which other goroutines act on the store: first the tasks are
  delivered, each stamped with the time \<open>clock\<close> shows then, and collected; then the collected tasks are
  written back.
\<close>

definition run_handle ::
  "(nat \<Rightarrow> time) \<Rightarrow> ('s \<Rightarrow> Task \<Rightarrow> error option \<times> 's) \<Rightarrow> Task list \<times> 's \<Rightarrow> Task \<Rightarrow> error option \<times> (Task list \<times> 's)" where
  "run_handle clock f st task =
     (case f (snd st) task of
        (Some e, s') \<Rightarrow> (Some e, (fst st, s'))
      | (None, s') \<Rightarrow>
          (None, (fst st @ [task\<lparr>last_retry := Some (timestamppb_New (clock (length (fst st))))\<rparr>], s')))"

definition run_deliver ::
  "codec \<Rightarrow> (time \<Rightarrow> QueueConfig \<Rightarrow> TaskRange option) \<Rightarrow> (nat \<Rightarrow> time) \<Rightarrow> time \<Rightarrow> time \<Rightarrow> db \<Rightarrow>
     QueueConfig \<Rightarrow> ('s \<Rightarrow> Task \<Rightarrow> error option \<times> 's) \<Rightarrow> 's \<Rightarrow> ((error + Task list) \<times> 's) option" where
  "run_deliver pb qf clock now now_q d settings f s =
     (case delivered_executeQuery pb qf now now_q d settings (run_handle clock f) ([], s) of
        None \<Rightarrow> None
      | Some (Some e, tasks, s') \<Rightarrow> Some (if e \<noteq> EOF then Inl e else Inr tasks, s')
      | Some (None, tasks, s') \<Rightarrow> Some (Inr tasks, s'))"

definition run_save ::
  "codec \<Rightarrow> db \<Rightarrow> Task list \<Rightarrow> deliveredReader \<Rightarrow> (error option \<times> db \<times> deliveredReader) option" where
  "run_save pb d tasks r =
     (if tasks = [] then Some (None, d, r)
      else case SaveAll pb d tasks False of
             None \<Rightarrow> None
           | Some (Some e, d') \<Rightarrow> Some (Some e, d', r)
           | Some (None, d') \<Rightarrow> Some (None, d', r\<lparr>dr_active := False\<rparr>))"

section \<open>All readers\<close>

datatype reader = FifoDelivered | SchedDelivered | FifoUndelivered | SchedUndelivered

definition redeliveryInterval :: int where
  "redeliveryInterval = seconds 30"

definition Readers :: "reader list" where
  "Readers = [FifoDelivered, SchedDelivered, FifoUndelivered, SchedUndelivered]"

section \<open>Running a function over a list of tasks\<close>

text \<open>The outcome, the tasks taken, and the state after them.\<close>

fun run_handler :: "('s \<Rightarrow> Task \<Rightarrow> error option \<times> 's) \<Rightarrow> 's \<Rightarrow> Task list \<Rightarrow> error option \<times> Task list \<times> 's" where
  "run_handler f s [] = (None, [], s)"
| "run_handler f s (t # ts) =
     (case f s t of
        (Some e, s') \<Rightarrow> (Some e, [], s')
      | (None, s') \<Rightarrow> (case run_handler f s' ts of (r, xs, s'') \<Rightarrow> (r, t # xs, s'')))"

lemma run_handler_prefix: "run_handler f s ts = (r, xs, s') \<Longrightarrow> prefix xs ts"
  by (induction ts arbitrary: s xs) (auto split: prod.splits option.splits)

lemma run_handler_all: "run_handler f s ts = (None, xs, s') \<Longrightarrow> xs = ts"
  by (induction ts arbitrary: s xs) (auto split: prod.splits option.splits)

text \<open>Iterating over a range whose pairs are the pairs of tasks runs the function over these tasks.\<close>

lemma visit_undelivered:
  assumes "\<forall>e \<in> set es. entry_task pb e = Inr (task_of pb e)"
  shows "visit pb (undelivered_handle check f) es (st, s) =
    (case run_handler f s (map (task_of pb) es) of (r, xs, s') \<Rightarrow> (r, (foldl check st xs, s')))"
  using assms
  by (induction es arbitrary: st s) (auto simp: undelivered_handle_def split: prod.splits option.splits)

lemma visit_delivered:
  assumes "\<forall>e \<in> set es. entry_task pb e = Inr (task_of pb e)"
  shows "visit pb (\<lambda>s task. if P task then h s task else (None, s)) es s =
    visit pb h (filter (\<lambda>e. P (task_of pb e)) es) s"
  using assms
  by (induction es arbitrary: s) (auto split: prod.splits option.splits)

definition stamped :: "(nat \<Rightarrow> time) \<Rightarrow> Task list \<Rightarrow> Task list" where
  "stamped clock ts = map (\<lambda>(i, t). t\<lparr>last_retry := Some (timestamppb_New (clock i))\<rparr>) (enumerate 0 ts)"

lemma visit_run_handle:
  assumes "\<forall>e \<in> set es. entry_task pb e = Inr (task_of pb e)"
  shows "visit pb (run_handle clock f) es (ts, s) =
    (case run_handler f s (map (task_of pb) es) of
       (r, xs, s') \<Rightarrow>
         (r, (ts @ map (\<lambda>(i, t). t\<lparr>last_retry := Some (timestamppb_New (clock i))\<rparr>) (enumerate (length ts) xs), s')))"
  using assms
  by (induction es arbitrary: ts s) (auto simp: run_handle_def split: prod.splits option.splits)

section \<open>The contract of a query factory and its checkpointer\<close>

locale resumable =
  fixes qf :: "time \<Rightarrow> QueueConfig \<Rightarrow> TaskRange option"
    and check :: "QueueConfig \<Rightarrow> Task \<Rightarrow> QueueConfig"
    and before :: "Task \<Rightarrow> Task \<Rightarrow> bool"
    and task_ok :: "Task \<Rightarrow> bool"
    and settings_ok :: "QueueConfig \<Rightarrow> bool"
  assumes qf_total: "settings_ok st \<Longrightarrow> qf now st \<noteq> None"
    and qf_queue: "qf now st = Some q \<Longrightarrow> TaskRange_GetQueue q = qc_id st"
    and qf_order: "qf now st = Some q \<Longrightarrow> range_less q = before"
    and before_asym: "before t u \<Longrightarrow> \<not> before u t"
    and check_ok: "settings_ok st \<Longrightarrow> task_ok t \<Longrightarrow> settings_ok (check st t)"
    and check_id: "qc_id (check st t) = qc_id st"
    and check_last: "check (check st t) u = check st u"
    and qf_check: "settings_ok st \<Longrightarrow> task_ok t \<Longrightarrow> task_ok u \<Longrightarrow> qf now st = Some q \<Longrightarrow> in_range q t \<Longrightarrow>
        qf now' st = Some p \<Longrightarrow> qf now' (check st t) = Some p' \<Longrightarrow>
        in_range p' u = (in_range p u \<and> before t u)"
    and qf_window: "qf now st = Some q \<Longrightarrow> qf now' st = Some p \<Longrightarrow> in_range q t \<Longrightarrow> in_range p u \<Longrightarrow>
        \<not> before t u \<Longrightarrow> in_range q u"
begin

lemma foldl_check: "ts \<noteq> [] \<Longrightarrow> foldl check st ts = check st (last ts)"
proof (induction ts rule: rev_induct)
  case (snoc t ts)
  then show ?case by (cases "ts = []") (simp_all add: check_last)
qed simp

lemma foldl_check_ok: "settings_ok st \<Longrightarrow> \<forall>t \<in> set ts. task_ok t \<Longrightarrow> settings_ok (foldl check st ts)"
  by (cases "ts = []") (simp_all add: foldl_check check_ok)

text \<open>
  One reading, with any function to take the tasks: it is given the tasks of the range in order
  until it refuses one, and the settings then describe exactly the tasks not taken, at every later time.
\<close>

lemma read_resumes:
  assumes d: "db_ok d" "tasks_wf pb d" "\<forall>t \<in> stored_tasks pb d. plain_queue (task_queue t) \<and> task_ok t"
    and st: "plain_queue (qc_id st)" "settings_ok st"
  shows "\<exists>q ts r xs s'. qf now st = Some q \<and> set ts = {t \<in> stored_tasks pb d. in_range q t} \<and> sorted_wrt before ts \<and>
    run_handler f s ts = (r, xs, s') \<and>
    undelivered_Read pb qf check now d f st s = Some (if r = Some EOF then None else r, foldl check st xs, s') \<and>
    settings_ok (foldl check st xs) \<and>
    (\<forall>now' p p'. qf now' st = Some p \<longrightarrow> qf now' (foldl check st xs) = Some p' \<longrightarrow>
       {u \<in> stored_tasks pb d. in_range p' u} = {u \<in> stored_tasks pb d. in_range p u} - set xs)"
proof -
  obtain q where q: "qf now st = Some q" using qf_total [OF st(2)] by blast
  define ts where "ts = map (task_of pb) (range_entries d q)"
  have plain: "plain_queue (TaskRange_GetQueue q)" using qf_queue [OF q] st(1) by simp
  have ts: "set ts = {t \<in> stored_tasks pb d. in_range q t}" "sorted_wrt before ts"
    using range_tasks_spec [OF d(1,2) plain] d(3) qf_order [OF q] by (simp_all add: ts_def)
  obtain r xs s' where run: "run_handler f s ts = (r, xs, s')" by (metis prod_cases3)
  obtain ys where ys: "ts = xs @ ys" using run_handler_prefix [OF run] by (auto simp: prefix_def)
  have "visit pb (undelivered_handle check f) (range_entries d q) (st, s) = (r, (foldl check st xs, s'))"
    using visit_undelivered [of "range_entries d q" pb check f st s] range_entry_task(1) [OF d(2), of _ q] run
    by (simp add: ts_def)
  then have read: "undelivered_Read pb qf check now d f st s = Some (if r = Some EOF then None else r, foldl check st xs, s')"
    by (auto simp: undelivered_Read_def undelivered_executeQuery_def q ForEach_range [OF d(1)])
  have xs: "\<forall>t \<in> set xs. t \<in> stored_tasks pb d \<and> in_range q t \<and> task_ok t" using ts(1) ys d(3) by auto
  have "{u \<in> stored_tasks pb d. in_range p' u} = {u \<in> stored_tasks pb d. in_range p u} - set xs"
    if p: "qf now' st = Some p" "qf now' (foldl check st xs) = Some p'" for now' p p'
  proof (cases "xs = []")
    case True
    with p show ?thesis by simp
  next
    case False
    let ?t = "last xs"
    have t: "?t \<in> set xs" using False by simp
    have iff: "in_range p' u = (in_range p u \<and> before ?t u)" if "u \<in> stored_tasks pb d" for u
      using qf_check [OF st(2) _ _ q _ p(1), of ?t u p'] xs t d(3) that p(2) False by (auto simp: foldl_check)
    have "before ?t u = (u \<notin> set xs)" if u: "u \<in> stored_tasks pb d" "in_range p u" for u
    proof
      assume b: "before ?t u"
      show "u \<notin> set xs"
      proof
        assume "u \<in> set xs"
        then have "u = ?t \<or> before u ?t"
          using ts(2) ys False by (metis append_butlast_last_id in_set_conv_decomp last_snoc rotate1.simps(2)
              set_ConsD set_rotate1 sorted_wrt_append)
        with b before_asym show False by blast
      qed
    next
      assume "u \<notin> set xs"
      show "before ?t u"
      proof (rule ccontr)
        assume nb: "\<not> before ?t u"
        with qf_window [OF q p(1) _ u(2)] xs t have "in_range q u" by blast
        then have "u \<in> set ys" using u ts(1) ys \<open>u \<notin> set xs\<close> by auto
        with ts(2) ys t have "before ?t u" by (auto simp: sorted_wrt_append)
        with nb show False by simp
      qed
    qed
    with iff show ?thesis by blast
  qed
  with q ts run read foldl_check_ok [OF st(2)] xs show ?thesis by blast
qed

end

section \<open>Both pairs keep the contract\<close>

lemma inc_le_iff: "x \<noteq> - 1 \<Longrightarrow> (x + 1 \<le> y) = (x < (y :: u64))"
proof -
  assume "x \<noteq> - 1"
  then have "1 + x \<noteq> 0" by (metis add_eq_0_iff minus_equation_iff)
  then have "unat (1 + x) = Suc (unat x)" by (rule unatSuc)
  then show ?thesis by (simp add: word_le_nat_alt word_less_nat_alt add.commute Suc_le_eq)
qed

text \<open>The identifier after a given one.\<close>

lemma next_id_le:
  assumes "TaskID_ok t" "TaskID_ok u" "TaskID_Index t \<noteq> - 1"
  shows "(iden_New (MustTime t) (TaskID_Index t + 1) \<le> u) = (t < u)"
proof -
  let ?T = "word_of_int (UnixNano (MustTime t)) :: u64" and ?U = "word_of_int (UnixNano (MustTime u)) :: u64"
  have "(t < u) = (iden_New (MustTime t) (TaskID_Index t) < iden_New (MustTime u) (TaskID_Index u))"
    using assms by (simp add: iden_New_fields)
  moreover have "(iden_New (MustTime t) (TaskID_Index t + 1) \<le> u)
      = (\<not> iden_New (MustTime u) (TaskID_Index u) < iden_New (MustTime t) (TaskID_Index t + 1))"
    using assms by (simp add: iden_New_fields not_less)
  moreover have "\<not> TaskID_Index u < TaskID_Index t + 1 \<longleftrightarrow> TaskID_Index t < TaskID_Index u"
    using inc_le_iff [OF assms(3)] by (simp add: not_less)
  ultimately show ?thesis
    by (cases ?T ?U rule: linorder_cases) (auto simp: iden_New_less_iff)
qed

definition index_less :: "Task \<Rightarrow> Task \<Rightarrow> bool" where
  "index_less t u = (TaskID_Index (task_tid t) < TaskID_Index (task_tid u))"

definition id_less :: "Task \<Rightarrow> Task \<Rightarrow> bool" where
  "id_less t u = (task_tid t < task_tid u)"

text \<open>A task can be a checkpoint unless its index is the largest one, which has no successor.\<close>

definition checkpoint_ok :: "Task \<Rightarrow> bool" where
  "checkpoint_ok t = (case MustParseString (task_id t) of None \<Rightarrow> False | Some tid \<Rightarrow> TaskID_Index tid \<noteq> - 1)"

definition fifo_settings_ok :: "QueueConfig \<Rightarrow> bool" where
  "fifo_settings_ok st = (MustParseString (last_delivered_queued_task st) \<noteq> None)"

definition sched_settings_ok :: "QueueConfig \<Rightarrow> bool" where
  "sched_settings_ok st = (MustParseString (last_delivered_scheduled_task st) \<noteq> None)"

lemma checkpoint_okE:
  assumes "checkpoint_ok t"
  obtains "MustParseString (task_id t) = Some (task_tid t)" "TaskID_ok (task_tid t)" "TaskID_Index (task_tid t) \<noteq> - 1"
  using assms that
  by (auto simp: checkpoint_ok_def task_tid_def MustParseString_def split: option.splits sum.splits intro: ParseString_ok)

lemmas undelivered_query_defs = fifoUndelivered_Query_def schedUndelivered_Query_def
  fifoCheckpointer_Set_def schedCheckpointer_Set_def Let_def

interpretation fifo_reader: resumable fifoUndelivered_Query fifoCheckpointer_Set index_less checkpoint_ok fifo_settings_ok
proof unfold_locales
  fix st t u now now' q p p'
  assume "checkpoint_ok t" and q: "fifoUndelivered_Query now st = Some q" "in_range q t"
    "fifoUndelivered_Query now' st = Some p" "fifoUndelivered_Query now' (fifoCheckpointer_Set st t) = Some p'"
  from this(1) have t: "MustParseString (task_id t) = Some (task_tid t)" "TaskID_Index (task_tid t) \<noteq> - 1"
    by (auto elim: checkpoint_okE)
  obtain l where l: "MustParseString (last_delivered_queued_task st) = Some l" "p = q"
    "q = FifoRange (qc_id st) (TaskID_Index l + 1) (- 1)"
    using q(1,3) by (auto simp: undelivered_query_defs split: option.splits)
  have p': "p' = FifoRange (qc_id st) (TaskID_Index (task_tid t) + 1) (- 1)"
    using q(4) t by (simp add: undelivered_query_defs)
  show "in_range p' u = (in_range p u \<and> index_less t u)"
    using q(2) l p' t(2) by (auto simp: inc_le_iff index_less_def)
qed (auto simp: undelivered_query_defs fifo_settings_ok_def index_less_def fun_eq_iff checkpoint_ok_def
    split: option.splits)

interpretation sched_reader: resumable schedUndelivered_Query schedCheckpointer_Set id_less checkpoint_ok sched_settings_ok
proof unfold_locales
  fix st t u now now' q p p'
  assume ck: "checkpoint_ok t" "checkpoint_ok u" and q: "schedUndelivered_Query now st = Some q" "in_range q t"
    "schedUndelivered_Query now' st = Some p" "schedUndelivered_Query now' (schedCheckpointer_Set st t) = Some p'"
  from ck(1) have t: "MustParseString (task_id t) = Some (task_tid t)" "TaskID_ok (task_tid t)" "TaskID_Index (task_tid t) \<noteq> - 1"
    by (auto elim: checkpoint_okE)
  from ck(2) have u: "TaskID_ok (task_tid u)" by (auto elim: checkpoint_okE)
  obtain l where l: "p = ScheduledRange (qc_id st) l (iden_New now' 0)" "q = ScheduledRange (qc_id st) l (iden_New now 0)"
    using q(1,3) by (auto simp: undelivered_query_defs split: option.splits)
  have p': "p' = ScheduledRange (qc_id st) (iden_New (MustTime (task_tid t)) (TaskID_Index (task_tid t) + 1)) (iden_New now' 0)"
    using q(4) t by (simp add: undelivered_query_defs)
  show "in_range p' u = (in_range p u \<and> id_less t u)"
    using q(2) l p' next_id_le [OF t(2) u t(3)] by (auto simp: id_less_def)
qed (auto simp: undelivered_query_defs sched_settings_ok_def id_less_def fun_eq_iff checkpoint_ok_def
    split: option.splits)

section \<open>Redelivery\<close>

text \<open>The tasks that a delivered reader is to deliver again.\<close>

definition watermark :: "time \<Rightarrow> QueueConfig \<Rightarrow> time" where
  "watermark now st = time_Add now (wrap64 (- seconds (ack_deadline_seconds st)))"

lemma run_deliver_eq:
  assumes d: "db_ok d" "tasks_wf pb d" and q: "qf now_q st = Some q"
    and run: "run_handler f s (filter (\<lambda>t. retryTask t (watermark now st)) (map (task_of pb) (range_entries d q))) = (r, xs, s')"
  shows "run_deliver pb qf clock now now_q d st f s =
    Some (if r = None \<or> r = Some EOF then Inr (stamped clock xs) else Inl (the r), s')"
proof -
  let ?es = "filter (\<lambda>e. retryTask (task_of pb e) (watermark now st)) (range_entries d q)"
  have all: "\<forall>e \<in> set (range_entries d q). entry_task pb e = Inr (task_of pb e)"
    using range_entry_task(1) [OF d(2)] by blast
  have "visit pb (\<lambda>s task. if retryTask task (watermark now st) then run_handle clock f s task else (None, s))
      (range_entries d q) ([], s) = (r, (stamped clock xs, s'))"
    using run visit_run_handle [of ?es pb clock f "[]" s] all
    by (simp add: visit_delivered [OF all] stamped_def filter_map comp_def)
  then show ?thesis
    by (auto simp: run_deliver_def delivered_executeQuery_def q ForEach_range [OF d(1)] watermark_def Let_def
        split: option.splits)
qed

lemma length_stamped [simp]: "length (stamped clock xs) = length xs"
  by (simp add: stamped_def)

lemma stamped_nth: "i < length xs \<Longrightarrow> stamped clock xs ! i = (xs ! i)\<lparr>last_retry := Some (timestamppb_New (clock i))\<rparr>"
  by (simp add: stamped_def nth_enumerate_eq)

lemma task_key_last_retry [simp]: "task_key (t\<lparr>last_retry := x\<rparr>) = task_key t"
  by (simp add: getTaskKey_def task_tid_def)

lemma map_key_stamped: "map task_key (stamped clock xs) = map task_key xs"
  by (rule nth_equalityI) (simp_all add: stamped_nth)

section \<open>Properties\<close>

text \<open>The tasks that an undelivered reader has not delivered yet.\<close>

definition pending :: "(time \<Rightarrow> QueueConfig \<Rightarrow> TaskRange option) \<Rightarrow> time \<Rightarrow> QueueConfig \<Rightarrow> codec \<Rightarrow> db \<Rightarrow> Task set" where
  "pending qf now st pb d = {t \<in> stored_tasks pb d. case qf now st of None \<Rightarrow> False | Some q \<Rightarrow> in_range q t}"

context resumable
begin

lemma read_pending:
  assumes "db_ok d" "tasks_wf pb d" "\<forall>t \<in> stored_tasks pb d. plain_queue (task_queue t) \<and> task_ok t"
    and "plain_queue (qc_id st)" "settings_ok st"
  shows "\<exists>ts r xs s' st'. set ts = pending qf now st pb d \<and> sorted_wrt before ts \<and> run_handler f s ts = (r, xs, s') \<and>
    undelivered_Read pb qf check now d f st s = Some (if r = Some EOF then None else r, st', s') \<and> settings_ok st' \<and>
    (\<forall>now'. pending qf now' st' pb d = pending qf now' st pb d - set xs)"
proof -
  obtain q ts r xs s' where r: "qf now st = Some q" "set ts = {t \<in> stored_tasks pb d. in_range q t}" "sorted_wrt before ts"
    "run_handler f s ts = (r, xs, s')"
    "undelivered_Read pb qf check now d f st s = Some (if r = Some EOF then None else r, foldl check st xs, s')"
    "settings_ok (foldl check st xs)"
    and rest: "\<And>now' p p'. qf now' st = Some p \<Longrightarrow> qf now' (foldl check st xs) = Some p' \<Longrightarrow>
       {u \<in> stored_tasks pb d. in_range p' u} = {u \<in> stored_tasks pb d. in_range p u} - set xs"
    using read_resumes [OF assms, of now f s] by blast
  have "pending qf now' (foldl check st xs) pb d = pending qf now' st pb d - set xs" for now'
  proof -
    obtain p p' where p: "qf now' st = Some p" "qf now' (foldl check st xs) = Some p'"
      using qf_total [OF assms(5)] qf_total [OF r(6)] by blast
    show ?thesis unfolding pending_def p option.case by (rule rest [OF p])
  qed
  moreover have "set ts = pending qf now st pb d" by (simp add: pending_def r(1,2))
  ultimately show ?thesis using r by blast
qed

end

text \<open>C9. Reading FIFO tasks: the function is given the pending tasks of the queue in index order until
  it refuses one; whenever that is, the tasks taken are no longer pending and all others still are, so that the
  next reading goes on without losing or repeating a task. A refusal with \<^verbatim>\<open>io.EOF\<close> is not reported.\<close>

theorem fifo_read_pending:
  assumes "db_ok d" "tasks_wf pb d" "\<forall>t \<in> stored_tasks pb d. plain_queue (task_queue t) \<and> checkpoint_ok t"
    and "plain_queue (qc_id st)" "fifo_settings_ok st"
  shows "\<exists>ts r xs s' st'. set ts = pending fifoUndelivered_Query now st pb d \<and> sorted_wrt index_less ts \<and>
    run_handler f s ts = (r, xs, s') \<and>
    undelivered_Read pb fifoUndelivered_Query fifoCheckpointer_Set now d f st s
      = Some (if r = Some EOF then None else r, st', s') \<and> fifo_settings_ok st' \<and>
    (\<forall>now'. pending fifoUndelivered_Query now' st' pb d = pending fifoUndelivered_Query now' st pb d - set xs)"
  by (rule fifo_reader.read_pending [OF assms])

lemma sample_db_ok:
  defines "d \<equiv> \<lparr>db_kv = [(getFifoTaskKey ''q'' (iden_New zero_time 3), enc_task (fifo_sample ''q'' 3))], db_faults = []\<rparr>"
  shows "\<forall>t \<in> stored_tasks wire_codec d. plain_queue (task_queue t) \<and> checkpoint_ok t"
  unfolding d_def sample_db(3) by (simp add: plain_queue_def checkpoint_ok_def)

text \<open>Settings of a queue whose last delivered tasks have the given identifiers.\<close>

definition sample_settings :: "string \<Rightarrow> TaskID \<Rightarrow> TaskID \<Rightarrow> QueueConfig" where
  "sample_settings q fifo sched =
     \<lparr>qc_id = q, last_delivered_scheduled_task = TaskID_String sched, last_delivered_queued_task = TaskID_String fifo,
      ack_deadline_seconds = 300\<rparr>"

lemma MustParse_New_zero [simp]: "MustParseString (TaskID_String (iden_New zero_time i)) = Some (iden_New zero_time i)"
  by (rule MustParseString_String_hd) (simp_all add: hd_iden_New zero_time_nano)

theorem fifo_read_pending_witness:
  "\<exists>st'. undelivered_Read wire_codec fifoUndelivered_Query fifoCheckpointer_Set zero_time
      \<lparr>db_kv = [(getFifoTaskKey ''q'' (iden_New zero_time 3), enc_task (fifo_sample ''q'' 3))], db_faults = []\<rparr>
      collect (sample_settings ''q'' (iden_New zero_time 2) iden_Min) [] = Some (None, st', [fifo_sample ''q'' 3])"
proof -
  let ?st = "sample_settings ''q'' (iden_New zero_time 2) iden_Min"
  have st: "plain_queue (qc_id ?st)" "fifo_settings_ok ?st"
    by (simp_all add: sample_settings_def plain_queue_def fifo_settings_ok_def)
  obtain ts r xs s' st' where r: "set ts = pending fifoUndelivered_Query zero_time ?st wire_codec
      \<lparr>db_kv = [(getFifoTaskKey ''q'' (iden_New zero_time 3), enc_task (fifo_sample ''q'' 3))], db_faults = []\<rparr>"
    "sorted_wrt index_less ts" "run_handler collect [] ts = (r, xs, s')"
    "undelivered_Read wire_codec fifoUndelivered_Query fifoCheckpointer_Set zero_time
      \<lparr>db_kv = [(getFifoTaskKey ''q'' (iden_New zero_time 3), enc_task (fifo_sample ''q'' 3))], db_faults = []\<rparr>
      collect ?st [] = Some (if r = Some EOF then None else r, st', s')"
    using fifo_read_pending [OF sample_db(1,2) sample_db_ok st, of zero_time collect "[]"] by blast
  have "set ts = {fifo_sample ''q'' 3}"
    unfolding r(1) pending_def sample_db(3)
    by (auto simp: fifoUndelivered_Query_def sample_settings_def task_tid_def)
  moreover from r(2) have "distinct ts"
    by (rule sorted_wrt_distinct) (simp add: index_less_def)
  ultimately have "ts = [fifo_sample ''q'' 3]" by (rule distinct_singleton [rotated])
  with r(3,4) show ?thesis by (auto simp: collect_def)
qed


lemma be_enc_0: "be_enc n 0 = replicate n 0"
  by (induction n) (simp_all add: replicate_append_same)

lemma iden_Min_zero: "iden_Min = replicate 16 0"
proof -
  have "UnixNano (time_Unix 0 0) = 0" by (rule UnixNano_time_Unix) (simp add: is_int64_def MinInt64_def MaxInt64_def)
  then have "iden_Min = replicate 8 0 @ replicate 8 0"
    by (simp add: iden_Min_def iden_New_def PutUint64_def be_enc_0 del: be_enc.simps)
  also have "\<dots> = replicate (8 + 8) 0" by (rule replicate_add [symmetric])
  finally show ?thesis by simp
qed

lemma MustParse_Min [simp]: "MustParseString (TaskID_String iden_Min) = Some iden_Min"
  by (simp add: MustParseString_def ParseString_String iden_Min_zero copy16_def)




lemma distinct_stored_keys:
  assumes "db_ok d" "tasks_wf pb d" "set xs \<subseteq> stored_tasks pb d" "distinct xs"
  shows "distinct (map task_key xs)"
  using assms(4) stored_tasks_inj [OF assms(1,2)] assms(3)
  by (simp add: distinct_map) (meson inj_onI subsetD)

text \<open>C28. Writing back redelivered tasks: if nothing else happened to the store since they were read, they
  replace their earlier versions, no other task changes, the reader becomes ready for its
  next run, and none of them is delivered again before a deadline after this try has passed.\<close>

theorem redelivery_written_back:
  assumes "codec_ok pb" "db_ok d" "tasks_wf pb d" "set xs \<subseteq> stored_tasks pb d" "distinct xs" "xs \<noteq> []"
    and "run_save pb d (stamped clock xs) r = Some (None, d', r')"
  shows "stored_tasks pb d' = (stored_tasks pb d - set xs) \<union> set (stamped clock xs) \<and> dr_active r' = False \<and>
    (\<forall>i < length xs. retryTask (stamped clock xs ! i) w = Before (AsTime (Some (timestamppb_New (clock i)))) w)"
proof -
  have ne: "stamped clock xs \<noteq> []" using assms(6) by (metis length_stamped length_0_conv)
  then have save: "SaveAll pb d (stamped clock xs) False = Some (None, d')" and r': "r' = r\<lparr>dr_active := False\<rparr>"
    using assms(7) by (auto simp: run_save_def split: option.splits)
  have keys: "task_key ` set (stamped clock xs) = task_key ` set xs"
    using map_key_stamped [of clock xs] by (metis list.set_map)
  have "stored_tasks pb d' = {t \<in> stored_tasks pb d. task_key t \<notin> task_key ` set (stamped clock xs)} \<union> set (stamped clock xs)"
    using distinct_stored_keys [OF assms(2-5)] map_key_stamped [of clock xs]
    by (intro stored_tasks_SaveAll [OF assms(1-3) save]) simp
  moreover have "{t \<in> stored_tasks pb d. task_key t \<notin> task_key ` set xs} = stored_tasks pb d - set xs"
    using stored_tasks_inj [OF assms(2,3)] assms(4) by blast
  ultimately show ?thesis using keys r' by (simp add: stamped_nth retryTask_def)
qed

lemma run_save_sample:
  "\<exists>d' r'. run_save wire_codec
      \<lparr>db_kv = [(getFifoTaskKey ''q'' (iden_New zero_time 3), enc_task (fifo_sample ''q'' 3))], db_faults = []\<rparr>
      (stamped clock [fifo_sample ''q'' 3]) r = Some (None, d', r')"
proof -
  let ?d = "\<lparr>db_kv = [(getFifoTaskKey ''q'' (iden_New zero_time 3), enc_task (fifo_sample ''q'' 3))], db_faults = []\<rparr>"
  have "save_kvs wire_codec (stamped clock [fifo_sample ''q'' 3]) False \<noteq> None"
    by (simp add: save_kvs_def stamped_def task_kv_def)
  then obtain kvs where "save_kvs wire_codec (stamped clock [fifo_sample ''q'' 3]) False = Some kvs" by blast
  from SaveAll_no_faults [OF _ this, of ?d] show ?thesis by (simp add: run_save_def stamped_def)
qed

theorem redelivery_written_back_witness:
  "\<exists>d' r'. run_save wire_codec
      \<lparr>db_kv = [(getFifoTaskKey ''q'' (iden_New zero_time 3), enc_task (fifo_sample ''q'' 3))], db_faults = []\<rparr>
      (stamped (\<lambda>_. time_Unix 1700000000 0) [fifo_sample ''q'' 3]) (newDeliveredReader 30) = Some (None, d', r') \<and>
     stored_tasks wire_codec d' = set (stamped (\<lambda>_. time_Unix 1700000000 0) [fifo_sample ''q'' 3]) \<and> \<not> dr_active r'"
proof -
  obtain d' r' where r: "run_save wire_codec
      \<lparr>db_kv = [(getFifoTaskKey ''q'' (iden_New zero_time 3), enc_task (fifo_sample ''q'' 3))], db_faults = []\<rparr>
      (stamped (\<lambda>_. time_Unix 1700000000 0) [fifo_sample ''q'' 3]) (newDeliveredReader 30) = Some (None, d', r')"
    using run_save_sample by blast
  from redelivery_written_back [OF codec_ok_wire sample_db(1,2) _ _ _ r] show ?thesis
    using r by (auto simp: sample_db(3))
qed

section \<open>Where redelivery goes wrong\<close>

text \<open>
  A run that finds no task to deliver again, or that fails, leaves the reader active, and an active
  reader is never ready again: from then on no task of this kind is redelivered.
\<close>

theorem redelivery_stops:
  assumes "run_save pb d tasks (delivered_Read now r) = Some (e, d', r')" "tasks = [] \<or> e \<noteq> None"
  shows "\<not> delivered_Ready now' r'"
  using assms
  by (auto simp: run_save_def delivered_Read_def delivered_Ready_def split: if_splits option.splits)

text \<open>
  The tasks are written back as they were read. A task that is acknowledged between the two parts of a
  run is stored again by the second.
\<close>

theorem acknowledged_task_returns:
  assumes "codec_ok pb" "db_ok d" "tasks_wf pb d" "t \<in> stored_tasks pb d" "DeleteAll d [ack_of t] = (None, d1)"
    "kind_ok t" "run_save pb d1 (stamped clock [t]) r = Some (None, d2, r')"
  shows "t \<notin> stored_tasks pb d1 \<and> (\<exists>u \<in> stored_tasks pb d2. task_id u = task_id t \<and> task_queue u = task_queue t)"
proof -
  note d1 = db_ok_DeleteAll [OF assms(2,5)] tasks_wf_DeleteAll [OF assms(3,5)]
  obtain tid where "MustParseString (task_id t) = Some tid" "getAckKey (ack_of t) = Inr (getTaskKey t tid)"
    using getAckKey_ack_of [OF assms(6)] by blast
  then have "task_key t \<in> set (ack_keys [ack_of t])" by (simp add: task_tid_def)
  then have "t \<notin> stored_tasks pb d1" by (simp add: stored_tasks_DeleteAll [OF assms(2,3,5)])
  moreover have save: "SaveAll pb d1 (stamped clock [t]) False = Some (None, d2)"
    using assms(7) by (auto simp: run_save_def stamped_def split: option.splits)
  have "set (stamped clock [t]) \<subseteq> stored_tasks pb d2"
    using stored_tasks_SaveAll [OF assms(1) d1 save] map_key_stamped [of clock "[t]"] by simp
  ultimately show ?thesis
    by (auto simp: stamped_def intro!: bexI [of _ "t\<lparr>last_retry := Some (timestamppb_New (clock 0))\<rparr>"])
qed

text \<open>
  The checkpoint is a position, not a set: a FIFO task that is stored after a task with a larger index was
  delivered is not pending for its reader, now or ever.
\<close>

theorem late_task_not_pending:
  assumes "MustParseString (last_delivered_queued_task st) = Some l" "TaskID_Index l \<noteq> - 1"
    "TaskID_Index (task_tid t) \<le> TaskID_Index l"
  shows "t \<notin> pending fifoUndelivered_Query now st pb d"
  using assms(2,3) by (auto simp: pending_def fifoUndelivered_Query_def assms(1) Let_def inc_le_iff)

end
