(* ===== verification/State_Machine.thy ===== *)
theory State_Machine
  imports Task_Writer
begin

text \<open>
  \<^verbatim>\<open>src/server/cluster/sm\<close> without snapshots: the state machine that raft drives. Its batch writer decodes the
  commands of a batch of log entries, groups them by type and applies the groups in three goroutines, through
  the interface of the task writer and the store of settings. As in the code, the operations of the
  interface are parameters of the batch writer; a panic is \<open>None\<close>; the order in which the goroutines run is an
  argument.

  The specification is the state machine that applies one command after the other to the stored
  pairs, \<open>cmd_apply\<close>. The lemmas show that a batch refines it, for every order of the goroutines and every
  way in which the log is cut into batches.
\<close>

section \<open>The batch writer\<close>

record batchWriter =
  bw_acks :: "Ack list"
  bw_tasks :: "Task list"
  bw_settings :: "QueueConfig list"

definition newBatchWriter :: batchWriter where
  "newBatchWriter = \<lparr>bw_acks = [], bw_tasks = [], bw_settings = []\<rparr>"

text \<open>A \<^verbatim>\<open>raft.Log\<close>: whether its type is \<^verbatim>\<open>LogCommand\<close>, and its data.\<close>

record raft_log =
  log_is_command :: bool
  log_data :: bytes

fun groupByType :: "codec \<Rightarrow> raft_log list \<Rightarrow> batchWriter \<Rightarrow> error option \<times> batchWriter" where
  "groupByType pb [] w = (None, w)"
| "groupByType pb (l # logs) w =
     (if \<not> log_is_command l then groupByType pb logs w
      else case unmarshal_command pb (log_data l) of
             None \<Rightarrow> (Some EUnmarshal, w)
           | Some cmd \<Rightarrow>
               (case cmd of
                  Command_Task t \<Rightarrow> groupByType pb logs (w\<lparr>bw_tasks := bw_tasks w @ [t]\<rparr>)
                | Command_Ack a \<Rightarrow> groupByType pb logs (w\<lparr>bw_acks := bw_acks w @ [a]\<rparr>)
                | Command_Queue c \<Rightarrow> groupByType pb logs (w\<lparr>bw_settings := bw_settings w @ [c]\<rparr>)
                | Command_Unset \<Rightarrow> (Some EUnknownCommand, w)))"

definition bw_reset :: "batchWriter \<Rightarrow> batchWriter" where
  "bw_reset w = w\<lparr>bw_acks := [], bw_settings := [], bw_tasks := []\<rparr>"

definition packErrors :: "error \<Rightarrow> error option list \<Rightarrow> error option list" where
  "packErrors e res = map (\<lambda>_. Some e) res"

fun applySettings_loop :: "(QueueConfig \<Rightarrow> 's \<Rightarrow> error option \<times> 's) \<Rightarrow> QueueConfig list \<Rightarrow> 's \<Rightarrow> error option \<times> 's" where
  "applySettings_loop save [] s = (None, s)"
| "applySettings_loop save (c # cs) s =
     (case save c s of (Some e, s') \<Rightarrow> (Some e, s') | (None, s') \<Rightarrow> applySettings_loop save cs s')"

definition applySettings :: "(QueueConfig \<Rightarrow> 's \<Rightarrow> error option \<times> 's) \<Rightarrow> batchWriter \<Rightarrow> 's \<Rightarrow> error option \<times> 's" where
  "applySettings save w s =
     (if bw_settings w = [] then (None, s) else applySettings_loop save (bw_settings w) s)"

text \<open>\<open>handle\<close> is \<^verbatim>\<open>w.Handle\<close>: \<open>None\<close> if it is not set, else whether this node is the leader.\<close>

definition applyTasks ::
  "(Task list \<Rightarrow> bool \<Rightarrow> 's \<Rightarrow> (error option \<times> 's) option) \<Rightarrow> bool option \<Rightarrow> batchWriter \<Rightarrow> 's \<Rightarrow> (error option \<times> 's) option" where
  "applyTasks push handle w s =
     (if bw_tasks w = [] then Some (None, s)
      else case handle of
             None \<Rightarrow> push (bw_tasks w) True s
           | Some isLeader \<Rightarrow> push (bw_tasks w) (\<not> isLeader) s)"

definition applyAcks :: "(Ack list \<Rightarrow> 's \<Rightarrow> error option \<times> 's) \<Rightarrow> batchWriter \<Rightarrow> 's \<Rightarrow> error option \<times> 's" where
  "applyAcks acknowledge w s = (if bw_acks w = [] then (None, s) else acknowledge (bw_acks w) s)"

datatype part = PSettings | PTasks | PAcks

fun run_part ::
  "(Task list \<Rightarrow> bool \<Rightarrow> 's \<Rightarrow> (error option \<times> 's) option) \<Rightarrow> (Ack list \<Rightarrow> 's \<Rightarrow> error option \<times> 's) \<Rightarrow>
     (QueueConfig \<Rightarrow> 's \<Rightarrow> error option \<times> 's) \<Rightarrow> bool option \<Rightarrow> batchWriter \<Rightarrow> part \<Rightarrow> 's \<Rightarrow> (error option \<times> 's) option" where
  "run_part push acknowledge save handle w PSettings s = Some (applySettings save w s)"
| "run_part push acknowledge save handle w PTasks s = applyTasks push handle w s"
| "run_part push acknowledge save handle w PAcks s = Some (applyAcks acknowledge w s)"

text \<open>The goroutines, in the given order; \<^verbatim>\<open>errs\<close> is a slot for each of them.\<close>

fun run_parts ::
  "(Task list \<Rightarrow> bool \<Rightarrow> 's \<Rightarrow> (error option \<times> 's) option) \<Rightarrow> (Ack list \<Rightarrow> 's \<Rightarrow> error option \<times> 's) \<Rightarrow>
     (QueueConfig \<Rightarrow> 's \<Rightarrow> error option \<times> 's) \<Rightarrow> bool option \<Rightarrow> batchWriter \<Rightarrow> part list \<Rightarrow> 's \<Rightarrow>
     (part \<Rightarrow> error option) \<Rightarrow> ((part \<Rightarrow> error option) \<times> 's) option" where
  "run_parts push acknowledge save handle w [] s errs = Some (errs, s)"
| "run_parts push acknowledge save handle w (p # ps) s errs =
     (case run_part push acknowledge save handle w p s of
        None \<Rightarrow> None
      | Some (e, s') \<Rightarrow> run_parts push acknowledge save handle w ps s' (errs(p := e)))"

definition first_error :: "(part \<Rightarrow> error option) \<Rightarrow> error option" where
  "first_error errs =
     (if errs PSettings \<noteq> None then errs PSettings else if errs PTasks \<noteq> None then errs PTasks else errs PAcks)"

definition bw_Write ::
  "(Task list \<Rightarrow> bool \<Rightarrow> 's \<Rightarrow> (error option \<times> 's) option) \<Rightarrow> (Ack list \<Rightarrow> 's \<Rightarrow> error option \<times> 's) \<Rightarrow>
     (QueueConfig \<Rightarrow> 's \<Rightarrow> error option \<times> 's) \<Rightarrow> codec \<Rightarrow> bool option \<Rightarrow> part list \<Rightarrow> raft_log list \<Rightarrow> batchWriter \<Rightarrow> 's \<Rightarrow>
     (error option list \<times> batchWriter \<times> 's) option" where
  "bw_Write push acknowledge save pb handle order logs w s =
     (let res = replicate (length logs) None
      in case groupByType pb logs w of
           (Some e, w') \<Rightarrow> Some (packErrors e res, bw_reset w', s)
         | (None, w') \<Rightarrow>
             (case run_parts push acknowledge save handle w' order s (\<lambda>_. None) of
                None \<Rightarrow> None
              | Some (errs, s') \<Rightarrow>
                  (case first_error errs of
                     Some e \<Rightarrow> Some (packErrors e res, bw_reset w', s')
                   | None \<Rightarrow> Some (res, bw_reset w', s'))))"

section \<open>The specification\<close>

definition config_kv :: "codec \<Rightarrow> QueueConfig \<Rightarrow> (bytes \<times> bytes) option" where
  "config_kv pb c = map_option (\<lambda>b. (getConfigKey (qc_id c), b)) (marshal_config pb c)"

fun cmd_apply :: "codec \<Rightarrow> (bytes \<Rightarrow> bytes option) \<Rightarrow> Command \<Rightarrow> bytes \<Rightarrow> bytes option" where
  "cmd_apply pb m (Command_Task t) = (case task_kv pb t of None \<Rightarrow> m | Some (k, v) \<Rightarrow> m(k \<mapsto> v))"
| "cmd_apply pb m (Command_Ack a) = (case getAckKey a of Inl _ \<Rightarrow> m | Inr k \<Rightarrow> m(k := None))"
| "cmd_apply pb m (Command_Queue c) = (case config_kv pb c of None \<Rightarrow> m | Some (k, v) \<Rightarrow> m(k \<mapsto> v))"
| "cmd_apply pb m Command_Unset = m"

fun tasks_of :: "Command list \<Rightarrow> Task list" where
  "tasks_of [] = []"
| "tasks_of (c # cs) = (case c of Command_Task t \<Rightarrow> t # tasks_of cs | _ \<Rightarrow> tasks_of cs)"

fun acks_of :: "Command list \<Rightarrow> Ack list" where
  "acks_of [] = []"
| "acks_of (c # cs) = (case c of Command_Ack a \<Rightarrow> a # acks_of cs | _ \<Rightarrow> acks_of cs)"

fun configs_of :: "Command list \<Rightarrow> QueueConfig list" where
  "configs_of [] = []"
| "configs_of (c # cs) = (case c of Command_Queue q \<Rightarrow> q # configs_of cs | _ \<Rightarrow> configs_of cs)"

text \<open>The commands of a list of log entries that are all valid.\<close>

fun commands :: "codec \<Rightarrow> raft_log list \<Rightarrow> Command list option" where
  "commands pb [] = Some []"
| "commands pb (l # logs) =
     (if \<not> log_is_command l then commands pb logs
      else case unmarshal_command pb (log_data l) of
             None \<Rightarrow> None
           | Some Command_Unset \<Rightarrow> None
           | Some cmd \<Rightarrow> map_option ((#) cmd) (commands pb logs))"

lemma groupByType_commands:
  "commands pb logs = Some cmds \<Longrightarrow>
     groupByType pb logs w = (None, \<lparr>bw_acks = bw_acks w @ acks_of cmds, bw_tasks = bw_tasks w @ tasks_of cmds,
       bw_settings = bw_settings w @ configs_of cmds\<rparr>)"
proof (induction pb logs arbitrary: w cmds rule: commands.induct)
  case (2 pb l logs)
  then show ?case by (auto split: if_splits option.splits Command.splits)
qed simp

lemma groupByType_error:
  "commands pb logs = None \<Longrightarrow> \<exists>e w'. groupByType pb logs w = (Some e, w')"
proof (induction pb logs arbitrary: w rule: commands.induct)
  case (2 pb l logs)
  then show ?case by (auto split: if_splits option.splits Command.splits)
qed simp

section \<open>Commands one after the other\<close>

lemma map_add_rev_Cons: "m ++ map_of (rev ((k, v) # kvs)) = m(k \<mapsto> v) ++ map_of (rev kvs)"
  by (auto simp: map_add_def fun_eq_iff split: option.splits)

lemma map_add_upd_apart: "map_of (rev kvs) k = None \<Longrightarrow> m(k := x) ++ map_of (rev kvs) = (m ++ map_of (rev kvs))(k := x)"
  by (auto simp: map_add_def fun_eq_iff split: option.splits)

lemma task_kvs_no_config:
  "those (map (task_kv pb) ts) = Some kvs \<Longrightarrow> map_of (rev kvs) (getConfigKey q) = None"
proof -
  assume "those (map (task_kv pb) ts) = Some kvs"
  then have "set (map fst kvs) = task_key ` set ts" by (simp only: those_task_kv(1)) simp
  then show ?thesis using config_keys_apart(1) by (auto simp: map_of_eq_None_iff)
qed

lemma config_kvs_keys:
  assumes "those (map (config_kv pb) cs) = Some kvs" "k \<in> fst ` set kvs"
  shows "\<exists>q. k = getConfigKey q"
proof -
  obtain v where "(k, v) \<in> set kvs" using assms(2) by auto
  then obtain c where "config_kv pb c = Some (k, v)" using those_Some_set [OF assms(1)] by fastforce
  then show ?thesis by (auto simp: config_kv_def)
qed

lemma config_kvs_lookup:
  "those (map (config_kv pb) cs) = Some kvs \<Longrightarrow> map_of (rev kvs) k = Some v \<Longrightarrow> \<exists>q. k = getConfigKey q"
  by (rule config_kvs_keys) (force dest!: map_of_SomeD)+

text \<open>
  Applying commands one by one stores the settings and tasks, the last of a key, and removes what is acknowledged,
  as long as no task of the commands is acknowledged among them.
\<close>

lemma foldl_cmd_apply:
  assumes "those (map (task_kv pb) (tasks_of cs)) = Some T" "those (map (config_kv pb) (configs_of cs)) = Some C"
    "fst ` set T \<inter> set (ack_keys (acks_of cs)) = {}"
  shows "foldl (cmd_apply pb) m cs =
    (\<lambda>k. if k \<in> set (ack_keys (acks_of cs)) then None else (m ++ map_of (rev C) ++ map_of (rev T)) k)"
  using assms
proof (induction cs arbitrary: m T C)
  case (Cons c cs)
  show ?case
  proof (cases c)
    case (Command_Task t)
    then obtain kv T' where T: "task_kv pb t = Some kv" "those (map (task_kv pb) (tasks_of cs)) = Some T'" "T = kv # T'"
      using Cons.prems(1) by (auto split: option.splits)
    obtain k v where kv: "kv = (k, v)" by force
    have c: "those (map (config_kv pb) (configs_of cs)) = Some C" using Cons.prems(2) Command_Task by simp
    have "map_of (rev C) k = None"
    proof (rule ccontr)
      assume "map_of (rev C) k \<noteq> None"
      then obtain q where "k = getConfigKey q" using config_kvs_lookup [OF c] by blast
      with task_kv_key(1) [OF T(1)] kv show False by (metis config_keys_apart(1) fst_conv)
    qed
    then have "m ++ map_of (rev C) ++ map_of (rev T) = m(k \<mapsto> v) ++ map_of (rev C) ++ map_of (rev T')"
      unfolding T(3) kv map_add_rev_Cons by (simp add: map_add_upd_apart)
    moreover have "fst ` set T' \<inter> set (ack_keys (acks_of cs)) = {}"
      using Cons.prems(3) by (auto simp: T(3) Command_Task)
    ultimately have e: "foldl (cmd_apply pb) (m(k \<mapsto> v)) cs =
        (\<lambda>k. if k \<in> set (ack_keys (acks_of cs)) then None else (m ++ map_of (rev C) ++ map_of (rev T)) k)"
      using Cons.IH [OF T(2) c] by presburger
    have "foldl (cmd_apply pb) m (c # cs) = foldl (cmd_apply pb) (m(k \<mapsto> v)) cs" "acks_of (c # cs) = acks_of cs"
      by (simp_all add: Command_Task T(1) kv)
    then show ?thesis unfolding e by simp
  next
    case (Command_Ack a)
    show ?thesis
    proof (cases "getAckKey a")
      case (Inr k)
      have T: "those (map (task_kv pb) (tasks_of cs)) = Some T" and C: "those (map (config_kv pb) (configs_of cs)) = Some C"
        using Cons.prems(1,2) Command_Ack by simp_all
      have "fst ` set T \<inter> set (ack_keys (acks_of cs)) = {}" and "k \<notin> fst ` set T"
        using Cons.prems(3) by (auto simp: Command_Ack Inr)
      moreover have "k \<notin> fst ` set C"
        using getAckKey_task [OF Inr] config_kvs_keys [OF C] config_keys_apart(5) by metis
      ultimately show ?thesis
        using Cons.IH [OF T C] Inr
        by (simp add: Command_Ack map_add_upd_apart map_of_eq_None_iff fun_eq_iff)
    qed (use Cons in \<open>simp add: Command_Ack\<close>)
  next
    case (Command_Queue q)
    then obtain kv C' where C: "config_kv pb q = Some kv" "those (map (config_kv pb) (configs_of cs)) = Some C'" "C = kv # C'"
      using Cons.prems(2) by (auto split: option.splits)
    obtain k v where kv: "kv = (k, v)" by force
    have T: "those (map (task_kv pb) (tasks_of cs)) = Some T" "fst ` set T \<inter> set (ack_keys (acks_of cs)) = {}"
      using Cons.prems Command_Queue by simp_all
    from Cons.IH [OF T(1) C(2) T(2)] C(1) show ?thesis
      by (simp only: Command_Queue C(3) kv map_add_rev_Cons) (simp add: kv)
  qed (use Cons in simp)
qed simp

section \<open>A batch\<close>

text \<open>What a set of finished parts has made of the view.\<close>

definition parts_view :: "(bytes \<Rightarrow> bytes option) \<Rightarrow> (bytes \<times> bytes) list \<Rightarrow> (bytes \<times> bytes) list \<Rightarrow> bytes set \<Rightarrow> part set \<Rightarrow> bytes \<Rightarrow> bytes option" where
  "parts_view m C T A P k =
     (if PAcks \<in> P \<and> k \<in> A then None
      else (m ++ (if PSettings \<in> P then map_of (rev C) else Map.empty) ++ (if PTasks \<in> P then map_of (rev T) else Map.empty)) k)"

context task_writer
begin

lemma applySettings_ok:
  assumes "ok s" "those (map (config_kv pb) cs) = Some C"
  shows "\<exists>s'. applySettings_loop save_settings cs s = (None, s') \<and> ok s' \<and> acked s' = acked s \<and> view s' = view s ++ map_of (rev C)"
  using assms
proof (induction cs arbitrary: s C)
  case (Cons c cs)
  then obtain b C' where c: "marshal_config pb c = Some b" "those (map (config_kv pb) cs) = Some C'"
    "C = (getConfigKey (qc_id c), b) # C'"
    by (cases "those (map (config_kv pb) cs)") (auto simp: config_kv_def [of pb c] split: option.splits)
  obtain s1 where s1: "save_settings c s = (None, s1)" "ok s1" "acked s1 = acked s" "view s1 = (view s)(getConfigKey (qc_id c) \<mapsto> b)"
    using save_ok [OF Cons.prems(1) c(1)] by blast
  from Cons.IH [OF s1(2) c(2)] s1(1,3) show ?case by (auto simp: c(3) map_add_rev_Cons simp flip: s1(4))
qed simp

lemma run_part_ok:
  assumes s: "ok s" "acked s \<subseteq> B" "view s = parts_view m C T A P"
    and T: "those (map (task_kv pb) (bw_tasks w)) = Some T" and C: "those (map (config_kv pb) (bw_settings w)) = Some C"
    and A: "A = set (ack_keys (bw_acks w))" and B: "A \<subseteq> B" and disj: "fst ` set T \<inter> B = {}"
  shows "\<exists>s'. run_part push acknowledge save_settings handle w p s = Some (None, s') \<and> ok s' \<and> acked s' \<subseteq> B \<and>
    view s' = parts_view m C T A (insert p P)"
proof (cases p)
  case PSettings
  obtain s' where s': "applySettings save_settings w s = (None, s')" "ok s'" "acked s' = acked s" "view s' = view s ++ map_of (rev C)"
    using applySettings_ok [OF s(1) C] C s(1) by (cases "bw_settings w = []") (auto simp: applySettings_def)
  have "(parts_view m C T A P ++ map_of (rev C)) k = parts_view m C T A (insert PSettings P) k" for k
  proof (cases "map_of (rev C) k")
    case (Some v)
    then obtain q where "k = getConfigKey q" using config_kvs_lookup [OF C] by blast
    then have "k \<notin> A" "map_of (rev T) k = None" using task_kvs_no_config [OF T] by (simp_all add: A)
    with Some show ?thesis by (simp add: parts_view_def map_add_def)
  qed (auto simp: parts_view_def map_add_def split: option.splits)
  then have "view s' = parts_view m C T A (insert PSettings P)" unfolding s'(4) s(3) by (rule ext)
  with s' s(2) PSettings show ?thesis by simp
next
  case PTasks
  have d: "fst ` set T \<inter> acked s = {}" using disj s(2) by blast
  obtain s' where s': "applyTasks push handle w s = Some (None, s')" "ok s'" "acked s' = acked s" "view s' = view s ++ map_of (rev T)"
    using push_ok [OF s(1) T d] T s(1)
    by (cases "bw_tasks w = []"; cases handle) (fastforce simp: applyTasks_def)+
  have "(parts_view m C T A P ++ map_of (rev T)) k = parts_view m C T A (insert PTasks P) k" for k
  proof (cases "map_of (rev T) k")
    case (Some v)
    then have "k \<in> fst ` set T" by (force dest!: map_of_SomeD)
    then have "k \<notin> A" using disj B by blast
    with Some show ?thesis by (simp add: parts_view_def map_add_def)
  qed (auto simp: parts_view_def map_add_def split: option.splits)
  then have "view s' = parts_view m C T A (insert PTasks P)" unfolding s'(4) s(3) by (rule ext)
  with s' s(2) PTasks show ?thesis by simp
next
  case PAcks
  obtain s' where s': "applyAcks acknowledge w s = (None, s')" "ok s'" "acked s' \<subseteq> acked s \<union> A"
    "view s' = (\<lambda>k. if k \<in> A then None else view s k)"
    using acknowledge_ok [OF s(1), of "bw_acks w"] s(1)
    by (cases "bw_acks w = []") (auto simp: applyAcks_def A)
  have "view s' = parts_view m C T A (insert PAcks P)" unfolding s'(4) s(3) by (auto simp: parts_view_def fun_eq_iff)
  moreover have "acked s' \<subseteq> B" using s'(3) s(2) B by blast
  ultimately show ?thesis using s' PAcks by simp
qed

lemma run_parts_ok:
  assumes s: "ok s" "acked s \<subseteq> B" "view s = parts_view m C T A P" "\<forall>p. errs p = None"
    and w: "those (map (task_kv pb) (bw_tasks w)) = Some T" "those (map (config_kv pb) (bw_settings w)) = Some C"
      "A = set (ack_keys (bw_acks w))" "A \<subseteq> B" "fst ` set T \<inter> B = {}"
  shows "\<exists>errs' s'. run_parts push acknowledge save_settings handle w ps s errs = Some (errs', s') \<and> (\<forall>p. errs' p = None) \<and>
    ok s' \<and> acked s' \<subseteq> B \<and> view s' = parts_view m C T A (P \<union> set ps)"
  using s
proof (induction ps arbitrary: s P errs)
  case (Cons p ps)
  obtain s1 where s1: "run_part push acknowledge save_settings handle w p s = Some (None, s1)" "ok s1" "acked s1 \<subseteq> B"
    "view s1 = parts_view m C T A (insert p P)"
    using run_part_ok [OF Cons.prems(1-3) w, of handle p] by blast
  from Cons.IH [OF s1(2-4), of "errs(p := None)"] Cons.prems(4) s1(1) show ?case by auto
qed auto

text \<open>A batch of valid commands acts as its commands do one after the other, whatever the order of its parts.\<close>

lemma Write_refines:
  assumes s: "ok s" and cmds: "commands pb logs = Some cmds"
    and T: "those (map (task_kv pb) (tasks_of cmds)) = Some T" and C: "those (map (config_kv pb) (configs_of cmds)) = Some C"
    and disj: "fst ` set T \<inter> (acked s \<union> set (ack_keys (acks_of cmds))) = {}" and order: "set order = UNIV"
  shows "\<exists>s'. bw_Write push acknowledge save_settings pb handle order logs newBatchWriter s
      = Some (replicate (length logs) None, newBatchWriter, s') \<and> ok s' \<and>
    acked s' \<subseteq> acked s \<union> set (ack_keys (acks_of cmds)) \<and> view s' = foldl (cmd_apply pb) (view s) cmds"
proof -
  let ?w = "\<lparr>bw_acks = acks_of cmds, bw_tasks = tasks_of cmds, bw_settings = configs_of cmds\<rparr>"
  let ?A = "set (ack_keys (acks_of cmds))"
  have g: "groupByType pb logs newBatchWriter = (None, ?w)"
    using groupByType_commands [OF cmds, of newBatchWriter] by (simp add: newBatchWriter_def)
  have m: "view s = parts_view (view s) C T ?A {}" by (simp add: parts_view_def fun_eq_iff)
  have "\<exists>errs' s'. run_parts push acknowledge save_settings handle ?w order s (\<lambda>_. None) = Some (errs', s') \<and>
      (\<forall>p. errs' p = None) \<and> ok s' \<and> acked s' \<subseteq> acked s \<union> ?A \<and> view s' = parts_view (view s) C T ?A ({} \<union> set order)"
    by (rule run_parts_ok [OF s Un_upper1 m]) (simp_all add: T C disj)
  then obtain errs' s' where r: "run_parts push acknowledge save_settings handle ?w order s (\<lambda>_. None) = Some (errs', s')"
    "\<forall>p. errs' p = None" "ok s'" "acked s' \<subseteq> acked s \<union> ?A" "view s' = parts_view (view s) C T ?A (set order)"
    by auto
  have d: "fst ` set T \<inter> ?A = {}" using disj by blast
  have "view s' = foldl (cmd_apply pb) (view s) cmds"
    unfolding foldl_cmd_apply [OF T C d] r(5) order by (simp add: parts_view_def fun_eq_iff)
  moreover have "bw_reset ?w = newBatchWriter" by (simp add: bw_reset_def newBatchWriter_def)
  ultimately show ?thesis using g r(1-4) by (simp add: bw_Write_def first_error_def)
qed

end

section \<open>The state machine\<close>

record StateMachine =
  fsm_store :: "taskWriter \<times> db"
  fsm_writer :: batchWriter
  fsm_handle :: "bool option"

definition sm_New :: "taskWriter \<Rightarrow> db \<Rightarrow> StateMachine" where
  "sm_New tw store = \<lparr>fsm_store = (tw, store), fsm_writer = newBatchWriter, fsm_handle = None\<rparr>"

definition SetHandle :: "bool option \<Rightarrow> StateMachine \<Rightarrow> StateMachine" where
  "SetHandle handle f = f\<lparr>fsm_handle := handle\<rparr>"

definition ApplyBatch :: "codec \<Rightarrow> part list \<Rightarrow> raft_log list \<Rightarrow> StateMachine \<Rightarrow> (error option list \<times> StateMachine) option" where
  "ApplyBatch pb order logs f =
     (case bw_Write (tw_push pb) tw_acknowledge (tw_save pb) pb (fsm_handle f) order logs (fsm_writer f) (fsm_store f) of
        None \<Rightarrow> None
      | Some (res, w', s') \<Rightarrow> Some (res, f\<lparr>fsm_writer := w', fsm_store := s'\<rparr>))"

definition Apply :: "codec \<Rightarrow> part list \<Rightarrow> raft_log \<Rightarrow> StateMachine \<Rightarrow> (error option list \<times> StateMachine) option" where
  "Apply pb order log f = ApplyBatch pb order [log] f"

text \<open>
  \<^verbatim>\<open>cmd.go\<close>: the entries for a task and for an acknowledgement. The error of the encoding is
  ignored, which leaves an entry without data.
\<close>

definition ApplySaveTaskCommand :: "codec \<Rightarrow> Task \<Rightarrow> raft_log" where
  "ApplySaveTaskCommand pb task =
     \<lparr>log_is_command = True, log_data = (case marshal_command pb (Command_Task task) of None \<Rightarrow> [] | Some b \<Rightarrow> b)\<rparr>"

definition ApplyAckCommand :: "codec \<Rightarrow> Ack \<Rightarrow> raft_log" where
  "ApplyAckCommand pb ack =
     \<lparr>log_is_command = True, log_data = (case marshal_command pb (Command_Ack ack) of None \<Rightarrow> [] | Some b \<Rightarrow> b)\<rparr>"

text \<open>Batches one after the other, each with the role of the node then and the order of the goroutines.\<close>

fun apply_batches :: "codec \<Rightarrow> (bool option \<times> part list \<times> raft_log list) list \<Rightarrow> StateMachine \<Rightarrow> StateMachine option" where
  "apply_batches pb [] f = Some f"
| "apply_batches pb ((handle, order, logs) # bs) f =
     (case ApplyBatch pb order logs (SetHandle handle f) of
        None \<Rightarrow> None
      | Some (res, f') \<Rightarrow> apply_batches pb bs f')"

definition fsm_ok :: "StateMachine \<Rightarrow> bool" where
  "fsm_ok f = (tw_ok (fsm_store f) \<and> fsm_writer f = newBatchWriter)"

text \<open>The commands of entries can be carried out: they encode, their tasks have valid identifiers, and no
  task is stored that is acknowledged among them or before.\<close>

definition cmds_ok :: "codec \<Rightarrow> bytes set \<Rightarrow> Command list \<Rightarrow> bool" where
  "cmds_ok pb acked cmds =
     (case (those (map (task_kv pb) (tasks_of cmds)), those (map (config_kv pb) (configs_of cmds))) of
        (Some T, Some C) \<Rightarrow> fst ` set T \<inter> (acked \<union> set (ack_keys (acks_of cmds))) = {}
      | _ \<Rightarrow> False)"

lemma ApplyBatch_ok:
  assumes f: "fsm_ok f" and cmds: "commands pb logs = Some cmds" "cmds_ok pb B cmds" "tw_acked (fsm_store f) \<subseteq> B"
    and order: "set order = UNIV"
  shows "\<exists>f'. ApplyBatch pb order logs f = Some (replicate (length logs) None, f') \<and> fsm_ok f' \<and>
    tw_acked (fsm_store f') \<subseteq> B \<union> set (ack_keys (acks_of cmds)) \<and>
    tw_view (fsm_store f') = foldl (cmd_apply pb) (tw_view (fsm_store f)) cmds"
proof -
  obtain T C where tc: "those (map (task_kv pb) (tasks_of cmds)) = Some T" "those (map (config_kv pb) (configs_of cmds)) = Some C"
    "fst ` set T \<inter> (B \<union> set (ack_keys (acks_of cmds))) = {}"
    using cmds(2) by (auto simp: cmds_ok_def split: option.splits)
  have "fst ` set T \<inter> (tw_acked (fsm_store f) \<union> set (ack_keys (acks_of cmds))) = {}" using tc(3) cmds(3) by blast
  from tw.Write_refines [OF _ cmds(1) tc(1,2) this order, of "fsm_handle f"] f cmds(3) show ?thesis
    by (fastforce simp: fsm_ok_def ApplyBatch_def)
qed

lemma commands_append:
  "commands pb (xs @ ys) = (case commands pb xs of None \<Rightarrow> None | Some a \<Rightarrow> map_option ((@) a) (commands pb ys))"
  by (cases "commands pb ys"; induction xs) (auto split: option.splits Command.splits)

lemma parts_append [simp]:
  "tasks_of (xs @ ys) = tasks_of xs @ tasks_of ys"
  "acks_of (xs @ ys) = acks_of xs @ acks_of ys"
  "configs_of (xs @ ys) = configs_of xs @ configs_of ys"
  by (induction xs) (auto split: Command.splits)

lemma those_append: "those (xs @ ys) = (case those xs of None \<Rightarrow> None | Some a \<Rightarrow> map_option ((@) a) (those ys))"
  by (cases "those ys"; induction xs) (auto split: option.splits)

text \<open>
  The batches of a log can be carried out one after the other: those of each batch can, and no task is stored that was
  acknowledged in an earlier one. Later batches may well acknowledge the tasks of earlier ones.
\<close>

fun batches_ok :: "codec \<Rightarrow> bytes set \<Rightarrow> (bool option \<times> part list \<times> raft_log list) list \<Rightarrow> bool" where
  "batches_ok pb B [] = True"
| "batches_ok pb B ((handle, order, logs) # bs) =
     (set order = UNIV \<and>
      (case commands pb logs of
         None \<Rightarrow> False
       | Some cs \<Rightarrow> cmds_ok pb B cs \<and> batches_ok pb (B \<union> set (ack_keys (acks_of cs))) bs))"

abbreviation log_of :: "(bool option \<times> part list \<times> raft_log list) list \<Rightarrow> raft_log list" where
  "log_of bs \<equiv> concat (map (\<lambda>b. snd (snd b)) bs)"

lemma apply_batches_ok:
  assumes "fsm_ok f" "tw_acked (fsm_store f) \<subseteq> B" "batches_ok pb B bs"
  shows "\<exists>cmds f'. commands pb (log_of bs) = Some cmds \<and> apply_batches pb bs f = Some f' \<and> fsm_ok f' \<and>
    tw_acked (fsm_store f') \<subseteq> B \<union> set (ack_keys (acks_of cmds)) \<and>
    tw_view (fsm_store f') = foldl (cmd_apply pb) (tw_view (fsm_store f)) cmds"
  using assms
proof (induction bs arbitrary: f B)
  case (Cons b bs)
  obtain handle order logs where b: "b = (handle, order, logs)" by (metis prod_cases3)
  with Cons.prems(3) obtain c1 where c1: "set order = UNIV" "commands pb logs = Some c1" "cmds_ok pb B c1"
    "batches_ok pb (B \<union> set (ack_keys (acks_of c1))) bs"
    by (auto split: option.splits)
  obtain f1 where f1: "ApplyBatch pb order logs (SetHandle handle f) = Some (replicate (length logs) None, f1)" "fsm_ok f1"
    "tw_acked (fsm_store f1) \<subseteq> B \<union> set (ack_keys (acks_of c1))"
    "tw_view (fsm_store f1) = foldl (cmd_apply pb) (tw_view (fsm_store f)) c1"
    using ApplyBatch_ok [of "SetHandle handle f" pb logs c1 B order] Cons.prems(1,2) c1
    by (auto simp: SetHandle_def fsm_ok_def)
  obtain c2 f' where f': "commands pb (log_of bs) = Some c2" "apply_batches pb bs f1 = Some f'" "fsm_ok f'"
    "tw_acked (fsm_store f') \<subseteq> B \<union> set (ack_keys (acks_of c1)) \<union> set (ack_keys (acks_of c2))"
    "tw_view (fsm_store f') = foldl (cmd_apply pb) (tw_view (fsm_store f1)) c2"
    using Cons.IH [OF f1(2,3) c1(4)] by blast
  have "commands pb (log_of (b # bs)) = Some (c1 @ c2)" using c1(2) f'(1) by (simp add: b commands_append)
  then show ?case using f1(1,4) f'(2-5) by (intro exI [of _ "c1 @ c2"] exI [of _ f']) (auto simp: b)
qed simp

section \<open>Commands again\<close>

text \<open>
  The last command for a key decides what is stored under it: commands make the same of two stores that
  differ only under keys of the commands.
\<close>

fun cmd_key :: "codec \<Rightarrow> Command \<Rightarrow> bytes option" where
  "cmd_key pb (Command_Task t) = map_option fst (task_kv pb t)"
| "cmd_key pb (Command_Ack a) = (case getAckKey a of Inl _ \<Rightarrow> None | Inr k \<Rightarrow> Some k)"
| "cmd_key pb (Command_Queue c) = map_option fst (config_kv pb c)"
| "cmd_key pb Command_Unset = None"

lemma cmd_apply_key: "cmd_apply pb m c k = (if cmd_key pb c = Some k then cmd_apply pb m' c k else m k)"
  by (cases c) (auto split: option.splits sum.splits)

lemma foldl_cmd_apply_agree:
  assumes "\<forall>k. Some k \<notin> cmd_key pb ` set cs \<longrightarrow> m k = m' k"
  shows "foldl (cmd_apply pb) m cs = foldl (cmd_apply pb) m' cs"
  using assms
proof (induction cs arbitrary: m m')
  case (Cons c cs)
  have "cmd_apply pb m c k = cmd_apply pb m' c k" if "Some k \<notin> cmd_key pb ` set cs" for k
    using Cons.prems that cmd_apply_key [of pb m c k m'] cmd_apply_key [of pb m' c k m'] by auto
  then show ?case using Cons.IH by simp
qed (simp add: fun_eq_iff)

lemma foldl_cmd_apply_other:
  "Some k \<notin> cmd_key pb ` set cs \<Longrightarrow> foldl (cmd_apply pb) m cs k = m k"
proof (induction cs arbitrary: m)
  case (Cons c cs)
  then show ?case using cmd_apply_key [of pb m c k m] by auto
qed simp

lemma ack_keys_cmd_key: "k \<in> set (ack_keys (acks_of cs)) \<Longrightarrow> Some k \<in> cmd_key pb ` set cs"
proof (induction cs)
  case (Cons c cs)
  then show ?case by (cases c) (auto simp: image_iff split: sum.splits)
qed simp

section \<open>Properties\<close>


definition sample_fsm :: StateMachine where
  "sample_fsm = \<lparr>fsm_store = (NewTaskWriter, \<lparr>db_kv = [], db_faults = []\<rparr>), fsm_writer = newBatchWriter, fsm_handle = Some True\<rparr>"

lemma sample_fsm_ok [simp]: "fsm_ok sample_fsm" "tw_acked (fsm_store sample_fsm) = {}" "tw_view (fsm_store sample_fsm) = Map.empty"
  by (simp_all add: sample_fsm_def fsm_ok_def tw_ok_def db_ok_def tw_acked_def NewTaskWriter_def tw_view_def
      db_lookup_def fun_eq_iff)

lemma commands_sample [simp]:
  "commands wire_codec (ApplySaveTaskCommand wire_codec t # logs) = map_option ((#) (Command_Task t)) (commands wire_codec logs)"
  "commands wire_codec (ApplyAckCommand wire_codec a # logs) = map_option ((#) (Command_Ack a)) (commands wire_codec logs)"
  by (simp_all add: ApplySaveTaskCommand_def ApplyAckCommand_def del: enc_command.simps)

declare commands.simps(2) [simp del]

lemma getAckKey_fifo_sample [simp]:
  "getAckKey (ack_of (fifo_sample q i)) = Inr (getFifoTaskKey q (iden_New zero_time i))"
  by (simp add: getAckKey_def ack_of_def GetQueue_def GetTaskId_def TaskID_Time_New errors_is.simps)

lemma getFifoTaskKey_zero_inj [simp]:
  "getFifoTaskKey q (iden_New zero_time i) = getFifoTaskKey q (iden_New zero_time j) \<longleftrightarrow> i = j"
  by (simp add: getFifoTaskKey_def PutUint64_inj)

lemma cmds_ok_sample:
  "i \<noteq> j \<Longrightarrow> cmds_ok wire_codec {} [Command_Task (fifo_sample ''q'' i), Command_Ack (ack_of (fifo_sample ''q'' j))]"
  by (simp add: cmds_ok_def task_kv_def getTaskKey_def)



text \<open>A task is stored, then acknowledged in a batch that stores another.\<close>

definition sample_log :: "raft_log list" where
  "sample_log = [ApplySaveTaskCommand wire_codec (fifo_sample ''q'' 3), ApplySaveTaskCommand wire_codec (fifo_sample ''q'' 4),
     ApplyAckCommand wire_codec (ack_of (fifo_sample ''q'' 3))]"

definition sample_batches :: "(bool option \<times> part list \<times> raft_log list) list" where
  "sample_batches = [(Some True, [PSettings, PTasks, PAcks], take 1 sample_log), (Some True, [PAcks, PTasks, PSettings], drop 1 sample_log)]"

definition sample_batches' :: "(bool option \<times> part list \<times> raft_log list) list" where
  "sample_batches' = [(None, [PTasks, PAcks, PSettings], take 2 sample_log), (Some False, [PAcks, PSettings, PTasks], drop 2 sample_log)]"

lemma sample_batches_ok:
  "batches_ok wire_codec {} sample_batches" "batches_ok wire_codec {} sample_batches'" "log_of sample_batches = log_of sample_batches'"
  "log_of sample_batches = sample_log"
proof -
  have u: "{PSettings, PTasks, PAcks} = UNIV" "{PAcks, PTasks, PSettings} = UNIV" "{PTasks, PAcks, PSettings} = UNIV"
    "{PAcks, PSettings, PTasks} = UNIV"
    using part.exhaust by auto
  show "batches_ok wire_codec {} sample_batches" "batches_ok wire_codec {} sample_batches'"
    by (simp_all add: sample_batches_def sample_batches'_def sample_log_def u cmds_ok_def task_kv_def getTaskKey_def)
  show "log_of sample_batches = log_of sample_batches'" "log_of sample_batches = sample_log"
    by (simp_all add: sample_batches_def sample_batches'_def sample_log_def)
qed




text \<open>C30. The results of a batch: every entry gets the same one, and there are as many as entries. A batch
  with an entry that does not decode, or whose command has no known type, is refused as a whole: every entry gets the
  error and nothing is applied.\<close>

theorem batch_results:
  assumes "ApplyBatch pb order logs f = Some (res, f')"
  shows "(\<exists>r. res = replicate (length logs) r) \<and>
    (commands pb logs = None \<longrightarrow> (\<exists>e. res = replicate (length logs) (Some e)) \<and> fsm_store f' = fsm_store f)"
proof -
  have pack: "packErrors e (replicate n x) = replicate n (Some e)" for e n and x :: "error option"
    by (simp add: packErrors_def map_replicate_const)
  have "\<exists>e w'. groupByType pb logs (fsm_writer f) = (Some e, w')" if "commands pb logs = None"
    using groupByType_error [OF that] by blast
  with assms show ?thesis
    by (auto simp: ApplyBatch_def bw_Write_def Let_def pack split: option.splits prod.splits)
qed

theorem batch_results_witness:
  "\<exists>e f'. ApplyBatch wire_codec [] [ApplySaveTaskCommand wire_codec (fifo_sample ''q'' 4), \<lparr>log_is_command = True, log_data = [9]\<rparr>]
      sample_fsm = Some ([Some e, Some e], f') \<and> fsm_store f' = fsm_store sample_fsm"
proof -
  let ?l = "[ApplySaveTaskCommand wire_codec (fifo_sample ''q'' 4), \<lparr>log_is_command = True, log_data = [9]\<rparr>]"
  have "commands wire_codec [\<lparr>log_is_command = True, log_data = [9]\<rparr>] = None"
    by (simp add: wire_codec_def commands.simps(2))
  then have "commands wire_codec ?l = None" by simp
  moreover from this obtain e w' where "groupByType wire_codec ?l (fsm_writer sample_fsm) = (Some e, w')"
    using groupByType_error by blast
  then obtain res f' where r: "ApplyBatch wire_codec [] ?l sample_fsm = Some (res, f')"
    by (simp add: ApplyBatch_def bw_Write_def del: groupByType.simps)
  ultimately show ?thesis using batch_results [OF r] by (auto simp: numeral_2_eq_2)
qed

text \<open>
  The refusal is what raft hands to the caller as the response of the entry, not as the error of its future: the
  callers of \<^verbatim>\<open>raft.Apply\<close>, which look at \<^verbatim>\<open>Error()\<close> only, take it for a success.
\<close>

text \<open>
  A task and its acknowledgement in one batch, as on a follower that catches up: if the acknowledgement fills the buffer, so that it
  is emptied at once, the goroutines race, and whether the task is gone or stays for good depends on their order.
\<close>

theorem same_batch_race:
  assumes "fsm_ok f" "commands pb logs = Some [Command_Task t, Command_Ack a]" "task_kv pb t = Some (k, v)" "getAckKey a = Inr k"
    and "length (tw_ackBuffer (fst (fsm_store f))) = 2000" "k \<notin> tw_acked (fsm_store f)"
  shows "\<exists>f1 f2. ApplyBatch pb [PSettings, PTasks, PAcks] logs f = Some (replicate (length logs) None, f1) \<and>
    ApplyBatch pb [PSettings, PAcks, PTasks] logs f = Some (replicate (length logs) None, f2) \<and>
    tw_view (fsm_store f1) k = None \<and> tw_view (fsm_store f2) k = Some v"
proof -
  let ?s = "fsm_store f"
  let ?w = "\<lparr>bw_acks = [a], bw_tasks = [t], bw_settings = []\<rparr>"
  let ?fl = "\<not> (fsm_handle f = Some True)"
  have ok: "tw_ok ?s" "fsm_writer f = newBatchWriter" using assms(1) by (simp_all add: fsm_ok_def)
  have g: "groupByType pb logs newBatchWriter = (None, ?w)"
    using groupByType_commands [OF assms(2), of newBatchWriter] by (simp add: newBatchWriter_def)
  have tasks: "applyTasks push (fsm_handle f) ?w s = push [t] ?fl s" for push and s :: "taskWriter \<times> db"
    by (auto simp: applyTasks_def split: option.splits)
  have kv: "those (map (task_kv pb) [t]) = Some [(k, v)]" using assms(3) by simp
  obtain s1 where s1: "tw_push pb [t] ?fl ?s = Some (None, s1)" "tw_ok s1"
    using tw_push_ok [OF ok(1) kv, of ?fl] assms(6) by auto
  obtain s1' where s1': "tw_acknowledge [a] s1 = (None, s1')" "tw_view s1' = (\<lambda>k. if k \<in> set (ack_keys [a]) then None else tw_view s1 k)"
    using tw_acknowledge_ok [OF s1(2)] by blast
  obtain s2 where s2: "tw_acknowledge [a] ?s = (None, s2)" "tw_ok s2" using tw_acknowledge_ok [OF ok(1)] by blast
  have "tw_acked s2 = {}"
    using s2(1) assms(5) DeleteAll_view [of "snd ?s" "tw_ackBuffer (fst ?s) @ [a]"] ok(1)
    by (auto simp: tw_acknowledge_def tw_Acknowledge_def tw_flush_def Let_def tw_acked_def tw_ok_def ack_keys_def split: prod.splits)
  then obtain s2' where s2': "tw_push pb [t] ?fl s2 = Some (None, s2')" "tw_view s2' = tw_view s2 ++ map_of (rev [(k, v)])"
    using tw_push_ok [OF s2(2) kv, of ?fl] by auto
  have "tw_view s1' k = None" using s1'(2) assms(4) by simp
  moreover have "tw_view s2' k = Some v" using s2'(2) by simp
  ultimately show ?thesis
    using g s1(1) s1'(1) s2(1) s2'(1) ok(2)
    by (simp add: ApplyBatch_def bw_Write_def Let_def tasks applySettings_def applyAcks_def first_error_def)
qed

end
