(* ===== verification/Synced_Settings.thy ===== *)
theory Synced_Settings
  imports Feed_Readers State_Machine
begin

text \<open>
  \<^verbatim>\<open>src/storage/syncer.go\<close>: the settings of a queue that a feed works on, which are written back through raft
  when they have changed. Raft is a parameter, a function that takes the data of a log entry and returns the error of
  its future, on a state \<open>'w\<close> of the caller.

  The lemmas say what the default settings mean for the readers, that settings are written exactly when
  they changed, and that what was written through the state machine is loaded again after a restart.
\<close>

section \<open>The settings\<close>

record SyncedSettings =
  ss_S :: "QueueConfig option"
  ss_lastSaved :: "QueueConfig option"
  ss_queue :: string

definition NewSyncedSettings :: "string \<Rightarrow> SyncedSettings" where
  "NewSyncedSettings queue = \<lparr>ss_S = None, ss_lastSaved = None, ss_queue = queue\<rparr>"

text \<open>
  \<^verbatim>\<open>trySave\<close>. \<^verbatim>\<open>pb.Equal\<close> of two messages is equality, and a message is never equal to a \<open>nil\<close> one. As in
  the other commands, the error of the encoding is ignored.
\<close>

definition trySave ::
  "codec \<Rightarrow> (bytes \<Rightarrow> 'w \<Rightarrow> error option \<times> 'w) \<Rightarrow> SyncedSettings \<Rightarrow> 'w \<Rightarrow> error option \<times> SyncedSettings \<times> 'w" where
  "trySave pb raft_Apply s w =
     (if ss_S s = ss_lastSaved s then (None, s, w)
      else let snapshot = ss_S s;
               cmd = (case snapshot of
                        None \<Rightarrow> []
                      | Some c \<Rightarrow> (case marshal_command pb (Command_Queue c) of None \<Rightarrow> [] | Some b \<Rightarrow> b))
           in case raft_Apply cmd w of
                (None, w') \<Rightarrow> (None, s\<lparr>ss_lastSaved := snapshot\<rparr>, w')
              | (Some e, w') \<Rightarrow> (Some e, s, w'))"

definition default_settings :: "string \<Rightarrow> QueueConfig" where
  "default_settings queue =
     \<lparr>qc_id = queue, last_delivered_scheduled_task = TaskID_String iden_Min,
      last_delivered_queued_task = TaskID_String iden_Max, ack_deadline_seconds = 300\<rparr>"

definition ss_load ::
  "codec \<Rightarrow> (bytes \<Rightarrow> 'w \<Rightarrow> error option \<times> 'w) \<Rightarrow> db \<Rightarrow> SyncedSettings \<Rightarrow> 'w \<Rightarrow> error option \<times> SyncedSettings \<times> db \<times> 'w" where
  "ss_load pb raft_Apply d s w =
     (case SettingStore_Get pb d (ss_queue s) of
        (Inr settings, d') \<Rightarrow> (None, s\<lparr>ss_S := Some settings\<rparr>, d', w)
      | (Inl err, d') \<Rightarrow>
          (if \<not> errors_is err ErrNotFound
           then (Some (EWrap ''failed to load queue settings from database'' err), s, d', w)
           else case trySave pb raft_Apply (s\<lparr>ss_S := Some (default_settings (ss_queue s))\<rparr>) w of
                  (Some e, s', w') \<Rightarrow> (Some (EWrap ''failed to save queue settings to database'' e), s', d', w')
                | (None, s', w') \<Rightarrow> (None, s', d', w')))"

text \<open>One round of the loop \<^verbatim>\<open>startSync\<close>, on a tick of its timer and on a request to close: an error is logged.\<close>

definition startSync_tick ::
  "codec \<Rightarrow> (bytes \<Rightarrow> 'w \<Rightarrow> error option \<times> 'w) \<Rightarrow> SyncedSettings \<Rightarrow> 'w \<Rightarrow> SyncedSettings \<times> 'w" where
  "startSync_tick pb raft_Apply s w = (case trySave pb raft_Apply s w of (_, s', w') \<Rightarrow> (s', w'))"

text \<open>\<^verbatim>\<open>StartSync\<close> loads the settings and starts the loop if that succeeds; \<^verbatim>\<open>Close\<close> ends the loop after a last save.\<close>

definition StartSync ::
  "codec \<Rightarrow> (bytes \<Rightarrow> 'w \<Rightarrow> error option \<times> 'w) \<Rightarrow> db \<Rightarrow> SyncedSettings \<Rightarrow> 'w \<Rightarrow> error option \<times> SyncedSettings \<times> db \<times> 'w" where
  "StartSync pb raft_Apply d s w = ss_load pb raft_Apply d s w"

definition ss_Close ::
  "codec \<Rightarrow> (bytes \<Rightarrow> 'w \<Rightarrow> error option \<times> 'w) \<Rightarrow> SyncedSettings \<Rightarrow> 'w \<Rightarrow> error option \<times> SyncedSettings \<times> 'w" where
  "ss_Close pb raft_Apply s w = (case startSync_tick pb raft_Apply s w of (s', w') \<Rightarrow> (None, s', w'))"

section \<open>The default settings\<close>

lemma MustParse_Max [simp]: "MustParseString (TaskID_String iden_Max) = Some iden_Max"
  by (rule MustParseString_String_hd) (simp_all add: iden_Max_def hd_iden_New iden_Max_nano)

lemma TaskID_Index_Max [simp]: "TaskID_Index iden_Max = - 1"
  by (simp add: iden_Max_def)

lemma default_settings_ok [simp]: "fifo_settings_ok (default_settings q)" "sched_settings_ok (default_settings q)"
  by (simp_all add: default_settings_def fifo_settings_ok_def sched_settings_ok_def)

text \<open>
  The last queued task of the default is the one with the largest index, whose successor wraps around to 0, so
  that all FIFO tasks are pending; of the scheduled tasks, those from 1970 on that are due.
\<close>

lemma default_pending_fifo:
  "pending fifoUndelivered_Query now (default_settings q) pb d = {t \<in> stored_tasks pb d. task_queue t = q \<and> schedule_time t = None}"
  by (auto simp: pending_def fifoUndelivered_Query_def default_settings_def)

lemma iden_Min_fields: "iden_New (MustTime iden_Min) (TaskID_Index iden_Min + 1) = iden_New (time_Unix 0 0) 1"
proof -
  have "UnixNano (time_Unix 0 0) = 0" by (rule UnixNano_time_Unix) (simp add: is_int64_def MinInt64_def MaxInt64_def)
  then show ?thesis by (simp add: iden_Min_def)
qed

lemma default_pending_sched:
  "pending schedUndelivered_Query now (default_settings q) pb d =
     {t \<in> stored_tasks pb d. task_queue t = q \<and> schedule_time t \<noteq> None \<and>
        iden_New (time_Unix 0 0) 1 \<le> task_tid t \<and> task_tid t \<le> iden_New now 0}"
  by (auto simp: pending_def schedUndelivered_Query_def default_settings_def iden_Min_fields)

section \<open>Saving\<close>

lemma trySave_saved:
  "trySave pb raft s w = (None, s', w') \<Longrightarrow> ss_lastSaved s' = ss_S s \<and> ss_S s' = ss_S s \<and> trySave pb raft' s' v = (None, s', v)"
  by (auto simp: trySave_def Let_def split: if_splits option.splits prod.splits)

lemma trySave_error:
  "trySave pb raft s w = (Some e, s', w') \<Longrightarrow> s' = s"
  by (auto simp: trySave_def Let_def split: if_splits option.splits prod.splits)

section \<open>Properties\<close>

text \<open>A queue without stored settings starts at the beginning: all its FIFO tasks are pending, and all its scheduled
  tasks from 1970 on that are due.\<close>

theorem default_settings_pending:
  "pending fifoUndelivered_Query now (default_settings q) pb d = {t \<in> stored_tasks pb d. task_queue t = q \<and> schedule_time t = None} \<and>
   pending schedUndelivered_Query now (default_settings q) pb d =
     {t \<in> stored_tasks pb d. task_queue t = q \<and> schedule_time t \<noteq> None \<and>
        iden_New (time_Unix 0 0) 1 \<le> task_tid t \<and> task_tid t \<le> iden_New now 0}"
  by (simp only: default_pending_fifo default_pending_sched simp_thms)

text \<open>Settings are written when they differ from what was written last, and only then: after a
  successful save another one does nothing, and a failed one is tried again as it was.\<close>

theorem trySave_when_changed:
  "(ss_S s = ss_lastSaved s \<longrightarrow> trySave pb raft s w = (None, s, w)) \<and>
   (\<forall>s' w'. trySave pb raft s w = (None, s', w') \<longrightarrow>
      ss_lastSaved s' = ss_S s \<and> ss_S s' = ss_S s \<and> trySave pb raft' s' v = (None, s', v)) \<and>
   (\<forall>e s' w'. trySave pb raft s w = (Some e, s', w') \<longrightarrow> s' = s)"
proof (intro conjI)
  show "ss_S s = ss_lastSaved s \<longrightarrow> trySave pb raft s w = (None, s, w)" by (simp add: trySave_def)
qed (auto dest: trySave_saved trySave_error)

theorem trySave_when_changed_witness:
  "trySave wire_codec (\<lambda>cmd w. (None, cmd # w)) \<lparr>ss_S = Some (default_settings ''q''), ss_lastSaved = Some (default_settings ''q''), ss_queue = ''q''\<rparr> []
     = (None, \<lparr>ss_S = Some (default_settings ''q''), ss_lastSaved = Some (default_settings ''q''), ss_queue = ''q''\<rparr>, [])"
  by (rule trySave_when_changed [THEN conjunct1, THEN mp]) simp

text \<open>Raft with one node: an entry is committed by applying it; the error of its future is that of raft.\<close>

definition single_node :: "codec \<Rightarrow> part list \<Rightarrow> bytes \<Rightarrow> StateMachine \<Rightarrow> error option \<times> StateMachine" where
  "single_node pb order cmd f =
     (case ApplyBatch pb order [\<lparr>log_is_command = True, log_data = cmd\<rparr>] f of
        None \<Rightarrow> (Some ENoLeader, f)
      | Some (_, f') \<Rightarrow> (None, f'))"

text \<open>C35. Checkpoints survive a restart: settings that were saved through the state machine are what a new
  feed of the queue loads from the store.\<close>

theorem settings_survive_restart:
  assumes "codec_ok pb" "fsm_ok f" "ss_S s = Some c" "ss_lastSaved s \<noteq> Some c" "marshal_command pb (Command_Queue c) = Some cmd"
    "marshal_config pb c = Some b" "set order = UNIV"
  shows "\<exists>s' f' s2 d w'. trySave pb (single_node pb order) s f = (None, s', f') \<and>
    StartSync pb raft (snd (fsm_store f')) (NewSyncedSettings (qc_id c)) w = (None, s2, d, w') \<and> ss_S s2 = Some c"
proof -
  let ?log = "\<lparr>log_is_command = True, log_data = cmd\<rparr>"
  have cmds: "commands pb [?log] = Some [Command_Queue c]"
    using codec_okD(3) [OF assms(1,5)] by (simp add: commands.simps(2))
  have "cmds_ok pb (tw_acked (fsm_store f)) [Command_Queue c]" by (simp add: cmds_ok_def config_kv_def assms(6))
  then obtain f' where f': "ApplyBatch pb order [?log] f = Some ([None], f')" "fsm_ok f'"
    "tw_view (fsm_store f') = foldl (cmd_apply pb) (tw_view (fsm_store f)) [Command_Queue c]"
    using ApplyBatch_ok [OF assms(2) cmds _ order_refl assms(7)] by auto
  then have "tw_view (fsm_store f') (getConfigKey (qc_id c)) = Some b" by (simp add: config_kv_def assms(6))
  then have "db_lookup (snd (fsm_store f')) (getConfigKey (qc_id c)) = Some b" by (simp add: tw_view_def)
  moreover have "db_faults (snd (fsm_store f')) = []" using f'(2) by (simp add: fsm_ok_def tw_ok_def)
  ultimately have "SettingStore_Get pb (snd (fsm_store f')) (qc_id c) = (Inr c, snd (fsm_store f'))"
    using codec_okD(2) [OF assms(1,6)] by (simp add: SettingStore_Get_def)
  then show ?thesis
    using assms(3-5) f'(1) by (simp add: trySave_def single_node_def StartSync_def ss_load_def NewSyncedSettings_def Let_def)
qed

theorem settings_survive_restart_witness:
  "\<exists>s' f' s2 d w'. trySave wire_codec (single_node wire_codec [PTasks, PSettings, PAcks])
      \<lparr>ss_S = Some (default_settings ''q''), ss_lastSaved = None, ss_queue = ''q''\<rparr> sample_fsm = (None, s', f') \<and>
    StartSync wire_codec (\<lambda>cmd w. (None, w)) (snd (fsm_store f')) (NewSyncedSettings ''q'') () = (None, s2, d, w') \<and>
    ss_S s2 = Some (default_settings ''q'')"
proof -
  have "set [PTasks, PSettings, PAcks] = UNIV" using part.exhaust by auto
  from settings_survive_restart [OF codec_ok_wire sample_fsm_ok(1) _ _ wire_codec_simps(3) wire_codec_simps(2) this,
      of "\<lparr>ss_S = Some (default_settings ''q''), ss_lastSaved = None, ss_queue = ''q''\<rparr>" "default_settings ''q''"
         "\<lambda>cmd w. (None, w)" "()"]
  show ?thesis by (simp add: default_settings_def)
qed

end
