(* ===== verification/Feed.thy ===== *)
theory Feed
  imports Synced_Settings
begin

text \<open>
  \<^verbatim>\<open>src/feeds/feed.go\<close>: the feed of a queue, which lets its four readers push tasks into a channel until its context
  is cancelled. The channel is the list of the tasks pushed. When a push finds the context cancelled depends on the
  scheduler; \<open>fd_ctx\<close> is the number of pushes before that, \<open>None\<close> if it does not happen. The clock is an
  argument: \<open>now r i\<close> is what reader \<open>r\<close> sees when it looks at the clock for the \<open>i\<close>-th time in a round. A redelivery
  that a round starts runs in a goroutine of its own; \<open>fd_started\<close> lists those started.
\<close>

section \<open>The feed\<close>

record Feed =
  fd_settings :: SyncedSettings
  fd_feed :: "Task list"
  fd_ctx :: "nat option"
  fd_fifoDelivered :: deliveredReader
  fd_schedDelivered :: deliveredReader
  fd_started :: "reader list"

definition Feed_New ::
  "codec \<Rightarrow> (bytes \<Rightarrow> 'w \<Rightarrow> error option \<times> 'w) \<Rightarrow> string \<Rightarrow> db \<Rightarrow> 'w \<Rightarrow> (error + Feed) \<times> db \<times> 'w" where
  "Feed_New pb raft_Apply queue d w =
     (case StartSync pb raft_Apply d (NewSyncedSettings queue) w of
        (Some e, s, d', w') \<Rightarrow> (Inl (EWrap ''feed creation failed due to queue error'' e), d', w')
      | (None, s, d', w') \<Rightarrow>
          (Inr \<lparr>fd_settings = s, fd_feed = [], fd_ctx = None,
                fd_fifoDelivered = newDeliveredReader redeliveryInterval,
                fd_schedDelivered = newDeliveredReader redeliveryInterval, fd_started = []\<rparr>, d', w'))"

definition feed_push :: "Feed \<Rightarrow> Task \<Rightarrow> error option \<times> Feed" where
  "feed_push f task =
     (case fd_ctx f of
        Some 0 \<Rightarrow> (Some EOF, f)
      | Some (Suc n) \<Rightarrow> (None, f\<lparr>fd_feed := fd_feed f @ [task], fd_ctx := Some n\<rparr>)
      | None \<Rightarrow> (None, f\<lparr>fd_feed := fd_feed f @ [task]\<rparr>))"

text \<open>The function that \<^verbatim>\<open>pullAndPush\<close> gives to the readers.\<close>

definition push_count :: "Feed \<times> nat \<Rightarrow> Task \<Rightarrow> error option \<times> (Feed \<times> nat)" where
  "push_count fc task =
     (case feed_push (fst fc) task of
        (None, f') \<Rightarrow> (None, (f', snd fc + 1))
      | (Some e, f') \<Rightarrow> (Some e, (f', snd fc)))"

text \<open>One reader of the loop: the outcome of \<^verbatim>\<open>Read\<close> if the reader is ready.\<close>

definition read_undelivered ::
  "codec \<Rightarrow> (time \<Rightarrow> QueueConfig \<Rightarrow> TaskRange option) \<Rightarrow> (QueueConfig \<Rightarrow> Task \<Rightarrow> QueueConfig) \<Rightarrow> time \<Rightarrow> db \<Rightarrow>
     Feed \<times> nat \<Rightarrow> (error option \<times> Feed \<times> nat) option" where
  "read_undelivered pb qf check now d fc =
     (case ss_S (fd_settings (fst fc)) of
        None \<Rightarrow> None
      | Some st \<Rightarrow>
          (case undelivered_Read pb qf check now d push_count st fc of
             None \<Rightarrow> None
           | Some (err, st', f', c') \<Rightarrow>
               Some (err, f'\<lparr>fd_settings := (fd_settings f')\<lparr>ss_S := Some st'\<rparr>\<rparr>, c')))"

fun feed_read ::
  "codec \<Rightarrow> (reader \<Rightarrow> nat \<Rightarrow> time) \<Rightarrow> db \<Rightarrow> reader \<Rightarrow> Feed \<times> nat \<Rightarrow> (error option \<times> Feed \<times> nat) option" where
  "feed_read pb now d FifoDelivered (f, c) =
     (if \<not> delivered_Ready (now FifoDelivered 0) (fd_fifoDelivered f) then Some (None, f, c)
      else Some (None, f\<lparr>fd_fifoDelivered := delivered_Read (now FifoDelivered 1) (fd_fifoDelivered f),
                         fd_started := fd_started f @ [FifoDelivered]\<rparr>, c))"
| "feed_read pb now d SchedDelivered (f, c) =
     (if \<not> delivered_Ready (now SchedDelivered 0) (fd_schedDelivered f) then Some (None, f, c)
      else Some (None, f\<lparr>fd_schedDelivered := delivered_Read (now SchedDelivered 1) (fd_schedDelivered f),
                         fd_started := fd_started f @ [SchedDelivered]\<rparr>, c))"
| "feed_read pb now d FifoUndelivered (f, c) =
     (if \<not> undelivered_Ready then Some (None, f, c)
      else read_undelivered pb fifoUndelivered_Query fifoCheckpointer_Set (now FifoUndelivered 0) d (f, c))"
| "feed_read pb now d SchedUndelivered (f, c) =
     (if \<not> undelivered_Ready then Some (None, f, c)
      else read_undelivered pb schedUndelivered_Query schedCheckpointer_Set (now SchedUndelivered 0) d (f, c))"

fun pull_loop ::
  "codec \<Rightarrow> (reader \<Rightarrow> nat \<Rightarrow> time) \<Rightarrow> db \<Rightarrow> reader list \<Rightarrow> Feed \<times> nat \<Rightarrow> (nat \<times> error option \<times> Feed) option" where
  "pull_loop pb now d [] fc = Some (snd fc, None, fst fc)"
| "pull_loop pb now d (r # rs) fc =
     (case feed_read pb now d r fc of
        None \<Rightarrow> None
      | Some (Some e, f', c') \<Rightarrow> Some (c', Some e, f')
      | Some (None, f', c') \<Rightarrow> pull_loop pb now d rs (f', c'))"

definition pullAndPush :: "codec \<Rightarrow> (reader \<Rightarrow> nat \<Rightarrow> time) \<Rightarrow> db \<Rightarrow> Feed \<Rightarrow> (nat \<times> error option \<times> Feed) option" where
  "pullAndPush pb now d f = pull_loop pb now d Readers (f, 0)"

text \<open>
  The loop of \<^verbatim>\<open>startFeed\<close>, with the clock and the database that each round finds. The result says whether the loop has ended, which closes the
  channel, and how long the loop slept after each round, in milliseconds.
\<close>

fun startFeed :: "codec \<Rightarrow> ((reader \<Rightarrow> nat \<Rightarrow> time) \<times> db) list \<Rightarrow> Feed \<Rightarrow> (bool \<times> nat list \<times> Feed) option" where
  "startFeed pb [] f = Some (False, [], f)"
| "startFeed pb ((now, d) # es) f =
     (if fd_ctx f = Some 0 then Some (True, [], f)
      else case pullAndPush pb now d f of
             None \<Rightarrow> None
           | Some (pushCount, err, f') \<Rightarrow>
               (case startFeed pb es f' of
                  None \<Rightarrow> None
                | Some (closed, sleeps, f'') \<Rightarrow>
                    Some (closed, (if err \<noteq> None then [1000] else if pushCount = 0 then [5] else []) @ sleeps, f'')))"

text \<open>The context of the feed is cancelled, then the settings are saved a last time.\<close>

definition Feed_Close ::
  "codec \<Rightarrow> (bytes \<Rightarrow> 'w \<Rightarrow> error option \<times> 'w) \<Rightarrow> Feed \<Rightarrow> 'w \<Rightarrow> error option \<times> Feed \<times> 'w" where
  "Feed_Close pb raft_Apply f w =
     (case ss_Close pb raft_Apply (fd_settings f) w of
        (Some e, s', w') \<Rightarrow> (Some (EWrap ''failed to close feed for queue'' e), f\<lparr>fd_ctx := Some 0, fd_settings := s'\<rparr>, w')
      | (None, s', w') \<Rightarrow> (None, f\<lparr>fd_ctx := Some 0, fd_settings := s'\<rparr>, w'))"

text \<open>A running feed with the given settings.\<close>

definition sample_feed :: "QueueConfig \<Rightarrow> Feed" where
  "sample_feed st =
     \<lparr>fd_settings = (NewSyncedSettings (qc_id st))\<lparr>ss_S := Some st\<rparr>, fd_feed = [], fd_ctx = None,
      fd_fifoDelivered = newDeliveredReader redeliveryInterval,
      fd_schedDelivered = newDeliveredReader redeliveryInterval, fd_started = []\<rparr>"

section \<open>Pushing\<close>

text \<open>What a context lets through of a list of tasks, and what is left of it.\<close>

definition allowed :: "nat option \<Rightarrow> Task list \<Rightarrow> Task list" where
  "allowed ctx ts = (case ctx of None \<Rightarrow> ts | Some k \<Rightarrow> take k ts)"

definition ctx_after :: "nat option \<Rightarrow> Task list \<Rightarrow> nat option" where
  "ctx_after ctx ts = map_option (\<lambda>k. k - length ts) ctx"

lemma run_push_count:
  "run_handler push_count (f, c) ts =
     (if allowed (fd_ctx f) ts = ts then None else Some EOF, allowed (fd_ctx f) ts,
      (f\<lparr>fd_feed := fd_feed f @ allowed (fd_ctx f) ts, fd_ctx := ctx_after (fd_ctx f) ts\<rparr>,
       c + length (allowed (fd_ctx f) ts)))"
proof (induction ts arbitrary: f c)
  case Nil
  show ?case by (cases f) (simp add: allowed_def ctx_after_def option.map_ident split: option.splits)
next
  case (Cons t ts)
  show ?case
  proof (cases "fd_ctx f")
    case None
    with Cons show ?thesis by (simp add: push_count_def feed_push_def allowed_def ctx_after_def)
  next
    case (Some k)
    with Cons show ?thesis
      by (cases k) (auto simp: push_count_def feed_push_def allowed_def ctx_after_def)
  qed
qed

text \<open>Each reader moves its own checkpoint only.\<close>

lemma checkpoints_apart:
  "schedUndelivered_Query now (fifoCheckpointer_Set st t) = schedUndelivered_Query now st"
  "fifoUndelivered_Query now (schedCheckpointer_Set st t) = fifoUndelivered_Query now st"
  by (auto simp: undelivered_query_defs split: option.splits)

lemma foldl_checkpoints_apart:
  "schedUndelivered_Query now (foldl fifoCheckpointer_Set st ts) = schedUndelivered_Query now st"
  "fifoUndelivered_Query now (foldl schedCheckpointer_Set st ts) = fifoUndelivered_Query now st"
  by (induction ts arbitrary: st) (simp_all add: checkpoints_apart)

section \<open>One round\<close>

text \<open>
  What a reader of new tasks does for a feed: it pushes what the context lets through of the pending tasks, in order, and
  moves the checkpoint over them.
\<close>

context resumable
begin

lemma read_feed:
  assumes d: "db_ok d" "tasks_wf pb d" "\<forall>t \<in> stored_tasks pb d. plain_queue (task_queue t) \<and> task_ok t"
    and st: "plain_queue (qc_id st)" "settings_ok st" and f: "ss_S (fd_settings f) = Some st"
  obtains ts xs where "set ts = pending qf now st pb d" "sorted_wrt before ts" "xs = allowed (fd_ctx f) ts"
    "read_undelivered pb qf check now d (f, c) =
       Some (None, f\<lparr>fd_feed := fd_feed f @ xs, fd_ctx := ctx_after (fd_ctx f) ts,
                     fd_settings := (fd_settings f)\<lparr>ss_S := Some (foldl check st xs)\<rparr>\<rparr>, c + length xs)"
    "\<And>now'. pending qf now' (foldl check st xs) pb d = pending qf now' st pb d - set xs"
proof -
  obtain q ts r xs s' where q: "qf now st = Some q" "set ts = {t \<in> stored_tasks pb d. in_range q t}"
    "sorted_wrt before ts" "run_handler push_count (f, c) ts = (r, xs, s')"
    "undelivered_Read pb qf check now d push_count st (f, c)
      = Some (if r = Some EOF then None else r, foldl check st xs, s')"
    "settings_ok (foldl check st xs)"
    and left: "\<And>now' p p'. qf now' st = Some p \<Longrightarrow> qf now' (foldl check st xs) = Some p' \<Longrightarrow>
       {u \<in> stored_tasks pb d. in_range p' u} = {u \<in> stored_tasks pb d. in_range p u} - set xs"
    using read_resumes [OF d st, of now push_count "(f, c)"] by blast
  have "pending qf now' (foldl check st xs) pb d = pending qf now' st pb d - set xs" for now'
  proof -
    obtain p p' where p: "qf now' st = Some p" "qf now' (foldl check st xs) = Some p'"
      using qf_total [OF st(2)] qf_total [OF q(6)] by blast
    show ?thesis unfolding pending_def p option.case by (rule left [OF p])
  qed
  moreover have "set ts = pending qf now st pb d" by (simp add: pending_def q(1,2))
  moreover have "xs = allowed (fd_ctx f) ts" using q(4) by (simp add: run_push_count)
  moreover have "read_undelivered pb qf check now d (f, c) =
       Some (None, f\<lparr>fd_feed := fd_feed f @ xs, fd_ctx := ctx_after (fd_ctx f) ts,
                     fd_settings := (fd_settings f)\<lparr>ss_S := Some (foldl check st xs)\<rparr>\<rparr>, c + length xs)"
    using q(4,5) f by (auto simp: run_push_count read_undelivered_def split: if_splits)
  ultimately show ?thesis using q(3) that by blast
qed

end

lemma allowed_append: "allowed ctx (xs @ ys) = allowed ctx xs @ allowed (ctx_after ctx xs) ys"
  by (simp add: allowed_def ctx_after_def split: option.splits)

lemma set_allowed_subset: "set (allowed ctx ts) \<subseteq> set ts"
  by (auto simp: allowed_def dest: in_set_takeD split: option.splits)

lemma pending_kind:
  "t \<in> pending fifoUndelivered_Query now st pb d \<Longrightarrow> schedule_time t = None"
  "t \<in> pending schedUndelivered_Query now st pb d \<Longrightarrow> schedule_time t \<noteq> None"
  by (auto simp: pending_def undelivered_query_defs split: option.splits)

lemma pending_apart:
  "pending fifoUndelivered_Query now (foldl schedCheckpointer_Set st ts) pb d = pending fifoUndelivered_Query now st pb d"
  "pending schedUndelivered_Query now (foldl fifoCheckpointer_Set st ts) pb d = pending schedUndelivered_Query now st pb d"
  by (simp_all add: pending_def foldl_checkpoints_apart)

lemma foldl_fifoCheckpointer [simp]:
  "qc_id (foldl fifoCheckpointer_Set st ts) = qc_id st"
  "sched_settings_ok (foldl fifoCheckpointer_Set st ts) = sched_settings_ok st"
  by (induction ts arbitrary: st) (simp_all add: fifoCheckpointer_Set_def sched_settings_ok_def)

text \<open>The readers of delivered tasks only start goroutines.\<close>

lemma delivered_readers:
  obtains f1 where "feed_read pb now d FifoDelivered (f, c) = Some (None, f1, c)"
    "\<And>c'. \<exists>f2. feed_read pb now d SchedDelivered (f1, c') = Some (None, f2, c') \<and>
       fd_settings f2 = fd_settings f \<and> fd_feed f2 = fd_feed f \<and> fd_ctx f2 = fd_ctx f"
  by (cases "delivered_Ready (now FifoDelivered 0) (fd_fifoDelivered f)") fastforce+

text \<open>The readers of new tasks, one after the other.\<close>

lemma undelivered_readers:
  assumes d: "db_ok d" "tasks_wf pb d" "\<forall>t \<in> stored_tasks pb d. plain_queue (task_queue t) \<and> checkpoint_ok t"
    and st: "plain_queue (qc_id st)" "fifo_settings_ok st" "sched_settings_ok st" "ss_S (fd_settings f) = Some st"
  obtains fs ss xs ys f' where
    "set fs = pending fifoUndelivered_Query (now FifoUndelivered 0) st pb d" "sorted_wrt index_less fs"
    "set ss = pending schedUndelivered_Query (now SchedUndelivered 0) st pb d" "sorted_wrt id_less ss"
    "xs = allowed (fd_ctx f) fs" "ys = allowed (ctx_after (fd_ctx f) fs) ss"
    "pull_loop pb now d [FifoUndelivered, SchedUndelivered] (f, 0) = Some (length (xs @ ys), None, f')"
    "fd_feed f' = fd_feed f @ xs @ ys"
    "ss_S (fd_settings f') = Some (foldl schedCheckpointer_Set (foldl fifoCheckpointer_Set st xs) ys)"
    "\<And>t. pending fifoUndelivered_Query t (foldl fifoCheckpointer_Set st xs) pb d = pending fifoUndelivered_Query t st pb d - set xs"
    "\<And>t. pending schedUndelivered_Query t (foldl schedCheckpointer_Set (foldl fifoCheckpointer_Set st xs) ys) pb d
       = pending schedUndelivered_Query t st pb d - set ys"
proof -
  obtain fs xs where fs: "set fs = pending fifoUndelivered_Query (now FifoUndelivered 0) st pb d" "sorted_wrt index_less fs"
      "xs = allowed (fd_ctx f) fs"
      "read_undelivered pb fifoUndelivered_Query fifoCheckpointer_Set (now FifoUndelivered 0) d (f, 0) =
         Some (None, f\<lparr>fd_feed := fd_feed f @ xs, fd_ctx := ctx_after (fd_ctx f) fs,
                     fd_settings := (fd_settings f)\<lparr>ss_S := Some (foldl fifoCheckpointer_Set st xs)\<rparr>\<rparr>, 0 + length xs)"
      "\<And>t. pending fifoUndelivered_Query t (foldl fifoCheckpointer_Set st xs) pb d = pending fifoUndelivered_Query t st pb d - set xs"
    using fifo_reader.read_feed [OF d st(1,2,4)] by blast
  define f3 where "f3 = f\<lparr>fd_feed := fd_feed f @ xs, fd_ctx := ctx_after (fd_ctx f) fs,
                     fd_settings := (fd_settings f)\<lparr>ss_S := Some (foldl fifoCheckpointer_Set st xs)\<rparr>\<rparr>"
  let ?st = "foldl fifoCheckpointer_Set st xs"
  have st': "plain_queue (qc_id ?st)" "sched_settings_ok ?st" "ss_S (fd_settings f3) = Some ?st"
    using st by (simp_all add: f3_def)
  obtain ss ys where ss: "set ss = pending schedUndelivered_Query (now SchedUndelivered 0) ?st pb d" "sorted_wrt id_less ss"
      "ys = allowed (fd_ctx f3) ss"
      "read_undelivered pb schedUndelivered_Query schedCheckpointer_Set (now SchedUndelivered 0) d (f3, length xs) =
         Some (None, f3\<lparr>fd_feed := fd_feed f3 @ ys, fd_ctx := ctx_after (fd_ctx f3) ss,
                     fd_settings := (fd_settings f3)\<lparr>ss_S := Some (foldl schedCheckpointer_Set ?st ys)\<rparr>\<rparr>, length xs + length ys)"
      "\<And>t. pending schedUndelivered_Query t (foldl schedCheckpointer_Set ?st ys) pb d = pending schedUndelivered_Query t ?st pb d - set ys"
    using sched_reader.read_feed [OF d st'] by blast
  show ?thesis
    using fs(4) ss(3,4)
    by (intro that [OF fs(1,2) ss(1) [unfolded pending_apart] ss(2) fs(3) _ _ _ _ fs(5) ss(5) [unfolded pending_apart]])
      (simp_all add: undelivered_Ready_def f3_def [symmetric], simp_all add: f3_def)
qed

text \<open>All readers.\<close>

lemma pullAndPush_round:
  assumes d: "db_ok d" "tasks_wf pb d" "\<forall>t \<in> stored_tasks pb d. plain_queue (task_queue t) \<and> checkpoint_ok t"
    and st: "plain_queue (qc_id st)" "fifo_settings_ok st" "sched_settings_ok st" "ss_S (fd_settings f) = Some st"
  obtains fs ss xs ys f' where
    "set fs = pending fifoUndelivered_Query (now FifoUndelivered 0) st pb d" "sorted_wrt index_less fs"
    "set ss = pending schedUndelivered_Query (now SchedUndelivered 0) st pb d" "sorted_wrt id_less ss"
    "xs = allowed (fd_ctx f) fs" "ys = allowed (ctx_after (fd_ctx f) fs) ss"
    "pullAndPush pb now d f = Some (length (xs @ ys), None, f')" "fd_feed f' = fd_feed f @ xs @ ys"
    "ss_S (fd_settings f') = Some (foldl schedCheckpointer_Set (foldl fifoCheckpointer_Set st xs) ys)"
    "\<And>t. pending fifoUndelivered_Query t (foldl schedCheckpointer_Set (foldl fifoCheckpointer_Set st xs) ys) pb d
      = pending fifoUndelivered_Query t st pb d - set (xs @ ys)"
    "\<And>t. pending schedUndelivered_Query t (foldl schedCheckpointer_Set (foldl fifoCheckpointer_Set st xs) ys) pb d
      = pending schedUndelivered_Query t st pb d - set (xs @ ys)"
proof -
  obtain f1 f2 where f: "feed_read pb now d FifoDelivered (f, 0) = Some (None, f1, 0)"
      "feed_read pb now d SchedDelivered (f1, 0) = Some (None, f2, 0)"
      "fd_settings f2 = fd_settings f" "fd_feed f2 = fd_feed f" "fd_ctx f2 = fd_ctx f"
    by (metis delivered_readers)
  from f(3) st(4) have s2: "ss_S (fd_settings f2) = Some st" by simp
  obtain fs ss xs ys f' where
    r: "set fs = pending fifoUndelivered_Query (now FifoUndelivered 0) st pb d" "sorted_wrt index_less fs"
    "set ss = pending schedUndelivered_Query (now SchedUndelivered 0) st pb d" "sorted_wrt id_less ss"
    "xs = allowed (fd_ctx f2) fs" "ys = allowed (ctx_after (fd_ctx f2) fs) ss"
    "pull_loop pb now d [FifoUndelivered, SchedUndelivered] (f2, 0) = Some (length (xs @ ys), None, f')"
    "fd_feed f' = fd_feed f2 @ xs @ ys"
    "ss_S (fd_settings f') = Some (foldl schedCheckpointer_Set (foldl fifoCheckpointer_Set st xs) ys)"
    and left: "\<And>t. pending fifoUndelivered_Query t (foldl fifoCheckpointer_Set st xs) pb d = pending fifoUndelivered_Query t st pb d - set xs"
    "\<And>t. pending schedUndelivered_Query t (foldl schedCheckpointer_Set (foldl fifoCheckpointer_Set st xs) ys) pb d
       = pending schedUndelivered_Query t st pb d - set ys"
    using undelivered_readers [OF d st(1-3) s2, of now] by blast
  have "\<forall>t \<in> set xs. schedule_time t = None" "\<forall>t \<in> set ys. schedule_time t \<noteq> None"
    using set_allowed_subset r(1,3,5,6) pending_kind by blast+
  then have p: "pending fifoUndelivered_Query t (foldl schedCheckpointer_Set (foldl fifoCheckpointer_Set st xs) ys) pb d
      = pending fifoUndelivered_Query t st pb d - set (xs @ ys) \<and>
     pending schedUndelivered_Query t (foldl schedCheckpointer_Set (foldl fifoCheckpointer_Set st xs) ys) pb d
      = pending schedUndelivered_Query t st pb d - set (xs @ ys)" for t
    using left [of t] pending_kind unfolding pending_apart by fastforce
  have "pullAndPush pb now d f = Some (length (xs @ ys), None, f')"
    using f(1,2) r(7) by (simp add: pullAndPush_def Readers_def)
  with r(1-6,8,9) f(4,5) p show ?thesis by (intro that [of fs ss xs ys f']) simp_all
qed

text \<open>C14. One round of a feed: it pushes the pending FIFO tasks in the order of their indexes, then the scheduled tasks that are
  due in the order of time and index, as many of these as the context lets through, and reports their number. After
  it, at any time, what is pending is what was pending without the tasks pushed.\<close>

theorem pullAndPush_delivers:
  assumes d: "db_ok d" "tasks_wf pb d" "\<forall>t \<in> stored_tasks pb d. plain_queue (task_queue t) \<and> checkpoint_ok t"
    and st: "plain_queue (qc_id st)" "fifo_settings_ok st" "sched_settings_ok st" "ss_S (fd_settings f) = Some st"
  shows "\<exists>fs ss f' st'.
    set fs = pending fifoUndelivered_Query (now FifoUndelivered 0) st pb d \<and> sorted_wrt index_less fs \<and>
    set ss = pending schedUndelivered_Query (now SchedUndelivered 0) st pb d \<and> sorted_wrt id_less ss \<and>
    (let pushed = allowed (fd_ctx f) (fs @ ss)
     in pullAndPush pb now d f = Some (length pushed, None, f') \<and> fd_feed f' = fd_feed f @ pushed \<and>
        ss_S (fd_settings f') = Some st' \<and>
        (\<forall>t. pending fifoUndelivered_Query t st' pb d = pending fifoUndelivered_Query t st pb d - set pushed \<and>
             pending schedUndelivered_Query t st' pb d = pending schedUndelivered_Query t st pb d - set pushed))"
proof -
  obtain fs ss xs ys f' where r:
    "set fs = pending fifoUndelivered_Query (now FifoUndelivered 0) st pb d" "sorted_wrt index_less fs"
    "set ss = pending schedUndelivered_Query (now SchedUndelivered 0) st pb d" "sorted_wrt id_less ss"
    "xs = allowed (fd_ctx f) fs" "ys = allowed (ctx_after (fd_ctx f) fs) ss"
    "pullAndPush pb now d f = Some (length (xs @ ys), None, f')" "fd_feed f' = fd_feed f @ xs @ ys"
    "ss_S (fd_settings f') = Some (foldl schedCheckpointer_Set (foldl fifoCheckpointer_Set st xs) ys)"
    and left: "\<And>t. pending fifoUndelivered_Query t (foldl schedCheckpointer_Set (foldl fifoCheckpointer_Set st xs) ys) pb d
      = pending fifoUndelivered_Query t st pb d - set (xs @ ys)"
    "\<And>t. pending schedUndelivered_Query t (foldl schedCheckpointer_Set (foldl fifoCheckpointer_Set st xs) ys) pb d
      = pending schedUndelivered_Query t st pb d - set (xs @ ys)"
    using pullAndPush_round [OF d st, of now] by blast
  have "allowed (fd_ctx f) (fs @ ss) = xs @ ys" using r(5,6) by (simp add: allowed_append)
  with r(1-4,7-9) left show ?thesis
    by - (rule exI [of _ fs], rule exI [of _ ss], rule exI [of _ f'], simp add: Let_def)
qed

theorem pullAndPush_delivers_witness:
  "\<exists>f'. pullAndPush wire_codec (\<lambda>_ _. zero_time)
      \<lparr>db_kv = [(getFifoTaskKey ''q'' (iden_New zero_time 3), enc_task (fifo_sample ''q'' 3))], db_faults = []\<rparr>
      (sample_feed (sample_settings ''q'' (iden_New zero_time 2) iden_Min)) = Some (1, None, f') \<and>
     fd_feed f' = [fifo_sample ''q'' 3]"
proof -
  let ?st = "sample_settings ''q'' (iden_New zero_time 2) iden_Min"
  let ?d = "\<lparr>db_kv = [(getFifoTaskKey ''q'' (iden_New zero_time 3), enc_task (fifo_sample ''q'' 3))], db_faults = []\<rparr>"
  have st: "plain_queue (qc_id ?st)" "fifo_settings_ok ?st" "sched_settings_ok ?st" "ss_S (fd_settings (sample_feed ?st)) = Some ?st"
    by (simp_all add: sample_settings_def plain_queue_def fifo_settings_ok_def sched_settings_ok_def sample_feed_def)
  obtain fs ss f' st' where r:
    "set fs = pending fifoUndelivered_Query zero_time ?st wire_codec ?d" "sorted_wrt index_less fs"
    "set ss = pending schedUndelivered_Query zero_time ?st wire_codec ?d"
    "let pushed = allowed (fd_ctx (sample_feed ?st)) (fs @ ss)
     in pullAndPush wire_codec (\<lambda>_ _. zero_time) ?d (sample_feed ?st) = Some (length pushed, None, f') \<and>
        fd_feed f' = fd_feed (sample_feed ?st) @ pushed \<and>
        ss_S (fd_settings f') = Some st' \<and>
        (\<forall>t. pending fifoUndelivered_Query t st' wire_codec ?d = pending fifoUndelivered_Query t ?st wire_codec ?d - set pushed \<and>
             pending schedUndelivered_Query t st' wire_codec ?d = pending schedUndelivered_Query t ?st wire_codec ?d - set pushed)"
    using pullAndPush_delivers [OF sample_db(1,2) sample_db_ok st, of "\<lambda>_ _. zero_time"] by blast
  have "set fs = {fifo_sample ''q'' 3}"
    unfolding r(1) pending_def sample_db(3) by (auto simp: fifoUndelivered_Query_def sample_settings_def task_tid_def)
  moreover have "t \<notin> set ss" for t
  proof
    assume "t \<in> set ss"
    then have "schedule_time t \<noteq> None" "t = fifo_sample ''q'' 3"
      unfolding r(3) by (rule pending_kind(2), simp add: pending_def sample_db(3))
    then show False by simp
  qed
  then have "ss = []" by (cases ss) auto
  moreover from r(2) have "distinct fs" by (rule sorted_wrt_distinct) (simp add: index_less_def)
  ultimately have "fs @ ss = [fifo_sample ''q'' 3]" by (simp add: distinct_singleton)
  with r(4) show ?thesis by (auto simp: sample_feed_def allowed_def Let_def)
qed

end
