(* ===== verification/Lease_Manager.thy ===== *)
theory Lease_Manager
  imports Feed "HOL-Library.Multiset"
begin

text \<open>
  \<^verbatim>\<open>src/feeds/lease.go\<close> and \<^verbatim>\<open>src/feeds/manager.go\<close>: clients share the feed of a queue by leases; the
  manager creates the feed for the first lease and closes it after the last.

  Lease holders and leases are objects that are shared by reference, so the state has a heap of holders, addressed
  by numbers, and a lease is a number as well, both taken from one counter. The operations run on
  several goroutines: \<^verbatim>\<open>Lease\<close>, \<^verbatim>\<open>cleanUpLeases\<close> and \<^verbatim>\<open>Close\<close> of the manager hold its mutex, while a release first
  removes the lease, under the mutex of the holder only, and then calls the clean-up. The relation \<open>mgr_step\<close> has these
  critical sections as its steps, with the clean-ups that are still to come, beside the rounds of the feeds, the
  timers of their settings and whatever other parts do to the database.
\<close>

section \<open>Lease holders\<close>

record leaseHolder =
  lh_F :: Feed
  lh_leases :: "nat list"
  lh_queue :: string

record Lease =
  le_id :: nat
  le_feed :: nat

record 'w Manager =
  qm_leases :: "string \<Rightarrow> nat option"
  qm_heap :: "nat \<Rightarrow> leaseHolder option"
  qm_fresh :: nat
  qm_db :: db
  qm_raft :: 'w

definition newLeaseHolder ::
  "codec \<Rightarrow> (bytes \<Rightarrow> 'w \<Rightarrow> error option \<times> 'w) \<Rightarrow> string \<Rightarrow> db \<Rightarrow> 'w \<Rightarrow> (error + leaseHolder) \<times> db \<times> 'w" where
  "newLeaseHolder pb raft_Apply queue d w =
     (case Feed_New pb raft_Apply queue d w of
        (Inl err, d', w') \<Rightarrow> (Inl (EWrap ''lease creation failed'' err), d', w')
      | (Inr feed, d', w') \<Rightarrow> (Inr \<lparr>lh_F = feed, lh_leases = [], lh_queue = queue\<rparr>, d', w'))"

text \<open>\<^verbatim>\<open>Get\<close> of the holder at address \<open>a\<close>.\<close>

definition lh_Get :: "nat \<Rightarrow> 'w Manager \<Rightarrow> Lease \<times> 'w Manager" where
  "lh_Get a m =
     (let lease = qm_fresh m
      in (\<lparr>le_id = lease, le_feed = a\<rparr>,
          m\<lparr>qm_fresh := lease + 1,
            qm_heap := (qm_heap m)(a := map_option (\<lambda>h. h\<lparr>lh_leases := lease # lh_leases h\<rparr>) (qm_heap m a))\<rparr>))"

definition ActiveCount :: "leaseHolder \<Rightarrow> nat" where
  "ActiveCount h = length (lh_leases h)"

definition lh_Close ::
  "codec \<Rightarrow> (bytes \<Rightarrow> 'w \<Rightarrow> error option \<times> 'w) \<Rightarrow> leaseHolder \<Rightarrow> 'w \<Rightarrow> error option \<times> leaseHolder \<times> 'w" where
  "lh_Close pb raft_Apply h w =
     (case Feed_Close pb raft_Apply (lh_F h) w of
        (err, f', w') \<Rightarrow> (err, h\<lparr>lh_leases := [], lh_F := f'\<rparr>, w'))"

section \<open>The manager\<close>

definition NewManager :: "db \<Rightarrow> 'w \<Rightarrow> 'w Manager" where
  "NewManager d w = \<lparr>qm_leases = (\<lambda>_. None), qm_heap = (\<lambda>_. None), qm_fresh = 0, qm_db = d, qm_raft = w\<rparr>"

definition Manager_Lease ::
  "codec \<Rightarrow> (bytes \<Rightarrow> 'w \<Rightarrow> error option \<times> 'w) \<Rightarrow> string \<Rightarrow> 'w Manager \<Rightarrow> (error + Lease) \<times> 'w Manager" where
  "Manager_Lease pb raft_Apply queue m =
     (case qm_leases m queue of
        Some a \<Rightarrow> (case lh_Get a m of (lease, m') \<Rightarrow> (Inr lease, m'))
      | None \<Rightarrow>
          (case newLeaseHolder pb raft_Apply queue (qm_db m) (qm_raft m) of
             (Inl err, d', w') \<Rightarrow>
               (Inl (EWrap ''failed to acquire lease for queue'' err), m\<lparr>qm_db := d', qm_raft := w'\<rparr>)
           | (Inr h, d', w') \<Rightarrow>
               (let a = qm_fresh m;
                    m' = m\<lparr>qm_db := d', qm_raft := w', qm_fresh := a + 1, qm_heap := (qm_heap m)(a \<mapsto> h),
                           qm_leases := (qm_leases m)(queue \<mapsto> a)\<rparr>
                in case lh_Get a m' of (lease, m'') \<Rightarrow> (Inr lease, m''))))"

definition cleanUpLeases ::
  "codec \<Rightarrow> (bytes \<Rightarrow> 'w \<Rightarrow> error option \<times> 'w) \<Rightarrow> string \<Rightarrow> 'w Manager \<Rightarrow> 'w Manager" where
  "cleanUpLeases pb raft_Apply queue m =
     (case qm_leases m queue of
        None \<Rightarrow> m
      | Some a \<Rightarrow>
          (case qm_heap m a of
             None \<Rightarrow> m
           | Some h \<Rightarrow>
               (if ActiveCount h > 0 then m
                else case lh_Close pb raft_Apply h (qm_raft m) of
                       (Some err, h', w') \<Rightarrow> m\<lparr>qm_heap := (qm_heap m)(a \<mapsto> h'), qm_raft := w'\<rparr>
                     | (None, h', w') \<Rightarrow>
                         m\<lparr>qm_heap := (qm_heap m)(a \<mapsto> h'), qm_raft := w', qm_leases := (qm_leases m)(queue := None)\<rparr>)))"

text \<open>The two parts of \<^verbatim>\<open>remove\<close>: the lease is taken out, then the manager is told.\<close>

definition lh_delete :: "Lease \<Rightarrow> 'w Manager \<Rightarrow> 'w Manager" where
  "lh_delete l m =
     m\<lparr>qm_heap := (qm_heap m)(le_feed l := map_option (\<lambda>h. h\<lparr>lh_leases := removeAll (le_id l) (lh_leases h)\<rparr>) (qm_heap m (le_feed l)))\<rparr>"

definition Lease_Release ::
  "codec \<Rightarrow> (bytes \<Rightarrow> 'w \<Rightarrow> error option \<times> 'w) \<Rightarrow> Lease \<Rightarrow> 'w Manager \<Rightarrow> 'w Manager" where
  "Lease_Release pb raft_Apply l m =
     (case qm_heap m (le_feed l) of
        None \<Rightarrow> m
      | Some h \<Rightarrow> cleanUpLeases pb raft_Apply (lh_queue h) (lh_delete l m))"

definition Lease_Feed :: "Lease \<Rightarrow> 'w Manager \<Rightarrow> Feed option" where
  "Lease_Feed l m = map_option lh_F (qm_heap m (le_feed l))"

text \<open>\<^verbatim>\<open>Tasks\<close>; the handler is given the lease whose feed it reads, and runs on the state of the manager.\<close>

definition Manager_Tasks ::
  "codec \<Rightarrow> (bytes \<Rightarrow> 'w \<Rightarrow> error option \<times> 'w) \<Rightarrow> string \<Rightarrow> (Lease \<Rightarrow> 'w Manager \<Rightarrow> error option \<times> 'w Manager) \<Rightarrow>
     'w Manager \<Rightarrow> error option \<times> 'w Manager" where
  "Manager_Tasks pb raft_Apply queue handle m =
     (case Manager_Lease pb raft_Apply queue m of
        (Inl err, m') \<Rightarrow> (Some err, m')
      | (Inr lease, m') \<Rightarrow>
          (case handle lease m' of (r, m'') \<Rightarrow> (r, Lease_Release pb raft_Apply lease m'')))"

text \<open>\<^verbatim>\<open>Close\<close>: Go iterates over the map in an order that is not specified, here the argument \<open>order\<close>.\<close>

primrec Manager_Close ::
  "codec \<Rightarrow> (bytes \<Rightarrow> 'w \<Rightarrow> error option \<times> 'w) \<Rightarrow> string list \<Rightarrow> 'w Manager \<Rightarrow> error option list \<times> 'w Manager" where
  "Manager_Close pb raft_Apply [] m = ([], m)"
| "Manager_Close pb raft_Apply (q # qs) m =
     (case qm_leases m q of
        None \<Rightarrow> Manager_Close pb raft_Apply qs m
      | Some a \<Rightarrow>
          (case qm_heap m a of
             None \<Rightarrow> Manager_Close pb raft_Apply qs m
           | Some h \<Rightarrow>
               (case lh_Close pb raft_Apply h (qm_raft m) of
                  (err, h', w') \<Rightarrow>
                    (case Manager_Close pb raft_Apply qs
                            (m\<lparr>qm_heap := (qm_heap m)(a \<mapsto> h'), qm_raft := w', qm_leases := (qm_leases m)(q := None)\<rparr>) of
                       (errs, m') \<Rightarrow> (err # errs, m')))))"

section \<open>Interleavings\<close>

text \<open>A state of the system: the manager, and the clean-ups that releases have still to do.\<close>

type_synonym 'w mgr_state = "'w Manager \<times> string multiset"

inductive mgr_step ::
  "codec \<Rightarrow> (bytes \<Rightarrow> 'w \<Rightarrow> error option \<times> 'w) \<Rightarrow> 'w mgr_state \<Rightarrow> 'w mgr_state \<Rightarrow> bool" for pb raft_Apply where
  lease: "mgr_step pb raft_Apply (m, P) (snd (Manager_Lease pb raft_Apply q m), P)"
| release: "qm_heap m (le_feed l) = Some h \<Longrightarrow> mgr_step pb raft_Apply (m, P) (lh_delete l m, add_mset (lh_queue h) P)"
| clean_up: "mgr_step pb raft_Apply (m, add_mset q P) (cleanUpLeases pb raft_Apply q m, P)"
| close_all: "dom (qm_leases m) \<subseteq> set order \<Longrightarrow>
    mgr_step pb raft_Apply (m, P) (snd (Manager_Close pb raft_Apply order m), P)"
| round: "qm_heap m a = Some h \<Longrightarrow> pullAndPush pb now d (lh_F h) = Some (n, e, f') \<Longrightarrow>
    mgr_step pb raft_Apply (m, P) (m\<lparr>qm_heap := (qm_heap m)(a \<mapsto> h\<lparr>lh_F := f'\<rparr>)\<rparr>, P)"
| sync: "qm_heap m a = Some h \<Longrightarrow> startSync_tick pb raft_Apply (fd_settings (lh_F h)) (qm_raft m) = (s', w') \<Longrightarrow>
    mgr_step pb raft_Apply (m, P)
      (m\<lparr>qm_heap := (qm_heap m)(a \<mapsto> h\<lparr>lh_F := (lh_F h)\<lparr>fd_settings := s'\<rparr>\<rparr>), qm_raft := w'\<rparr>, P)"
| environment: "mgr_step pb raft_Apply (m, P) (m\<lparr>qm_db := d', qm_raft := w'\<rparr>, P)"

section \<open>Rounds leave the context as it is\<close>

lemma visit_invariant:
  assumes "\<And>s t. P s \<Longrightarrow> P (snd (h s t))" "P s"
  shows "P (snd (visit pb h es s))"
  using assms(2)
proof (induction es arbitrary: s)
  case (Cons e es)
  have "P s'" if "h s t = (r, s')" for t r s'
    using assms(1) [OF Cons.prems, of t] that by simp
  then show ?case using Cons by (auto split: sum.splits option.splits prod.splits)
qed simp

lemma ForEach_invariant:
  assumes "\<And>s t. P s \<Longrightarrow> P (snd (h s t))" "P s"
  shows "P (snd (ForEach pb h ti s))"
  by (cases ti) (simp add: ForEach_takeWhile visit_invariant [of P, OF assms])

lemma undelivered_Read_invariant:
  assumes "\<And>s t. P s \<Longrightarrow> P (snd (f s t))" "P s" "undelivered_Read pb qf check now d f st s = Some (e, st', s')"
  shows "P s'"
proof -
  have h: "P (snd (snd (undelivered_handle check f p t)))" if "P (snd p)" for p t
    using assms(1) [OF that, of t] by (auto simp: undelivered_handle_def split: prod.splits option.splits)
  have "P (snd (snd (ForEach pb (undelivered_handle check f) ti (st, s))))" for ti
    by (rule ForEach_invariant [of "\<lambda>p. P (snd p)"]) (simp_all add: h assms(2))
  then show ?thesis
    using assms(3) by (auto simp: undelivered_Read_def undelivered_executeQuery_def split: option.splits prod.splits)
      (metis snd_conv)+
qed

lemma feed_push_ctx: "c = None \<or> c = Some 0 \<Longrightarrow> fd_ctx f = c \<Longrightarrow> fd_ctx (snd (feed_push f t)) = c"
  by (auto simp: feed_push_def)

lemma push_count_ctx: "c = None \<or> c = Some 0 \<Longrightarrow> fd_ctx (fst fc) = c \<Longrightarrow> fd_ctx (fst (snd (push_count fc t))) = c"
  using feed_push_ctx [of c "fst fc" t] by (auto simp: push_count_def split: prod.splits option.splits)

lemma read_undelivered_ctx:
  assumes "c = None \<or> c = Some 0" "fd_ctx (fst fc) = c" "read_undelivered pb qf check now d fc = Some (e, f', n)"
  shows "fd_ctx f' = c"
  using assms(3) undelivered_Read_invariant [of "\<lambda>fc. fd_ctx (fst fc) = c" push_count fc] push_count_ctx [OF assms(1)] assms(2)
  by (auto simp: read_undelivered_def split: option.splits prod.splits)

lemma feed_read_ctx:
  assumes "c = None \<or> c = Some 0" "fd_ctx (fst fc) = c" "feed_read pb now d r fc = Some (e, f', n)"
  shows "fd_ctx f' = c"
  using assms(2,3) read_undelivered_ctx [OF assms(1,2)] by (cases r; cases fc) (auto split: if_splits)

lemma pull_loop_ctx:
  assumes "c = None \<or> c = Some 0"
  shows "fd_ctx (fst fc) = c \<Longrightarrow> pull_loop pb now d rs fc = Some (n, e, f') \<Longrightarrow> fd_ctx f' = c"
proof (induction rs arbitrary: fc)
  case (Cons r rs)
  then show ?case using feed_read_ctx [OF assms Cons.prems(1), of pb now d r]
    by (fastforce split: option.splits)
qed auto

lemma pullAndPush_ctx:
  "pullAndPush pb now d f = Some (n, e, f') \<Longrightarrow> fd_ctx f = None \<Longrightarrow> fd_ctx f' = None"
  "pullAndPush pb now d f = Some (n, e, f') \<Longrightarrow> fd_ctx f = Some 0 \<Longrightarrow> fd_ctx f' = Some 0"
  using pull_loop_ctx [of _ "(f, 0)" pb now d Readers n e f'] by (auto simp: pullAndPush_def)

section \<open>What the operations do\<close>

lemma Feed_New_ctx: "Feed_New pb raft q d w = (Inr f, d', w') \<Longrightarrow> fd_ctx f = None"
  by (auto simp: Feed_New_def split: prod.splits option.splits)

lemma Feed_Close_closed: "\<exists>s' w'. Feed_Close pb raft f w = (None, f\<lparr>fd_ctx := Some 0, fd_settings := s'\<rparr>, w')"
  by (auto simp: Feed_Close_def ss_Close_def split: prod.splits)

text \<open>What holds of a feed that the manager has closed.\<close>

definition lh_closed :: "leaseHolder \<Rightarrow> bool" where
  "lh_closed h \<longleftrightarrow> fd_ctx (lh_F h) = Some 0 \<and> lh_leases h = []"

lemma lh_CloseE:
  obtains h' w' where "lh_Close pb raft h w = (None, h', w')" "lh_closed h'" "lh_queue h' = lh_queue h"
  using Feed_Close_closed [of pb raft "lh_F h" w] by (auto simp: lh_Close_def lh_closed_def)

lemma newLeaseHolderE:
  assumes "newLeaseHolder pb raft q d w = (Inr h, d', w')"
  shows "lh_queue h = q" "fd_ctx (lh_F h) = None" "lh_leases h = []"
  using assms Feed_New_ctx by (auto simp: newLeaseHolder_def split: prod.splits sum.splits)

section \<open>The invariant\<close>

text \<open>
  Every entry of the map is an open feed of its queue, and if nobody has a lease on it, a clean-up is to come. Every
  other holder is closed and without leases.
\<close>

definition mgr_ok :: "'w Manager \<Rightarrow> string set \<Rightarrow> bool" where
  "mgr_ok m Q \<longleftrightarrow>
     (\<forall>q a. qm_leases m q = Some a \<longrightarrow>
        (\<exists>h. qm_heap m a = Some h \<and> lh_queue h = q \<and> fd_ctx (lh_F h) = None \<and> (lh_leases h = [] \<longrightarrow> q \<in> Q))) \<and>
     (\<forall>a h. qm_heap m a = Some h \<longrightarrow> a < qm_fresh m \<and> (\<forall>l \<in> set (lh_leases h). l < qm_fresh m) \<and>
        (qm_leases m (lh_queue h) = Some a \<or> lh_closed h))"

lemma mgr_okD:
  assumes "mgr_ok m Q"
  shows "qm_leases m q = Some a \<Longrightarrow>
      \<exists>h. qm_heap m a = Some h \<and> lh_queue h = q \<and> fd_ctx (lh_F h) = None \<and> (lh_leases h = [] \<longrightarrow> q \<in> Q)"
    and "qm_heap m a = Some h \<Longrightarrow> a < qm_fresh m"
    and "qm_heap m a = Some h \<Longrightarrow> l \<in> set (lh_leases h) \<Longrightarrow> l < qm_fresh m"
    and "qm_heap m a = Some h \<Longrightarrow> qm_leases m (lh_queue h) = Some a \<or> lh_closed h"
  using assms unfolding mgr_ok_def by blast+

lemma mgr_okI:
  assumes "\<And>q a. qm_leases m q = Some a \<Longrightarrow>
      \<exists>h. qm_heap m a = Some h \<and> lh_queue h = q \<and> fd_ctx (lh_F h) = None \<and> (lh_leases h = [] \<longrightarrow> q \<in> Q)"
    and "\<And>a h. qm_heap m a = Some h \<Longrightarrow> a < qm_fresh m \<and> (\<forall>l \<in> set (lh_leases h). l < qm_fresh m) \<and>
      (qm_leases m (lh_queue h) = Some a \<or> lh_closed h)"
  shows "mgr_ok m Q"
  using assms unfolding mgr_ok_def by blast

lemma mgr_ok_mono: "mgr_ok m Q \<Longrightarrow> Q \<subseteq> R \<Longrightarrow> mgr_ok m R"
  unfolding mgr_ok_def by blast

lemma mgr_ok_New: "mgr_ok (NewManager d w) Q"
  by (simp add: mgr_ok_def NewManager_def)

text \<open>The database and raft do not matter.\<close>

lemma mgr_ok_db [simp]: "mgr_ok (m\<lparr>qm_db := d\<rparr>) Q = mgr_ok m Q" "mgr_ok (m\<lparr>qm_raft := w\<rparr>) Q = mgr_ok m Q"
  by (simp_all add: mgr_ok_def)

lemma mgr_ok_raft: "mgr_ok m Q \<Longrightarrow> mgr_ok (m\<lparr>qm_raft := w\<rparr>) Q"
  by simp

text \<open>Changing a holder in place.\<close>

lemma mgr_ok_holder:
  assumes "mgr_ok m Q" "qm_heap m a = Some h" "lh_queue h' = lh_queue h" "fd_ctx (lh_F h') = fd_ctx (lh_F h)"
    and "set (lh_leases h') \<subseteq> set (lh_leases h)" "lh_leases h' = [] \<Longrightarrow> lh_leases h \<noteq> [] \<Longrightarrow> lh_queue h \<in> Q"
  shows "mgr_ok (m\<lparr>qm_heap := (qm_heap m)(a \<mapsto> h')\<rparr>) Q"
proof (rule mgr_okI, goal_cases)
  case (1 q b)
  with mgr_okD(1) [OF assms(1), of q b] show ?case using assms(2-4,6) by (cases "b = a") auto
next
  case (2 b g)
  then show ?case
    using mgr_okD(2-4) [OF assms(1), of b] mgr_okD(4) [OF assms(1,2)] assms(2-5)
    by (cases "b = a") (auto simp: lh_closed_def)
qed

lemma mgr_ok_close:
  assumes "mgr_ok m (insert q Q)" "qm_leases m q = Some a" "lh_queue h' = q" "lh_closed h'"
  shows "mgr_ok (m\<lparr>qm_heap := (qm_heap m)(a \<mapsto> h'), qm_raft := w', qm_leases := (qm_leases m)(q := None)\<rparr>) Q"
proof (rule mgr_okI, goal_cases)
  case (1 p b)
  then have "p \<noteq> q" "qm_leases m p = Some b" by (auto split: if_splits)
  with mgr_okD(1) [OF assms(1), of p b] mgr_okD(1) [OF assms(1,2)] show ?case by (cases "b = a") auto
next
  case (2 b g)
  show ?case
  proof (cases "b = a")
    case True
    with 2 show ?thesis using mgr_okD(1) [OF assms(1,2)] mgr_okD(2) [OF assms(1), of a] assms(4) by (auto simp: lh_closed_def)
  next
    case False
    with 2 show ?thesis using mgr_okD(2-4) [OF assms(1), of b g] assms(2) by auto
  qed
qed

lemma mgr_ok_Get:
  assumes "mgr_ok m (insert q Q)" "qm_leases m q = Some a"
  shows "mgr_ok (snd (lh_Get a m)) Q"
proof -
  obtain h where h: "qm_heap m a = Some h" "lh_queue h = q" "fd_ctx (lh_F h) = None"
    using mgr_okD(1) [OF assms] by blast
  show ?thesis
  proof (rule mgr_okI, goal_cases)
    case (1 p b)
    then have "qm_leases m p = Some b" by (simp add: lh_Get_def Let_def)
    with mgr_okD(1) [OF assms(1) this] assms(2) h show ?case by (cases "b = a") (auto simp: lh_Get_def Let_def)
  next
    case (2 b g)
    then show ?case
      using mgr_okD(2-4) [OF assms(1)] assms(2) h by (cases "b = a") (auto simp: lh_Get_def Let_def less_SucI)
  qed
qed

lemma mgr_ok_newHolder:
  assumes "mgr_ok m Q" "qm_leases m (lh_queue h) = None" "fd_ctx (lh_F h) = None" "lh_leases h = []"
  shows "mgr_ok (m\<lparr>qm_db := d', qm_raft := w', qm_fresh := qm_fresh m + 1, qm_heap := (qm_heap m)(qm_fresh m \<mapsto> h),
      qm_leases := (qm_leases m)(lh_queue h \<mapsto> qm_fresh m)\<rparr>) (insert (lh_queue h) Q)"
proof (rule mgr_okI, goal_cases)
  case (1 p b)
  then show ?case using mgr_okD(1) [OF assms(1), of p b] mgr_okD(2) [OF assms(1), of b] assms(3)
    by (auto split: if_splits)
next
  case (2 b g)
  then show ?case using mgr_okD(2-4) [OF assms(1), of b g] assms(2,4) by (auto split: if_splits simp: less_SucI)
qed

lemma mgr_ok_Lease: "mgr_ok m Q \<Longrightarrow> mgr_ok (snd (Manager_Lease pb raft q m)) Q"
proof (cases "qm_leases m q")
  case None
  assume ok: "mgr_ok m Q"
  show ?thesis
  proof (cases "newLeaseHolder pb raft q (qm_db m) (qm_raft m)")
    case (fields r d' w')
    show ?thesis
    proof (cases r)
      case (Inr h)
      note h = newLeaseHolderE [OF fields [unfolded Inr]]
      let ?m = "m\<lparr>qm_db := d', qm_raft := w', qm_fresh := qm_fresh m + 1, qm_heap := (qm_heap m)(qm_fresh m \<mapsto> h),
          qm_leases := (qm_leases m)(q \<mapsto> qm_fresh m)\<rparr>"
      have "mgr_ok ?m (insert q Q)" using mgr_ok_newHolder [OF ok _ h(2,3)] None h(1) by simp
      then have "mgr_ok (snd (lh_Get (qm_fresh m) ?m)) Q" by (rule mgr_ok_Get) simp
      then show ?thesis by (simp add: Manager_Lease_def None fields Inr case_prod_unfold Let_def)
    qed (use ok in \<open>simp add: Manager_Lease_def None fields\<close>)
  qed
next
  case (Some a)
  assume "mgr_ok m Q"
  from mgr_ok_Get [OF mgr_ok_mono [OF this subset_insertI] Some] Some
  show ?thesis by (auto simp: Manager_Lease_def split: prod.splits)
qed

lemma mgr_ok_drop:
  assumes "mgr_ok m (insert q Q)" "\<And>a h. qm_leases m q = Some a \<Longrightarrow> qm_heap m a = Some h \<Longrightarrow> lh_leases h \<noteq> []"
  shows "mgr_ok m Q"
proof (rule mgr_okI)
  fix p a assume "qm_leases m p = Some a"
  with mgr_okD(1) [OF assms(1) this] assms(2) show "\<exists>h. qm_heap m a = Some h \<and> lh_queue h = p \<and>
      fd_ctx (lh_F h) = None \<and> (lh_leases h = [] \<longrightarrow> p \<in> Q)" by blast
qed (use mgr_okD(2-4) [OF assms(1)] in blast)

lemma mgr_ok_cleanUp:
  assumes "mgr_ok m (insert q Q)"
  shows "mgr_ok (cleanUpLeases pb raft q m) Q"
proof (cases "qm_leases m q")
  case None
  with mgr_ok_drop [OF assms] show ?thesis by (simp add: cleanUpLeases_def)
next
  case (Some a)
  obtain h where h: "qm_heap m a = Some h" "lh_queue h = q" using mgr_okD(1) [OF assms Some] by blast
  obtain h' w' where c: "lh_Close pb raft h (qm_raft m) = (None, h', w')" "lh_closed h'" "lh_queue h' = lh_queue h"
    by (rule lh_CloseE)
  show ?thesis
  proof (cases "lh_leases h = []")
    case True
    with mgr_ok_close [OF assms Some _ c(2)] c(1,3) h Some show ?thesis
      by (simp add: cleanUpLeases_def ActiveCount_def)
  next
    case False
    then have "mgr_ok m Q" using Some h(1) by (intro mgr_ok_drop [OF assms]) simp
    with False Some h show ?thesis by (simp add: cleanUpLeases_def ActiveCount_def)
  qed
qed

lemma mgr_ok_delete:
  assumes "mgr_ok m Q" "qm_heap m (le_feed l) = Some h"
  shows "mgr_ok (lh_delete l m) (insert (lh_queue h) Q)"
  using mgr_ok_holder [OF mgr_ok_mono [OF assms(1) subset_insertI] assms(2), of "h\<lparr>lh_leases := removeAll (le_id l) (lh_leases h)\<rparr>"]
    assms(2) by (auto simp: lh_delete_def)

lemma mgr_ok_ctx: "mgr_ok m Q \<Longrightarrow> qm_heap m a = Some h \<Longrightarrow> fd_ctx (lh_F h) = None \<or> fd_ctx (lh_F h) = Some 0"
  using mgr_okD(1) [of m Q "lh_queue h" a] mgr_okD(4) [of m Q a h] by (auto simp: lh_closed_def)

text \<open>Closing the manager takes every queue out of the map, without an error.\<close>

lemma Manager_Close_ok:
  "mgr_ok m Q \<Longrightarrow> mgr_ok (snd (Manager_Close pb raft qs m)) Q \<and>
     qm_leases (snd (Manager_Close pb raft qs m)) = (\<lambda>q. if q \<in> set qs then None else qm_leases m q) \<and>
     list_all (\<lambda>e. e = None) (fst (Manager_Close pb raft qs m))"
proof (induction qs arbitrary: m)
  case (Cons q qs)
  show ?case
  proof (cases "qm_leases m q")
    case None
    with Cons show ?thesis by (auto simp: fun_eq_iff)
  next
    case (Some a)
    obtain h where h: "qm_heap m a = Some h" "lh_queue h = q" using mgr_okD(1) [OF Cons.prems Some] by blast
    obtain h' w' where c: "lh_Close pb raft h (qm_raft m) = (None, h', w')" "lh_closed h'" "lh_queue h' = lh_queue h"
      by (rule lh_CloseE)
    let ?m = "m\<lparr>qm_heap := (qm_heap m)(a \<mapsto> h'), qm_raft := w', qm_leases := (qm_leases m)(q := None)\<rparr>"
    have "mgr_ok ?m Q"
      using mgr_ok_close [OF mgr_ok_mono [OF Cons.prems subset_insertI] Some _ c(2)] c(3) h(2) by simp
    from Cons.IH [OF this] Some h(1) c(1) show ?thesis by (auto simp: fun_eq_iff split: prod.splits)
  qed
qed simp

lemma mgr_ok_step: "mgr_step pb raft s t \<Longrightarrow> mgr_ok (fst s) (set_mset (snd s)) \<Longrightarrow> mgr_ok (fst t) (set_mset (snd t))"
proof (induction rule: mgr_step.induct)
  case (round m a h now d n e f' P)
  then have "fd_ctx f' = fd_ctx (lh_F h)"
    using pullAndPush_ctx [OF round(2)] mgr_ok_ctx by fastforce
  with round show ?case by (auto intro!: mgr_ok_holder)
next
  case (sync m a h s' w' P)
  then have "mgr_ok (m\<lparr>qm_heap := (qm_heap m)(a \<mapsto> h\<lparr>lh_F := (lh_F h)\<lparr>fd_settings := s'\<rparr>\<rparr>)\<rparr>) (set_mset P)"
    by (auto intro!: mgr_ok_holder)
  from mgr_ok_raft [OF this, of w'] show ?case by simp
qed (simp_all add: mgr_ok_Lease mgr_ok_cleanUp mgr_ok_delete Manager_Close_ok)

lemma mgr_ok_reachable:
  assumes "(mgr_step pb raft)\<^sup>*\<^sup>* (NewManager d w, {#}) (m, P)"
  shows "mgr_ok m (set_mset P)"
proof -
  have "mgr_ok (fst s) (set_mset (snd s))" if "(mgr_step pb raft)\<^sup>*\<^sup>* (NewManager d w, {#}) s" for s
    using that by (induction rule: rtranclp_induct) (simp_all add: mgr_ok_New mgr_ok_step)
  from this [OF assms] show ?thesis by simp
qed

lemma foldl_cleanUp_ok: "mgr_ok m (set qs) \<Longrightarrow> mgr_ok (foldl (\<lambda>m q. cleanUpLeases pb raft q m) m qs) {}"
  by (induction qs arbitrary: m) (simp_all add: mgr_ok_cleanUp)

text \<open>A manager after two leases of a queue without settings.\<close>

definition sample_raft :: "bytes \<Rightarrow> unit \<Rightarrow> error option \<times> unit" where
  "sample_raft cmd w = (None, w)"

definition sample_mgr :: "unit Manager" where
  "sample_mgr = NewManager \<lparr>db_kv = [], db_faults = []\<rparr> ()"

lemma sample_feed_New:
  "\<exists>f. Feed_New wire_codec sample_raft ''q'' \<lparr>db_kv = [], db_faults = []\<rparr> () = (Inr f, \<lparr>db_kv = [], db_faults = []\<rparr>, ()) \<and> fd_ctx f = None \<and>
     ss_S (fd_settings f) = Some (default_settings ''q'')"
  by (simp add: Feed_New_def StartSync_def ss_load_def SettingStore_Get_def NewSyncedSettings_def trySave_def sample_raft_def
      db_lookup_def Let_def split: option.splits)

lemma sample_leases:
  obtains m1 m2 h where
    "Manager_Lease wire_codec sample_raft ''q'' sample_mgr = (Inr \<lparr>le_id = 1, le_feed = 0\<rparr>, m1)"
    "Manager_Lease wire_codec sample_raft ''q'' m1 = (Inr \<lparr>le_id = 2, le_feed = 0\<rparr>, m2)"
    "(mgr_step wire_codec sample_raft)\<^sup>*\<^sup>* (sample_mgr, {#}) (m2, {#})"
    "qm_heap m2 0 = Some h" "lh_leases h = [2, 1]" "lh_queue h = ''q''" "fd_ctx (lh_F h) = None" "qm_leases m2 ''q'' = Some 0"
    "ss_S (fd_settings (lh_F h)) = Some (default_settings ''q'')"
proof -
  obtain f where f: "Feed_New wire_codec sample_raft ''q'' \<lparr>db_kv = [], db_faults = []\<rparr> () = (Inr f, \<lparr>db_kv = [], db_faults = []\<rparr>, ())"
    "fd_ctx f = None" "ss_S (fd_settings f) = Some (default_settings ''q'')" using sample_feed_New by blast
  obtain l1 m1 where m1: "Manager_Lease wire_codec sample_raft ''q'' sample_mgr = (l1, m1)" by fastforce
  obtain l2 m2 where m2: "Manager_Lease wire_codec sample_raft ''q'' m1 = (l2, m2)" by fastforce
  have "(mgr_step wire_codec sample_raft)\<^sup>*\<^sup>* (sample_mgr, {#}) (m2, {#})"
    using mgr_step.lease [of wire_codec sample_raft sample_mgr "{#}" "''q''"] mgr_step.lease [of wire_codec sample_raft m1 "{#}" "''q''"]
      m1 m2 by (simp add: converse_rtranclp_into_rtranclp)
  moreover have "l1 = Inr \<lparr>le_id = 1, le_feed = 0\<rparr>" "qm_leases m1 ''q'' = Some 0"
    "qm_heap m1 0 = Some \<lparr>lh_F = f, lh_leases = [1], lh_queue = ''q''\<rparr>" "qm_fresh m1 = 2"
    using m1 f by (auto simp: Manager_Lease_def sample_mgr_def NewManager_def newLeaseHolder_def lh_Get_def Let_def)
  moreover from this m2 have "l2 = Inr \<lparr>le_id = 2, le_feed = 0\<rparr>"
    "qm_heap m2 0 = Some \<lparr>lh_F = f, lh_leases = [2, 1], lh_queue = ''q''\<rparr>" "qm_leases m2 ''q'' = Some 0"
    by (auto simp: Manager_Lease_def lh_Get_def Let_def)
  ultimately show ?thesis using m1 m2 f(2,3) by (intro that [of m1 m2 "\<lparr>lh_F = f, lh_leases = [2, 1], lh_queue = ''q''\<rparr>"]) simp_all
qed

section \<open>Properties\<close>

text \<open>C13. Only one feed is active per queue: however the operations of clients, clean-ups, rounds and closings interleave,
  two open feeds of the same queue are the same feed.\<close>

theorem one_feed_per_queue:
  assumes "(mgr_step pb raft)\<^sup>*\<^sup>* (NewManager d w, {#}) (m, P)"
    and "qm_heap m a = Some h" "qm_heap m b = Some g" "fd_ctx (lh_F h) \<noteq> Some 0" "fd_ctx (lh_F g) \<noteq> Some 0"
    and "lh_queue h = lh_queue g"
  shows "a = b"
  using mgr_okD(4) [OF mgr_ok_reachable [OF assms(1)] assms(2)] mgr_okD(4) [OF mgr_ok_reachable [OF assms(1)] assms(3)] assms(4-6)
  by (auto simp: lh_closed_def)

theorem one_feed_per_queue_witness:
  "\<exists>l1 m1 l2 m2. Manager_Lease wire_codec sample_raft ''q'' sample_mgr = (Inr l1, m1) \<and>
     Manager_Lease wire_codec sample_raft ''q'' m1 = (Inr l2, m2) \<and> le_id l1 \<noteq> le_id l2 \<and> le_feed l1 = le_feed l2"
proof -
  obtain m1 m2 h where m: "Manager_Lease wire_codec sample_raft ''q'' sample_mgr = (Inr \<lparr>le_id = 1, le_feed = 0\<rparr>, m1)"
    "Manager_Lease wire_codec sample_raft ''q'' m1 = (Inr \<lparr>le_id = 2, le_feed = 0\<rparr>, m2)"
    "(mgr_step wire_codec sample_raft)\<^sup>*\<^sup>* (sample_mgr, {#}) (m2, {#})" "qm_heap m2 0 = Some h" "fd_ctx (lh_F h) = None"
    by (rule sample_leases)
  then have "(0::nat) = 0"
    using one_feed_per_queue [OF m(3) [unfolded sample_mgr_def] m(4,4)] by simp
  with m show ?thesis by auto
qed

text \<open>C19. While a lease is held its feed is open, and a further lease of the queue is a new lease on the same feed.\<close>

theorem leased_feed_shared:
  assumes "(mgr_step pb raft)\<^sup>*\<^sup>* (NewManager d w, {#}) (m, P)"
    and "qm_heap m a = Some h" "l \<in> set (lh_leases h)"
  shows "fd_ctx (lh_F h) = None \<and>
    (\<exists>l' m'. Manager_Lease pb raft (lh_queue h) m = (Inr \<lparr>le_id = l', le_feed = a\<rparr>, m') \<and>
       (\<forall>b g. qm_heap m b = Some g \<longrightarrow> l' \<notin> set (lh_leases g)) \<and>
       Lease_Feed \<lparr>le_id = l', le_feed = a\<rparr> m' = Some (lh_F h))"
proof -
  note ok = mgr_ok_reachable [OF assms(1)]
  have a: "qm_leases m (lh_queue h) = Some a" using mgr_okD(4) [OF ok assms(2)] assms(3) by (auto simp: lh_closed_def)
  have "fd_ctx (lh_F h) = None" using mgr_okD(1) [OF ok a] assms(2) by auto
  moreover have "qm_fresh m \<notin> set (lh_leases g)" if "qm_heap m b = Some g" for b g
    using mgr_okD(3) [OF ok that] by blast
  ultimately show ?thesis
    using a assms(2) by (auto simp: Manager_Lease_def lh_Get_def Let_def Lease_Feed_def)
qed

theorem leased_feed_shared_witness:
  "\<exists>m2 h. (mgr_step wire_codec sample_raft)\<^sup>*\<^sup>* (sample_mgr, {#}) (m2, {#}) \<and> qm_heap m2 0 = Some h \<and>
     fd_ctx (lh_F h) = None \<and> (\<exists>l' m'. Manager_Lease wire_codec sample_raft ''q'' m2 = (Inr \<lparr>le_id = l', le_feed = 0\<rparr>, m'))"
proof -
  obtain m2 h where m: "(mgr_step wire_codec sample_raft)\<^sup>*\<^sup>* (sample_mgr, {#}) (m2, {#})" "qm_heap m2 0 = Some h"
    "1 \<in> set (lh_leases h)" "lh_queue h = ''q''"
    by (rule sample_leases) simp
  from leased_feed_shared [OF m(1) [unfolded sample_mgr_def] m(2,3)] m show ?thesis by auto
qed

text \<open>C20. No feed is left behind: once the clean-ups of the releases have run, in any order, every feed that is
  open has a lease.\<close>

theorem feeds_cleaned_up:
  assumes "(mgr_step pb raft)\<^sup>*\<^sup>* (NewManager d w, {#}) (m, P)" "mset qs = P"
    and "qm_heap (foldl (\<lambda>m q. cleanUpLeases pb raft q m) m qs) a = Some h" "fd_ctx (lh_F h) \<noteq> Some 0"
  shows "lh_leases h \<noteq> []"
proof -
  have ok: "mgr_ok (foldl (\<lambda>m q. cleanUpLeases pb raft q m) m qs) {}"
    using mgr_ok_reachable [OF assms(1)] assms(2) by (auto intro: foldl_cleanUp_ok)
  from mgr_okD(4) [OF ok assms(3)] assms(4) mgr_okD(1) [OF ok] assms(3) show ?thesis
    by (fastforce simp: lh_closed_def)
qed

theorem feeds_cleaned_up_witness:
  "\<exists>m h. (mgr_step wire_codec sample_raft)\<^sup>*\<^sup>* (sample_mgr, {#}) (m, {#''q''#}) \<and>
     qm_heap (cleanUpLeases wire_codec sample_raft ''q'' m) 0 = Some h \<and> fd_ctx (lh_F h) = None \<and> lh_leases h \<noteq> []"
proof -
  obtain m2 h where m: "(mgr_step wire_codec sample_raft)\<^sup>*\<^sup>* (sample_mgr, {#}) (m2, {#})" "qm_heap m2 0 = Some h"
    "lh_leases h = [2, 1]" "lh_queue h = ''q''" "fd_ctx (lh_F h) = None" "qm_leases m2 ''q'' = Some 0"
    by (rule sample_leases)
  let ?l = "\<lparr>le_id = 1, le_feed = 0\<rparr>"
  have r: "(mgr_step wire_codec sample_raft)\<^sup>*\<^sup>* (sample_mgr, {#}) (lh_delete ?l m2, {#''q''#})"
    using m(1) mgr_step.release [of m2 ?l h wire_codec sample_raft "{#}"] m(2,4) by (simp add: rtranclp.rtrancl_into_rtrancl)
  have "qm_heap (cleanUpLeases wire_codec sample_raft ''q'' (lh_delete ?l m2)) 0 = Some (h\<lparr>lh_leases := [2]\<rparr>)"
    using m(2,3,6) by (simp add: cleanUpLeases_def ActiveCount_def lh_delete_def)
  with feeds_cleaned_up [OF r [unfolded sample_mgr_def], of "[''q'']" 0] r m(5) show ?thesis by auto
qed

end
