(* ===== verification/Broker.thy ===== *)
theory Broker
  imports Lease_Manager
begin

text \<open>
  \<^verbatim>\<open>src/feeds/broker.go\<close>: a client pulls the tasks of a queue over a stream on which it also acknowledges them. What
  the client sends and what the channel of the feed yields are lists of what the loops receive; a loop that has
  used up its list is still waiting. The metadata of the call is a function from keys to the values given.
\<close>

section \<open>The broker\<close>

record TaskBroker =
  tb_queue :: string
  tb_lease :: "Lease option"

definition NewTaskBroker :: TaskBroker where
  "NewTaskBroker = \<lparr>tb_queue = [], tb_lease = None\<rparr>"

text \<open>What a select of the sender yields: the end of the stream, or a task, \<open>nil\<close> from a channel that is closed.\<close>

datatype sender_event = ContextDone | FromFeed "Task option"

text \<open>The outcome of the loop, \<open>None\<close> while it waits. \<open>send\<close> is \<^verbatim>\<open>stream.Send\<close> on a state of the stream.\<close>

fun startTaskSender ::
  "(Task option \<Rightarrow> 's \<Rightarrow> error option \<times> 's) \<Rightarrow> sender_event list \<Rightarrow> 's \<Rightarrow> error option option \<times> 's" where
  "startTaskSender send [] s = (None, s)"
| "startTaskSender send (ContextDone # es) s = (Some None, s)"
| "startTaskSender send (FromFeed task # es) s =
     (case send task s of
        (Some err, s') \<Rightarrow> (Some (Some (EStatus Internal ''failed to send tasks to client'')), s')
      | (None, s') \<Rightarrow> startTaskSender send es s')"

text \<open>The loop over acknowledgements; they go to raft, and nobody waits for the outcome.\<close>

fun startAckListener ::
  "codec \<Rightarrow> (bytes \<Rightarrow> 'w \<Rightarrow> error option \<times> 'w) \<Rightarrow> (error + Ack) list \<Rightarrow> 'w \<Rightarrow> 'w" where
  "startAckListener pb raft_Apply [] w = w"
| "startAckListener pb raft_Apply (Inl err # rs) w = w"
| "startAckListener pb raft_Apply (Inr ack # rs) w =
     startAckListener pb raft_Apply rs (snd (raft_Apply (log_data (ApplyAckCommand pb ack)) w))"

text \<open>
  \<^verbatim>\<open>Start\<close>: \<open>run\<close> stands for the time in which the sender and the listener run, on the state of the manager, with whatever else
  happens to it meanwhile.
\<close>

definition tb_Start ::
  "codec \<Rightarrow> (bytes \<Rightarrow> 'w \<Rightarrow> error option \<times> 'w) \<Rightarrow> (string \<Rightarrow> string list) option \<Rightarrow>
     (Lease \<Rightarrow> 'w Manager \<Rightarrow> error option \<times> 'w Manager) \<Rightarrow> TaskBroker \<Rightarrow> 'w Manager \<Rightarrow> error option \<times> TaskBroker \<times> 'w Manager" where
  "tb_Start pb raft_Apply metadata run tb m =
     (case metadata of
        None \<Rightarrow> (Some (EStatus InvalidArgument ''missing metadata''), tb, m)
      | Some md \<Rightarrow>
          (case md ''queue'' of
             [queue] \<Rightarrow>
               (case Manager_Lease pb raft_Apply queue m of
                  (Inl err, m') \<Rightarrow> (Some (EStatus Internal ''could not start task feed''), tb\<lparr>tb_queue := queue\<rparr>, m')
                | (Inr l, m') \<Rightarrow>
                    (case run l m' of (r, m'') \<Rightarrow> (r, tb\<lparr>tb_queue := queue, tb_lease := Some l\<rparr>, m'')))
           | _ \<Rightarrow> (Some (EStatus InvalidArgument ''expected one queue in metadata''), tb, m)))"

definition tb_Close ::
  "codec \<Rightarrow> (bytes \<Rightarrow> 'w \<Rightarrow> error option \<times> 'w) \<Rightarrow> TaskBroker \<Rightarrow> 'w Manager \<Rightarrow> error option \<times> 'w Manager" where
  "tb_Close pb raft_Apply tb m =
     (case tb_lease tb of None \<Rightarrow> (None, m) | Some l \<Rightarrow> (None, Lease_Release pb raft_Apply l m))"

section \<open>Lemmas\<close>

text \<open>Releasing a lease takes it out, and leaves nothing to clean up.\<close>

lemma Lease_Release_ok:
  assumes "mgr_ok m Q" "qm_heap m (le_feed l) = Some h"
  shows "mgr_ok (Lease_Release pb raft l m) Q"
    "qm_heap (Lease_Release pb raft l m) (le_feed l) = Some g \<Longrightarrow> le_id l \<notin> set (lh_leases g)"
proof -
  show "mgr_ok (Lease_Release pb raft l m) Q"
    using mgr_ok_cleanUp [OF mgr_ok_delete [OF assms]] assms(2) by (simp add: Lease_Release_def)
  obtain h' w' where c: "lh_Close pb raft (h\<lparr>lh_leases := removeAll (le_id l) (lh_leases h)\<rparr>) (qm_raft m) = (None, h', w')"
    "lh_closed h'" by (rule lh_CloseE)
  assume "qm_heap (Lease_Release pb raft l m) (le_feed l) = Some g"
  then show "le_id l \<notin> set (lh_leases g)"
    using assms(2) c
    by (auto simp: Lease_Release_def cleanUpLeases_def lh_delete_def lh_closed_def split: option.splits if_splits prod.splits)
qed

lemma Lease_Release_heap:
  "qm_heap m (le_feed l) = Some h \<Longrightarrow> \<exists>g. qm_heap (Lease_Release pb raft l m) (le_feed l) = Some g"
  by (auto simp: Lease_Release_def cleanUpLeases_def lh_delete_def split: option.splits prod.splits)

lemma Lease_Release_last:
  assumes "mgr_ok m Q" "qm_heap m (le_feed l) = Some h" "lh_leases h = [le_id l]"
  shows "\<exists>g. qm_heap (Lease_Release pb raft l m) (le_feed l) = Some g \<and> lh_closed g"
proof -
  have "qm_leases m (lh_queue h) = Some (le_feed l)" using mgr_okD(4) [OF assms(1,2)] assms(3) by (auto simp: lh_closed_def)
  moreover obtain h' w' where "lh_Close pb raft (h\<lparr>lh_leases := []\<rparr>) (qm_raft m) = (None, h', w')" "lh_closed h'" by (rule lh_CloseE)
  ultimately show ?thesis
    using assms(2,3) by (auto simp: Lease_Release_def cleanUpLeases_def lh_delete_def ActiveCount_def)
qed

lemma Manager_Lease_heap:
  assumes "mgr_ok m Q" "Manager_Lease pb raft q m = (Inr l, m')"
  shows "\<exists>h. qm_heap m' (le_feed l) = Some h \<and> lh_queue h = q \<and> le_id l \<in> set (lh_leases h)"
proof (cases "qm_leases m q")
  case None
  with assms(2) newLeaseHolderE(1) show ?thesis
    by (fastforce simp: Manager_Lease_def lh_Get_def Let_def split: prod.splits sum.splits)
next
  case (Some a)
  with mgr_okD(1) [OF assms(1) Some] assms(2) show ?thesis
    by (auto simp: Manager_Lease_def lh_Get_def Let_def)
qed

end
