(* ===== verification/Api_Queue.thy ===== *)
theory Api_Queue
  imports Leader_Group Broker
begin

text \<open>
  \<^verbatim>\<open>src/server/api/queue.go\<close>: the gRPC service for tasks. The state of the node is \<open>'w\<close>; the generator of
  identifiers and raft are functions on it, and so is the service of the leader to which other nodes forward. \<open>now\<close> is
  the clock: \<open>now i\<close> is what the call sees when it looks for the \<open>i\<close>-th time. A panic of the generator is \<open>None\<close>.
  The counters of \<^verbatim>\<open>telemetry\<close> and request identifiers have no effect and are left out.
\<close>

section \<open>Messages\<close>

text \<open>The \<^verbatim>\<open>oneof\<close> of a push request, and its getters.\<close>

datatype schedule = NoSchedule | ScheduleTime timestamp | TtsSeconds int

fun GetTtsSeconds :: "schedule \<Rightarrow> int" where
  "GetTtsSeconds (TtsSeconds n) = n"
| "GetTtsSeconds _ = 0"

fun GetScheduleTime :: "schedule \<Rightarrow> timestamp option" where
  "GetScheduleTime (ScheduleTime ts) = Some ts"
| "GetScheduleTime _ = None"

record PushTaskRequest =
  pr_queue :: string
  pr_async :: bool
  pr_metadata :: "(string \<times> string) list"
  pr_payload :: bytes
  pr_schedule :: schedule

record PushTaskResponse =
  ps_task :: "Task option"
  ps_forwarded_to :: string

record PushStreamResponse =
  pss_task :: "Task option"
  pss_status :: code
  pss_message :: string
  pss_forwarded_to :: string

record DeleteTaskRequest =
  dr_async :: bool
  dr_reference :: "TaskReference option"

record DeleteTaskResponse =
  dp_forwarded_to :: string

text \<open>What the service knows of the leader.\<close>

record QueueServer =
  qs_isLeader :: bool
  qs_leaderAddress :: string
  qs_handle :: LeaderHandle

section \<open>Pushing\<close>

definition getRunTime :: "time \<Rightarrow> PushTaskRequest \<Rightarrow> time" where
  "getRunTime now req =
     (if GetTtsSeconds (pr_schedule req) > 0 then time_Add now (seconds (GetTtsSeconds (pr_schedule req)))
      else case GetScheduleTime (pr_schedule req) of
             Some ts \<Rightarrow> AsTime (Some ts)
           | None \<Rightarrow> zero_time)"

definition makeTask ::
  "(string \<Rightarrow> time \<Rightarrow> 'w \<Rightarrow> ((error + TaskID) \<times> 'w) option) \<Rightarrow> (nat \<Rightarrow> time) \<Rightarrow> PushTaskRequest \<Rightarrow> 'w \<Rightarrow>
     ((error + Task) \<times> 'w) option" where
  "makeTask ids_ID now req w =
     (let ts = getRunTime (now 1) req
      in case ids_ID (pr_queue req) ts w of
           None \<Rightarrow> None
         | Some (Inl err, w') \<Rightarrow> Some (Inl err, w')
         | Some (Inr tid, w') \<Rightarrow>
             Some (Inr \<lparr>task_id = TaskID_String tid, task_queue = pr_queue req, task_metadata = pr_metadata req,
                        task_payload = pr_payload req,
                        schedule_time = (if IsZero ts then None else Some (timestamppb_New ts)),
                        last_retry = None, created_at = Some (timestamppb_New (now 0))\<rparr>, w'))"

definition forwardPushRequest ::
  "(string \<Rightarrow> PushTaskRequest \<Rightarrow> 'w \<Rightarrow> (error + PushTaskResponse) \<times> 'w) \<Rightarrow> QueueServer \<Rightarrow> PushTaskRequest \<Rightarrow> 'w \<Rightarrow>
     (error + PushTaskResponse) \<times> 'w" where
  "forwardPushRequest remote_Push q req w =
     (case QueueClient (qs_handle q) of
        Inl err \<Rightarrow> (Inl (EStatus Internal ''could not forward request''), w)
      | Inr client \<Rightarrow> remote_Push client req w)"

definition createTask ::
  "codec \<Rightarrow> (string \<Rightarrow> time \<Rightarrow> 'w \<Rightarrow> ((error + TaskID) \<times> 'w) option) \<Rightarrow> (bytes \<Rightarrow> 'w \<Rightarrow> error option \<times> 'w) \<Rightarrow>
     (string \<Rightarrow> PushTaskRequest \<Rightarrow> 'w \<Rightarrow> (error + PushTaskResponse) \<times> 'w) \<Rightarrow> (nat \<Rightarrow> time) \<Rightarrow> QueueServer \<Rightarrow>
     PushTaskRequest \<Rightarrow> 'w \<Rightarrow> ((error + PushTaskResponse) \<times> 'w) option" where
  "createTask pb ids_ID raft_Apply remote_Push now q req w =
     (if \<not> qs_isLeader q
      then (case forwardPushRequest remote_Push q req w of
              (Inr res, w') \<Rightarrow>
                Some (Inr (if ps_forwarded_to res = [] then res\<lparr>ps_forwarded_to := qs_leaderAddress q\<rparr> else res), w')
            | (Inl err, w') \<Rightarrow> Some (Inl err, w'))
      else case makeTask ids_ID now req w of
             None \<Rightarrow> None
           | Some (Inl err, w') \<Rightarrow> Some (Inl (EStatus Internal ''failed to create task''), w')
           | Some (Inr task, w') \<Rightarrow>
               (case raft_Apply (log_data (ApplySaveTaskCommand pb task)) w' of
                  (err, w'') \<Rightarrow>
                    (if pr_async req \<or> err = None then Some (Inr \<lparr>ps_task = Some task, ps_forwarded_to = []\<rparr>, w'')
                     else Some (Inl (EStatus Internal ''failed to save task''), w''))))"

definition Push ::
  "codec \<Rightarrow> (string \<Rightarrow> time \<Rightarrow> 'w \<Rightarrow> ((error + TaskID) \<times> 'w) option) \<Rightarrow> (bytes \<Rightarrow> 'w \<Rightarrow> error option \<times> 'w) \<Rightarrow>
     (string \<Rightarrow> PushTaskRequest \<Rightarrow> 'w \<Rightarrow> (error + PushTaskResponse) \<times> 'w) \<Rightarrow> (nat \<Rightarrow> time) \<Rightarrow> QueueServer \<Rightarrow>
     PushTaskRequest \<Rightarrow> 'w \<Rightarrow> ((error + PushTaskResponse) \<times> 'w) option" where
  "Push pb ids_ID raft_Apply remote_Push now q req w = createTask pb ids_ID raft_Apply remote_Push now q req w"

text \<open>
  The loop of \<^verbatim>\<open>PushStream\<close> over what \<^verbatim>\<open>Recv\<close> yields, each with the clock and the role of the node then; \<open>send\<close> is
  \<^verbatim>\<open>stream.Send\<close>. The outcome is \<open>None\<close> while the loop waits.
\<close>

fun PushStream ::
  "codec \<Rightarrow> (string \<Rightarrow> time \<Rightarrow> 'w \<Rightarrow> ((error + TaskID) \<times> 'w) option) \<Rightarrow> (bytes \<Rightarrow> 'w \<Rightarrow> error option \<times> 'w) \<Rightarrow>
     (string \<Rightarrow> PushTaskRequest \<Rightarrow> 'w \<Rightarrow> (error + PushTaskResponse) \<times> 'w) \<Rightarrow>
     (PushStreamResponse \<Rightarrow> 's \<Rightarrow> error option \<times> 's) \<Rightarrow>
     ((error + PushTaskRequest) \<times> (nat \<Rightarrow> time) \<times> QueueServer) list \<Rightarrow> 'w \<Rightarrow> 's \<Rightarrow> (error option option \<times> 'w \<times> 's) option" where
  "PushStream pb ids_ID raft_Apply remote_Push send [] w s = Some (None, w, s)"
| "PushStream pb ids_ID raft_Apply remote_Push send ((r, now, q) # rs) w s =
     (case r of
        Inl err \<Rightarrow>
          (if err = EOF then Some (Some None, w, s)
           else Some (Some (Some (EStatus Internal ''failed to get tasks from client'')), w, s))
      | Inr req \<Rightarrow>
          (case createTask pb ids_ID raft_Apply remote_Push now q req w of
             None \<Rightarrow> None
           | Some (Inl err, w') \<Rightarrow> Some (Some (Some err), w', s)
           | Some (Inr task, w') \<Rightarrow>
               (case send \<lparr>pss_task = ps_task task, pss_status = OK, pss_message = [], pss_forwarded_to = ps_forwarded_to task\<rparr> s of
                  (Some err, s') \<Rightarrow> Some (Some (Some (EStatus Internal ''failed to send task to client'')), w', s')
                | (None, s') \<Rightarrow> PushStream pb ids_ID raft_Apply remote_Push send rs w' s')))"

section \<open>Getting, pulling, deleting\<close>

definition GetTask :: "codec \<Rightarrow> TaskReference option \<Rightarrow> db \<Rightarrow> (error + Task) \<times> db" where
  "GetTask pb reference d =
     (case ParseString (GetTaskId reference) of
        Inl err \<Rightarrow> (Inl (EStatus InvalidArgument ''invalid task id''), d)
      | Inr tid \<Rightarrow>
          (case TaskStore_Get pb d (GetQueue reference) tid of
             (Inl err, d') \<Rightarrow> (Inl (EStatus NotFound ''task not found''), d')
           | (Inr task, d') \<Rightarrow> (Inr task, d')))"

definition Pull ::
  "codec \<Rightarrow> (bytes \<Rightarrow> 'w \<Rightarrow> error option \<times> 'w) \<Rightarrow> (string \<Rightarrow> string list) option \<Rightarrow>
     (Lease \<Rightarrow> 'w Manager \<Rightarrow> error option \<times> 'w Manager) \<Rightarrow> QueueServer \<Rightarrow> 'w Manager \<Rightarrow> error option \<times> 'w Manager" where
  "Pull pb raft_Apply metadata run q m =
     (if \<not> qs_isLeader q then (Some (EStatus FailedPrecondition ''rpc must be called on cluster leader''), m)
      else case tb_Start pb raft_Apply metadata run NewTaskBroker m of
             (r, broker, m') \<Rightarrow> (case tb_Close pb raft_Apply broker m' of (_, m'') \<Rightarrow> (r, m'')))"

definition forwardDeleteRequest ::
  "(string \<Rightarrow> DeleteTaskRequest \<Rightarrow> 'w \<Rightarrow> (error + DeleteTaskResponse) \<times> 'w) \<Rightarrow> QueueServer \<Rightarrow> DeleteTaskRequest \<Rightarrow> 'w \<Rightarrow>
     (error + DeleteTaskResponse) \<times> 'w" where
  "forwardDeleteRequest remote_Delete q req w =
     (case QueueClient (qs_handle q) of
        Inl err \<Rightarrow> (Inl (EStatus Internal ''could not forward request''), w)
      | Inr client \<Rightarrow> remote_Delete client req w)"

definition Delete ::
  "codec \<Rightarrow> (bytes \<Rightarrow> 'w \<Rightarrow> error option \<times> 'w) \<Rightarrow> (string \<Rightarrow> DeleteTaskRequest \<Rightarrow> 'w \<Rightarrow> (error + DeleteTaskResponse) \<times> 'w) \<Rightarrow>
     QueueServer \<Rightarrow> DeleteTaskRequest \<Rightarrow> 'w \<Rightarrow> (error + DeleteTaskResponse) \<times> 'w" where
  "Delete pb raft_Apply remote_Delete q req w =
     (if \<not> qs_isLeader q
      then (case forwardDeleteRequest remote_Delete q req w of
              (Inr res, w') \<Rightarrow>
                (Inr (if dp_forwarded_to res = [] then res\<lparr>dp_forwarded_to := qs_leaderAddress q\<rparr> else res), w')
            | (Inl err, w') \<Rightarrow> (Inl err, w'))
      else case raft_Apply (log_data (ApplyAckCommand pb \<lparr>ack_reference = dr_reference req\<rparr>)) w of
             (err, w') \<Rightarrow>
               (if dr_async req \<or> err = None then (Inr \<lparr>dp_forwarded_to = []\<rparr>, w')
                else (Inl (EStatus Internal ''failed to delete task''), w')))"

section \<open>Tasks that are made\<close>

text \<open>The times that identifiers can hold: none, or one from April 1972 to 2262.\<close>

definition run_time_ok :: "time \<Rightarrow> bool" where
  "run_time_ok ts \<longleftrightarrow> ts = zero_time \<or> time_ok ts \<and> in_nano_range ts \<and> 2 ^ 56 \<le> UnixNano ts"

lemma IsZero_iff: "IsZero ts = (ts = zero_time)"
  by (cases ts) (simp add: IsZero_def zero_time_def)

lemma run_time_id:
  assumes "run_time_ok ts"
  shows "ParseString (TaskID_String (iden_New ts i)) = Inr (iden_New ts i)"
    "IsZero ts = (TaskID_Time (iden_New ts i) = Inl ErrNoTime)"
proof -
  have "hd (iden_New ts i) \<noteq> 0" using assms by (auto simp: run_time_ok_def hd_iden_New zero_time_nano)
  then show "ParseString (TaskID_String (iden_New ts i)) = Inr (iden_New ts i)" by (simp add: ParseString_String_hd)
  show "IsZero ts = (TaskID_Time (iden_New ts i) = Inl ErrNoTime)"
    using assms by (auto simp: run_time_ok_def TaskID_Time_New zero_time_nano IsZero_iff)
qed

lemma makeTask_valid:
  assumes "ids_ID (pr_queue req) ts w = Some (Inr (iden_New ts i), w')" "ts = getRunTime (now 1) req" "run_time_ok ts"
  obtains task where "makeTask ids_ID now req w = Some (Inr task, w')" "MustParseString (task_id task) = Some (iden_New ts i)"
    "kind_ok task" "task_queue task = pr_queue req" "task_metadata task = pr_metadata req" "task_payload task = pr_payload req"
    "schedule_time task = (if ts = zero_time then None else Some (timestamppb_New ts))" "last_retry task = None"
  using assms(1,2) run_time_id [OF assms(3), of i]
  by (intro that) (auto simp: makeTask_def Let_def kind_ok_def MustParseString_def IsZero_iff)

definition sample_leader :: QueueServer where
  "sample_leader = \<lparr>qs_isLeader = True, qs_leaderAddress = [],
     qs_handle = \<lparr>ha_conn = None, ha_collectionClient = None, ha_adminClient = None, ha_grpcPort = 0\<rparr>\<rparr>"

section \<open>Properties\<close>

text \<open>C22. A push on the leader: the task has the content of the request and an identifier of its run time and the index
  it was given, from which both are read back, and whose kind is that of the task. Exactly this task is handed to
  raft, and the client gets it back, unless raft reports an error that the client waits for.\<close>

theorem push_on_leader:
  assumes "qs_isLeader q" "ids_ID (pr_queue req) ts w = Some (Inr (iden_New ts i), w')" "ts = getRunTime (now 1) req" "run_time_ok ts"
  shows "\<exists>task. Push pb ids_ID raft_Apply remote now q req w =
      Some (case raft_Apply (log_data (ApplySaveTaskCommand pb task)) w' of
              (err, w'') \<Rightarrow> (if pr_async req \<or> err = None then Inr \<lparr>ps_task = Some task, ps_forwarded_to = []\<rparr>
                           else Inl (EStatus Internal ''failed to save task''), w'')) \<and>
    task_queue task = pr_queue req \<and> task_metadata task = pr_metadata req \<and> task_payload task = pr_payload req \<and>
    MustParseString (task_id task) = Some (iden_New ts i) \<and> TaskID_Index (iden_New ts i) = i \<and>
    TaskID_Time (iden_New ts i) = (if ts = zero_time then Inl ErrNoTime else Inr ts) \<and>
    schedule_time task = (if ts = zero_time then None else Some (timestamppb_New ts)) \<and> kind_ok task"
proof -
  obtain task where t: "makeTask ids_ID now req w = Some (Inr task, w')" "MustParseString (task_id task) = Some (iden_New ts i)"
    "kind_ok task" "task_queue task = pr_queue req" "task_metadata task = pr_metadata req" "task_payload task = pr_payload req"
    "schedule_time task = (if ts = zero_time then None else Some (timestamppb_New ts))"
    using makeTask_valid [of ids_ID req ts w i w' now, OF assms(2-4)] by blast
  have "TaskID_Time (iden_New ts i) = (if ts = zero_time then Inl ErrNoTime else Inr ts)"
    using assms(4) time_Unix_UnixNano [of ts] by (auto simp: run_time_ok_def TaskID_Time_New zero_time_nano)
  with t assms(1) show ?thesis
    by (intro exI [of _ task]) (auto simp: Push_def createTask_def split: prod.splits)
qed

theorem push_on_leader_witness:
  "\<exists>task. Push wire_codec (\<lambda>q ts w. Some (Inr (iden_New ts w), w + 1)) (\<lambda>cmd w. (None, w)) (\<lambda>_ _ w. (Inl ENoLeader, w)) (\<lambda>_. zero_time)
      sample_leader \<lparr>pr_queue = ''q'', pr_async = False, pr_metadata = [], pr_payload = [1], pr_schedule = NoSchedule\<rparr> 7
    = Some (Inr \<lparr>ps_task = Some task, ps_forwarded_to = []\<rparr>, 8) \<and> schedule_time task = None"
  using push_on_leader [where q = sample_leader
      and req = "\<lparr>pr_queue = ''q'', pr_async = False, pr_metadata = [], pr_payload = [1], pr_schedule = NoSchedule\<rparr>"
      and ids_ID = "\<lambda>q ts w. Some (Inr (iden_New ts w), w + 1)" and ts = zero_time and w = "7 :: u64" and i = 7 and w' = 8
      and now = "\<lambda>_. zero_time" and pb = wire_codec and raft_Apply = "\<lambda>cmd w. (None, w)" and remote = "\<lambda>_ _ w. (Inl ENoLeader, w)"]
  by (auto simp: run_time_ok_def getRunTime_def sample_leader_def)

text \<open>Pushes one after the other, with their responses, if all of them succeed.\<close>

fun pushes ::
  "codec \<Rightarrow> (string \<Rightarrow> time \<Rightarrow> 'w \<Rightarrow> ((error + TaskID) \<times> 'w) option) \<Rightarrow> (bytes \<Rightarrow> 'w \<Rightarrow> error option \<times> 'w) \<Rightarrow>
     (string \<Rightarrow> PushTaskRequest \<Rightarrow> 'w \<Rightarrow> (error + PushTaskResponse) \<times> 'w) \<Rightarrow>
     (PushTaskRequest \<times> (nat \<Rightarrow> time) \<times> QueueServer) list \<Rightarrow> 'w \<Rightarrow> (PushTaskResponse list \<times> 'w) option" where
  "pushes pb ids_ID raft_Apply remote_Push [] w = Some ([], w)"
| "pushes pb ids_ID raft_Apply remote_Push ((req, now, q) # rs) w =
     (case Push pb ids_ID raft_Apply remote_Push now q req w of
        Some (Inr res, w') \<Rightarrow> map_option (\<lambda>(out, w''). (res # out, w'')) (pushes pb ids_ID raft_Apply remote_Push rs w')
      | _ \<Rightarrow> None)"

definition stream_response :: "PushTaskResponse \<Rightarrow> PushStreamResponse" where
  "stream_response res = \<lparr>pss_task = ps_task res, pss_status = OK, pss_message = [], pss_forwarded_to = ps_forwarded_to res\<rparr>"



text \<open>C36. However a pull ends, the lease it took is released, and if it was the last of the queue the feed is
  closed: provided that what happens meanwhile keeps the invariant of the manager, it holds after the pull, with no
  clean-up left to do for it.\<close>

theorem pull_releases_lease:
  assumes "qs_isLeader q" "md ''queue'' = [queue]" "Manager_Lease pb raft_Apply queue m = (Inr l, m1)" "run l m1 = (r, m2)"
    and "mgr_ok m2 Q" "qm_heap m2 (le_feed l) = Some h2"
  shows "\<exists>m' h. Pull pb raft_Apply (Some md) run q m = (r, m') \<and> mgr_ok m' Q \<and> qm_heap m' (le_feed l) = Some h \<and>
    le_id l \<notin> set (lh_leases h) \<and> (lh_leases h2 = [le_id l] \<longrightarrow> lh_closed h)"
proof -
  let ?m = "Lease_Release pb raft_Apply l m2"
  have "Pull pb raft_Apply (Some md) run q m = (r, ?m)"
    using assms(1-4) by (simp add: Pull_def tb_Start_def tb_Close_def NewTaskBroker_def)
  moreover obtain h where h: "qm_heap ?m (le_feed l) = Some h" using Lease_Release_heap [OF assms(6)] by blast
  moreover have "lh_closed h" if "lh_leases h2 = [le_id l]"
    using Lease_Release_last [OF assms(5,6) that, of pb raft_Apply] h by simp
  ultimately show ?thesis
    using Lease_Release_ok(1) [OF assms(5,6)] Lease_Release_ok(2) [OF assms(5,6) h] by simp
qed

theorem pull_releases_lease_witness:
  "\<exists>m'. Pull wire_codec sample_raft (Some (\<lambda>_. [''q''])) (\<lambda>l m. (None, m)) sample_leader sample_mgr = (None, m') \<and> mgr_ok m' {}"
proof -
  obtain m1 where m1: "Manager_Lease wire_codec sample_raft ''q'' sample_mgr = (Inr \<lparr>le_id = 1, le_feed = 0\<rparr>, m1)"
    by (rule sample_leases)
  have ok: "mgr_ok sample_mgr {}" by (simp add: sample_mgr_def mgr_ok_New)
  from mgr_ok_Lease [OF this, of wire_codec sample_raft "''q''"] m1 have "mgr_ok m1 {}" by simp
  moreover obtain h where "qm_heap m1 (le_feed \<lparr>le_id = 1, le_feed = 0\<rparr>) = Some h" using Manager_Lease_heap [OF ok m1] by blast
  ultimately have "\<exists>m' g. Pull wire_codec sample_raft (Some (\<lambda>_. [''q''])) (\<lambda>l m. (None, m)) sample_leader sample_mgr = (None, m') \<and>
    mgr_ok m' {} \<and> qm_heap m' (le_feed \<lparr>le_id = 1, le_feed = 0\<rparr>) = Some g \<and> le_id \<lparr>le_id = 1, le_feed = 0\<rparr> \<notin> set (lh_leases g) \<and>
    (lh_leases h = [le_id \<lparr>le_id = 1, le_feed = 0\<rparr>] \<longrightarrow> lh_closed g)"
    by (intro pull_releases_lease [OF _ _ m1]) (simp_all add: sample_leader_def)
  then show ?thesis by blast
qed

end
