(* ===== verification/Api_Admin.thy ===== *)
theory Api_Admin
  imports Leader_Group Broker
begin

text \<open>
  \<^verbatim>\<open>src/server/api/admin.go\<close>: the gRPC service for queues and for the cluster. The services of the leader to which other
  nodes forward, the membership operations of raft and the resolution of addresses are arguments. Settings are
  read and changed through a lease on the feed of the queue.
\<close>

section \<open>The service\<close>

record Admin =
  ad_isLeader :: bool
  ad_leaderAddress :: string
  ad_handle :: LeaderHandle
  ad_serverID :: string
  ad_advertiseAddr :: string
  ad_sqlPort :: int
  ad_queuePort :: int

definition CheckHealth :: "Admin \<Rightarrow> error option" where
  "CheckHealth a = (if ad_leaderAddress a = [] then Some (EStatus Internal ''peer has no leader'') else None)"

text \<open>Forwarding to the leader, as all calls do it.\<close>

definition forward_admin :: "(string \<Rightarrow> 'w \<Rightarrow> (error + 'a) \<times> 'w) \<Rightarrow> Admin \<Rightarrow> 'w \<Rightarrow> (error + 'a) \<times> 'w" where
  "forward_admin remote a w =
     (case AdminClient (ad_handle a) of
        Inl err \<Rightarrow> (Inl (EStatus Internal ''could not forward request''), w)
      | Inr client \<Rightarrow> remote client w)"

section \<open>Settings of a queue\<close>

text \<open>\<^verbatim>\<open>feed.Feed().Settings.S\<close> of a lease.\<close>

definition lease_settings :: "Lease \<Rightarrow> 'w Manager \<Rightarrow> QueueConfig option" where
  "lease_settings l m = (case Lease_Feed l m of None \<Rightarrow> None | Some f \<Rightarrow> ss_S (fd_settings f))"

definition GetQueue_rpc ::
  "codec \<Rightarrow> (bytes \<Rightarrow> 'w \<Rightarrow> error option \<times> 'w) \<Rightarrow> (string \<Rightarrow> 'w Manager \<Rightarrow> (error + QueueConfig option) \<times> 'w Manager) \<Rightarrow>
     Admin \<Rightarrow> string \<Rightarrow> 'w Manager \<Rightarrow> (error + QueueConfig option) \<times> 'w Manager" where
  "GetQueue_rpc pb raft_Apply remote a queue m =
     (if \<not> ad_isLeader a then forward_admin remote a m
      else case Manager_Lease pb raft_Apply queue m of
             (Inl err, m') \<Rightarrow> (Inl (EStatus Internal ''could not get lease for update''), m')
           | (Inr feed, m') \<Rightarrow> (Inr (lease_settings feed m'), Lease_Release pb raft_Apply feed m'))"

text \<open>The part of \<^verbatim>\<open>UpdateQueue\<close> that changes the settings in place.\<close>

definition set_deadline :: "int \<Rightarrow> Lease \<Rightarrow> 'w Manager \<Rightarrow> 'w Manager" where
  "set_deadline deadline l m =
     (if deadline = 0 then m
      else m\<lparr>qm_heap := (qm_heap m)(le_feed l := map_option (\<lambda>h. h\<lparr>lh_F := (lh_F h)\<lparr>fd_settings := (fd_settings (lh_F h))\<lparr>ss_S :=
               map_option (\<lambda>c. c\<lparr>ack_deadline_seconds := deadline\<rparr>) (ss_S (fd_settings (lh_F h)))\<rparr>\<rparr>\<rparr>) (qm_heap m (le_feed l)))\<rparr>)"

definition UpdateQueue ::
  "codec \<Rightarrow> (bytes \<Rightarrow> 'w \<Rightarrow> error option \<times> 'w) \<Rightarrow> (string \<Rightarrow> 'w Manager \<Rightarrow> (error + QueueConfig option) \<times> 'w Manager) \<Rightarrow>
     Admin \<Rightarrow> QueueConfig \<Rightarrow> 'w Manager \<Rightarrow> (error + QueueConfig option) \<times> 'w Manager" where
  "UpdateQueue pb raft_Apply remote a c m =
     (if \<not> ad_isLeader a then forward_admin remote a m
      else case Manager_Lease pb raft_Apply (qc_id c) m of
             (Inl err, m') \<Rightarrow> (Inl (EStatus Internal ''could not get lease for update''), m')
           | (Inr feed, m') \<Rightarrow>
               (let m'' = set_deadline (ack_deadline_seconds c) feed m'
                in (Inr (lease_settings feed m''), Lease_Release pb raft_Apply feed m'')))"

section \<open>The cluster\<close>

record Server_info =
  si_id :: string
  si_host :: string
  si_raft_port :: int
  si_sql_port :: int
  si_queue_port :: int

record ClusterInfo =
  ci_server_id :: string
  ci_leader_id :: string
  ci_members :: "Server_info list"

text \<open>\<^verbatim>\<open>int32\<close> of an \<^verbatim>\<open>int\<close>.\<close>

definition to_int32 :: "int \<Rightarrow> int" where
  "to_int32 n = (n + 2 ^ 31) mod 2 ^ 32 - 2 ^ 31"

text \<open>The loop over the servers; \<open>resolve\<close> is \<^verbatim>\<open>net.ResolveTCPAddr\<close> followed by \<^verbatim>\<open>String\<close>.\<close>

fun members_loop ::
  "(string \<Rightarrow> error + string) \<Rightarrow> Admin \<Rightarrow> raft_server list \<Rightarrow> string \<Rightarrow> Server_info list \<Rightarrow> error + string \<times> Server_info list" where
  "members_loop resolve a [] leaderID members = Inr (leaderID, members)"
| "members_loop resolve a (server # servers) leaderID members =
     (let addr = srv_Address server;
          leaderID' = (if resolve addr = Inr (ad_leaderAddress a) then srv_ID server else leaderID)
      in case strings_Split addr CHR '':'' of
           [host, p] \<Rightarrow>
             (case Atoi p of
                Inl err \<Rightarrow> Inl (EStatus Internal ''invalid port'')
              | Inr port \<Rightarrow>
                  members_loop resolve a servers leaderID'
                    (members @ [\<lparr>si_id = srv_ID server, si_host = host, si_raft_port = to_int32 port,
                                 si_sql_port = ad_sqlPort a, si_queue_port = ad_queuePort a\<rparr>]))
         | _ \<Rightarrow> Inl (EStatus Internal ''invalid address''))"

definition GetClusterInfo :: "(string \<Rightarrow> error + string) \<Rightarrow> error + raft_server list \<Rightarrow> Admin \<Rightarrow> error + ClusterInfo" where
  "GetClusterInfo resolve config a =
     (case config of
        Inl err \<Rightarrow> Inl (EStatus Internal ''failed to get configuration'')
      | Inr servers \<Rightarrow>
          (case members_loop resolve a servers [] [] of
             Inl err \<Rightarrow> Inl err
           | Inr (leaderID, members) \<Rightarrow>
               Inr \<lparr>ci_server_id = ad_serverID a, ci_leader_id = leaderID, ci_members = members\<rparr>))"

definition AddClusterMember ::
  "(string \<Rightarrow> string \<Rightarrow> 'w \<Rightarrow> error option \<times> 'w) \<Rightarrow> (string \<Rightarrow> 'w \<Rightarrow> (error + unit) \<times> 'w) \<Rightarrow> Admin \<Rightarrow> string \<Rightarrow> string \<Rightarrow> 'w \<Rightarrow>
     (error + unit) \<times> 'w" where
  "AddClusterMember raft_AddVoter remote a member_id member_address w =
     (if \<not> ad_isLeader a then forward_admin remote a w
      else if member_id = ad_serverID a
      then (Inl (EStatus InvalidArgument ''cannot add leader as duplicate member of cluster''), w)
      else case raft_AddVoter member_id member_address w of
             (Some err, w') \<Rightarrow> (Inl (EStatus Internal ''could not add member to cluster''), w')
           | (None, w') \<Rightarrow> (Inr (), w'))"

definition RemoveClusterMember ::
  "(string \<Rightarrow> 'w \<Rightarrow> error option \<times> 'w) \<Rightarrow> (string \<Rightarrow> 'w \<Rightarrow> (error + unit) \<times> 'w) \<Rightarrow> Admin \<Rightarrow> string \<Rightarrow> 'w \<Rightarrow>
     (error + unit) \<times> 'w" where
  "RemoveClusterMember raft_RemoveServer remote a member_id w =
     (if \<not> ad_isLeader a then forward_admin remote a w
      else case raft_RemoveServer member_id w of
             (Some err, w') \<Rightarrow> (Inl (EStatus Internal ''could not remove member from cluster''), w')
           | (None, w') \<Rightarrow> (Inr (), w'))"

definition BootstrapCluster :: "(raft_server list \<Rightarrow> 'w \<Rightarrow> error option \<times> 'w) \<Rightarrow> Admin \<Rightarrow> 'w \<Rightarrow> (error + unit) \<times> 'w" where
  "BootstrapCluster raft_Bootstrap a w =
     (case raft_Bootstrap [\<lparr>srv_ID = ad_serverID a, srv_Address = ad_advertiseAddr a\<rparr>] w of
        (Some err, w') \<Rightarrow> (Inl (EStatus Internal ''failed to bootstrap cluster''), w')
      | (None, w') \<Rightarrow> (Inr (), w'))"

text \<open>A leader.\<close>

definition sample_admin :: Admin where
  "sample_admin = \<lparr>ad_isLeader = True, ad_leaderAddress = ''h'' @ CHR '':'' # itoa 6356,
       ad_handle = \<lparr>ha_conn = None, ha_collectionClient = None, ha_adminClient = None, ha_grpcPort = 0\<rparr>, ad_serverID = ''n1'',
       ad_advertiseAddr = [], ad_sqlPort = 3306, ad_queuePort = 6355\<rparr>"

section \<open>Properties\<close>

lemma to_int32_id: "0 \<le> n \<Longrightarrow> n < 2 ^ 31 \<Longrightarrow> to_int32 n = n"
  by (simp add: to_int32_def)

definition host_port :: "raft_server \<Rightarrow> bool" where
  "host_port s \<longleftrightarrow> (\<exists>host port. srv_Address s = host @ CHR '':'' # itoa port \<and> CHR '':'' \<notin> set host \<and> 0 \<le> port \<and> port < 2 ^ 31)"

text \<open>The member that is reported for a server.\<close>

definition member_of :: "Admin \<Rightarrow> raft_server \<Rightarrow> Server_info \<Rightarrow> bool" where
  "member_of a s m \<longleftrightarrow> si_id m = srv_ID s \<and> si_host m @ CHR '':'' # itoa (si_raft_port m) = srv_Address s \<and>
     si_sql_port m = ad_sqlPort a \<and> si_queue_port m = ad_queuePort a"

lemma members_loop_ok:
  assumes "\<forall>s \<in> set servers. host_port s"
  shows "\<exists>ms. members_loop resolve a servers leaderID members =
    Inr (foldl (\<lambda>l s. if resolve (srv_Address s) = Inr (ad_leaderAddress a) then srv_ID s else l) leaderID servers, members @ ms) \<and>
    list_all2 (member_of a) servers ms"
  using assms
proof (induction servers arbitrary: leaderID members)
  case (Cons s servers)
  obtain host port where s: "srv_Address s = host @ CHR '':'' # itoa port" "CHR '':'' \<notin> set host" "0 \<le> port" "port < 2 ^ 31"
    using Cons.prems by (auto simp: host_port_def)
  let ?m = "\<lparr>si_id = srv_ID s, si_host = host, si_raft_port = port, si_sql_port = ad_sqlPort a, si_queue_port = ad_queuePort a\<rparr>"
  let ?l = "if resolve (srv_Address s) = Inr (ad_leaderAddress a) then srv_ID s else leaderID"
  have "members_loop resolve a (s # servers) leaderID members = members_loop resolve a servers ?l (members @ [?m])"
    using s by (simp add: Atoi_itoa to_int32_id Let_def)
  moreover have "member_of a s ?m" using s(1) by (simp add: member_of_def)
  moreover obtain ms where "members_loop resolve a servers ?l (members @ [?m]) =
    Inr (foldl (\<lambda>l s. if resolve (srv_Address s) = Inr (ad_leaderAddress a) then srv_ID s else l) ?l servers, (members @ [?m]) @ ms)"
    "list_all2 (member_of a) servers ms" using Cons.IH [of ?l "members @ [?m]"] Cons.prems by auto
  ultimately show ?case by (intro exI [of _ "?m # ms"]) simp
qed simp

lemma foldl_leader:
  assumes "\<forall>s \<in> set servers. P s = (s = p)"
  shows "foldl (\<lambda>l s. if P s then f s else l) l servers = (if p \<in> set servers then f p else l)"
  using assms by (induction servers arbitrary: l) auto

text \<open>The cluster as it is reported: for a configuration whose addresses are of the form \<open>host:port\<close>, one member per server, in the order
  of the configuration, with its identifier, host and port, and as leader the one server whose address
  resolves to that of the leader.\<close>

theorem cluster_info_members:
  assumes "\<forall>s \<in> set servers. host_port s" "p \<in> set servers"
    and "\<forall>s \<in> set servers. (resolve (srv_Address s) = Inr (ad_leaderAddress a)) = (s = p)"
  shows "\<exists>info. GetClusterInfo resolve (Inr servers) a = Inr info \<and> list_all2 (member_of a) servers (ci_members info) \<and>
    ci_leader_id info = srv_ID p \<and> ci_server_id info = ad_serverID a"
  using members_loop_ok [OF assms(1), of resolve a "[]" "[]"] assms(2) foldl_leader [OF assms(3), of srv_ID "[]"]
  by (auto simp: GetClusterInfo_def)

theorem cluster_info_members_witness:
  "\<exists>info. GetClusterInfo Inr (Inr [\<lparr>srv_ID = ''n1'', srv_Address = ''h'' @ CHR '':'' # itoa 6356\<rparr>])
      sample_admin = Inr info \<and> ci_leader_id info = ''n1''"
proof -
  let ?s = "\<lparr>srv_ID = ''n1'', srv_Address = ''h'' @ CHR '':'' # itoa 6356\<rparr>"
  have "\<forall>s \<in> set [?s]. host_port s"
    by (auto simp: host_port_def intro!: exI [of _ "''h''"] exI [of _ 6356])
  from cluster_info_members [OF this, of ?s Inr sample_admin]
  show ?thesis by (auto simp: sample_admin_def)
qed

lemma shared_lease:
  assumes "qm_leases m q = Some b" "qm_heap m b = Some h"
  shows "\<exists>m1. Manager_Lease pb raft q m = (Inr \<lparr>le_id = qm_fresh m, le_feed = b\<rparr>, m1) \<and>
    qm_heap m1 b = Some (h\<lparr>lh_leases := qm_fresh m # lh_leases h\<rparr>) \<and> qm_leases m1 = qm_leases m"
  using assms by (simp add: Manager_Lease_def lh_Get_def Let_def)

lemma shared_release:
  assumes "qm_heap m (le_feed l) = Some h" "lh_leases h = le_id l # ls" "le_id l \<notin> set ls" "ls \<noteq> []" "qm_leases m (lh_queue h) = Some (le_feed l)"
  shows "qm_heap (Lease_Release pb raft l m) (le_feed l) = Some (h\<lparr>lh_leases := ls\<rparr>) \<and> qm_leases (Lease_Release pb raft l m) = qm_leases m"
  using assms by (simp add: Lease_Release_def cleanUpLeases_def lh_delete_def ActiveCount_def)

text \<open>Updating a queue that others have leased: the deadline of the settings is replaced unless the request has none, the
  identifier and the checkpoints stay, the feed that is shared sees the change, and a later request for the queue
  gets the new settings.\<close>

theorem update_then_get:
  assumes "ad_isLeader a" "mgr_ok m Q" "qm_leases m (qc_id c) = Some b" "qm_heap m b = Some h" "lh_leases h \<noteq> []"
    and "ss_S (fd_settings (lh_F h)) = Some s"
  shows "let s' = (if ack_deadline_seconds c = 0 then s else s\<lparr>ack_deadline_seconds := ack_deadline_seconds c\<rparr>)
    in \<exists>m'. UpdateQueue pb raft_Apply remote a c m = (Inr (Some s'), m') \<and>
         (\<exists>h'. qm_heap m' b = Some h' \<and> lh_leases h' = lh_leases h \<and> ss_S (fd_settings (lh_F h')) = Some s') \<and>
         fst (GetQueue_rpc pb raft_Apply remote a (qc_id c) m') = Inr (Some s')"
proof -
  let ?s = "if ack_deadline_seconds c = 0 then s else s\<lparr>ack_deadline_seconds := ack_deadline_seconds c\<rparr>"
  let ?f = "(lh_F h)\<lparr>fd_settings := (fd_settings (lh_F h))\<lparr>ss_S := Some ?s\<rparr>\<rparr>"
  let ?l = "\<lparr>le_id = qm_fresh m, le_feed = b\<rparr>"
  let ?h = "h\<lparr>lh_F := ?f, lh_leases := qm_fresh m # lh_leases h\<rparr>"
  obtain m1 where m1: "Manager_Lease pb raft_Apply (qc_id c) m = (Inr ?l, m1)"
    "qm_heap m1 b = Some (h\<lparr>lh_leases := qm_fresh m # lh_leases h\<rparr>)" "qm_leases m1 = qm_leases m"
    using shared_lease [OF assms(3,4)] by blast
  let ?m2 = "set_deadline (ack_deadline_seconds c) ?l m1"
  have m2: "qm_heap ?m2 b = Some ?h" "qm_leases ?m2 = qm_leases m"
    using m1(2,3) assms(6) by (auto simp: set_deadline_def)
  have q: "lh_queue h = qc_id c" using mgr_okD(1) [OF assms(2,3)] assms(4) by auto
  have new: "qm_fresh m \<notin> set (lh_leases h)" using mgr_okD(3) [OF assms(2,4)] by blast
  obtain m3 where m3: "Lease_Release pb raft_Apply ?l ?m2 = m3" "qm_heap m3 b = Some (h\<lparr>lh_F := ?f\<rparr>)" "qm_leases m3 = qm_leases m"
    using shared_release [of ?m2 ?l ?h "lh_leases h" pb raft_Apply] m2 assms(3,5) q new by auto
  obtain m4 l4 where m4: "Manager_Lease pb raft_Apply (qc_id c) m3 = (Inr \<lparr>le_id = l4, le_feed = b\<rparr>, m4)"
    "qm_heap m4 b = Some (h\<lparr>lh_F := ?f, lh_leases := l4 # lh_leases h\<rparr>)"
    using shared_lease [of m3 "qc_id c" b] m3(2,3) assms(3) by fastforce
  have "UpdateQueue pb raft_Apply remote a c m = (Inr (Some ?s), m3)"
    using assms(1) m1(1) m2(1) m3(1) by (simp add: UpdateQueue_def lease_settings_def Lease_Feed_def)
  moreover have "fst (GetQueue_rpc pb raft_Apply remote a (qc_id c) m3) = Inr (Some ?s)"
    using assms(1) m4 by (simp add: GetQueue_rpc_def lease_settings_def Lease_Feed_def)
  ultimately show ?thesis using m3(2) by (simp add: Let_def)
qed

theorem update_then_get_witness:
  "\<exists>m m'. UpdateQueue wire_codec sample_raft (\<lambda>_ m. (Inl ENoLeader, m)) sample_admin
      ((default_settings ''q'')\<lparr>ack_deadline_seconds := 60\<rparr>) m = (Inr (Some ((default_settings ''q'')\<lparr>ack_deadline_seconds := 60\<rparr>)), m')"
proof -
  obtain m h where m: "(mgr_step wire_codec sample_raft)\<^sup>*\<^sup>* (sample_mgr, {#}) (m, {#})" "qm_heap m 0 = Some h"
    "lh_leases h = [2, 1]" "qm_leases m ''q'' = Some 0" "ss_S (fd_settings (lh_F h)) = Some (default_settings ''q'')"
    by (rule sample_leases)
  have ok: "mgr_ok m {}" using mgr_ok_reachable [OF m(1) [unfolded sample_mgr_def]] by simp
  let ?c = "(default_settings ''q'')\<lparr>ack_deadline_seconds := 60\<rparr>"
  have a: "ad_isLeader sample_admin" "qm_leases m (qc_id ?c) = Some 0" "lh_leases h \<noteq> []"
    using m(3,4) by (simp_all add: sample_admin_def default_settings_def)
  from update_then_get [OF a(1) ok a(2) m(2) a(3) m(5), of wire_codec sample_raft "\<lambda>_ m. (Inl ENoLeader, m)"]
  show ?thesis by (auto simp: Let_def)
qed

end
