(* ===== verification/Client.thy ===== *)
theory Client
  imports Api_Queue Api_Admin
begin

text \<open>
  \<^verbatim>\<open>src/pkg/z4\<close>: the client library. Its pool follows the leader of the cluster, producers push tasks through it, one
  by one or over a stream, and consumers pull and acknowledge them. The network is a state \<open>'n\<close> on which remote
  calls act; connections are the addresses dialled; how often \<^verbatim>\<open>backoff\<close> retries is an argument.
\<close>

section \<open>The connection pool\<close>

record connectionPool =
  cp_conn :: "string option"
  cp_peerAddresses :: "string list"
  cp_term :: nat

definition peer_address :: "Server_info \<Rightarrow> string" where
  "peer_address m = si_host m @ '':'' @ itoa (si_queue_port m)"

text \<open>The address of the leader among the members, that of the last one if several have its identifier.\<close>

fun leader_address :: "string \<Rightarrow> Server_info list \<Rightarrow> string \<Rightarrow> string" where
  "leader_address leader [] addr = addr"
| "leader_address leader (m # ms) addr = leader_address leader ms (if si_id m = leader then peer_address m else addr)"

text \<open>
  \<^verbatim>\<open>seed\<close> calls itself with the address of the leader that a node reports, and need not return if the nodes do not agree:
  a call that does not return is \<open>None\<close>. \<open>dial\<close> is \<^verbatim>\<open>grpc.Dial\<close> and \<open>info\<close> the call of \<^verbatim>\<open>GetClusterInfo\<close> at an address.
\<close>

partial_function (option) seed ::
  "(string \<Rightarrow> error option) \<Rightarrow> (string \<Rightarrow> 'n \<Rightarrow> (error + ClusterInfo) \<times> 'n) \<Rightarrow> string \<Rightarrow> connectionPool \<Rightarrow> 'n \<Rightarrow>
     (error option \<times> connectionPool \<times> 'n) option" where
  "seed dial info addr p n =
     (case dial addr of
        Some err \<Rightarrow> Some (Some err, p, n)
      | None \<Rightarrow>
          (case info addr n of
             (Inl err, n') \<Rightarrow> Some (Some err, p\<lparr>cp_conn := Some addr\<rparr>, n')
           | (Inr i, n') \<Rightarrow>
               (if ci_leader_id i = [] then Some (Some ENoLeader, p\<lparr>cp_conn := None\<rparr>, n')
                else if ci_server_id i = ci_leader_id i
                then Some (None, p\<lparr>cp_conn := Some addr, cp_peerAddresses := map peer_address (ci_members i)\<rparr>, n')
                else seed dial info (leader_address (ci_leader_id i) (ci_members i) []) (p\<lparr>cp_conn := None\<rparr>) n')))"

fun detectLeader_pool ::
  "(string \<Rightarrow> error option) \<Rightarrow> (string \<Rightarrow> 'n \<Rightarrow> (error + ClusterInfo) \<times> 'n) \<Rightarrow> string list \<Rightarrow> connectionPool \<Rightarrow> 'n \<Rightarrow>
     (error option \<times> connectionPool \<times> 'n) option" where
  "detectLeader_pool dial info [] p n = Some (Some ENoLeader, p, n)"
| "detectLeader_pool dial info (addr # addrs) p n =
     (case seed dial info addr p n of
        None \<Rightarrow> None
      | Some (None, p', n') \<Rightarrow> Some (None, p', n')
      | Some (Some err, p', n') \<Rightarrow> detectLeader_pool dial info addrs p' n')"

text \<open>\<^verbatim>\<open>backoff.Retry\<close> with the number of attempts that its clock and the context allow.\<close>

fun retry_detect ::
  "(string \<Rightarrow> error option) \<Rightarrow> (string \<Rightarrow> 'n \<Rightarrow> (error + ClusterInfo) \<times> 'n) \<Rightarrow> nat \<Rightarrow> connectionPool \<Rightarrow> 'n \<Rightarrow>
     (error option \<times> connectionPool \<times> 'n) option" where
  "retry_detect dial info 0 p n = Some (Some ENoLeader, p, n)"
| "retry_detect dial info (Suc k) p n =
     (case detectLeader_pool dial info (cp_peerAddresses p) p n of
        None \<Rightarrow> None
      | Some (None, p', n') \<Rightarrow> Some (None, p', n')
      | Some (Some err, p', n') \<Rightarrow> if k = 0 then Some (Some err, p', n') else retry_detect dial info k p' n')"

text \<open>\<open>term\<close> is the term of the pool before its mutex was taken; another client may have moved it since.\<close>

definition ResetConn ::
  "(string \<Rightarrow> error option) \<Rightarrow> (string \<Rightarrow> 'n \<Rightarrow> (error + ClusterInfo) \<times> 'n) \<Rightarrow> nat \<Rightarrow> nat \<Rightarrow> connectionPool \<Rightarrow> 'n \<Rightarrow>
     ((error + string option) \<times> connectionPool \<times> 'n) option" where
  "ResetConn dial info attempts seen p n =
     (if seen \<noteq> cp_term p then Some (Inr (cp_conn p), p, n)
      else case retry_detect dial info attempts p n of
             None \<Rightarrow> None
           | Some (Some err, p', n') \<Rightarrow> Some (Inl err, p', n')
           | Some (None, p', n') \<Rightarrow> Some (Inr (cp_conn p'), p'\<lparr>cp_term := cp_term p' + 1\<rparr>, n'))"

definition SetLeader ::
  "(string \<Rightarrow> error option) \<Rightarrow> (string \<Rightarrow> 'n \<Rightarrow> (error + ClusterInfo) \<times> 'n) \<Rightarrow> nat \<Rightarrow> string \<Rightarrow> connectionPool \<Rightarrow> 'n \<Rightarrow>
     ((error option \<times> string option) \<times> connectionPool \<times> 'n) option" where
  "SetLeader dial info seen addr p n =
     (if seen \<noteq> cp_term p then Some ((None, cp_conn p), p, n)
      else case seed dial info addr p n of
             None \<Rightarrow> None
           | Some (Some err, p', n') \<Rightarrow> Some ((Some err, cp_conn p'), p', n')
           | Some (None, p', n') \<Rightarrow> Some ((None, cp_conn p'), p'\<lparr>cp_term := cp_term p' + 1\<rparr>, n'))"

definition newConnectionPool ::
  "(string \<Rightarrow> error option) \<Rightarrow> (string \<Rightarrow> 'n \<Rightarrow> (error + ClusterInfo) \<times> 'n) \<Rightarrow> nat \<Rightarrow> string list \<Rightarrow> 'n \<Rightarrow>
     ((error + connectionPool) \<times> 'n) option" where
  "newConnectionPool dial info attempts addrs n =
     (case ResetConn dial info attempts 0 \<lparr>cp_conn = None, cp_peerAddresses = addrs, cp_term = 0\<rparr> n of
        None \<Rightarrow> None
      | Some (Inl err, p, n') \<Rightarrow> Some (Inl err, n')
      | Some (Inr _, p, n') \<Rightarrow> Some (Inr p, n'))"

section \<open>The unary producer\<close>

definition is_unavailable :: "error \<Rightarrow> bool" where
  "is_unavailable err = (case err of EStatus c m \<Rightarrow> c = Unavailable | _ \<Rightarrow> False)"

record UnaryProducer =
  up_client :: "string option"
  up_locked :: bool

text \<open>
  \<^verbatim>\<open>CreateTask\<close> of the unary producer holds its mutex, \<open>up_locked\<close>, while it runs. A Go mutex cannot be taken again by
  its holder, so that a call that finds it locked by the same call waits forever, which is \<open>None\<close>. \<open>push\<close> is the call of \<^verbatim>\<open>Push\<close>
  through a client; the pool is not used by others meanwhile.
\<close>

function unary_CreateTask ::
  "(string option \<Rightarrow> PushTaskRequest \<Rightarrow> 'n \<Rightarrow> (error + PushTaskResponse) \<times> 'n) \<Rightarrow> (string \<Rightarrow> error option) \<Rightarrow>
     (string \<Rightarrow> 'n \<Rightarrow> (error + ClusterInfo) \<times> 'n) \<Rightarrow> nat \<Rightarrow> PushTaskRequest \<Rightarrow> UnaryProducer \<Rightarrow> connectionPool \<Rightarrow> 'n \<Rightarrow>
     ((error + Task option) \<times> UnaryProducer \<times> connectionPool \<times> 'n) option" where
  "unary_CreateTask push dial info attempts req p pool n =
     (if up_locked p then None
      else case push (up_client p) req n of
             (Inl err, n') \<Rightarrow>
               (if is_unavailable err
                then (case ResetConn dial info attempts (cp_term pool) pool n' of
                        None \<Rightarrow> None
                      | Some (Inl err', pool', n'') \<Rightarrow> Some (Inl err', p, pool', n'')
                      | Some (Inr conn, pool', n'') \<Rightarrow>
                          unary_CreateTask push dial info attempts req \<lparr>up_client = conn, up_locked = True\<rparr> pool' n'')
                else Some (Inl err, p, pool, n'))
           | (Inr res, n') \<Rightarrow>
               (if ps_forwarded_to res \<noteq> []
                then (case SetLeader dial info (cp_term pool) (ps_forwarded_to res) pool n' of
                        None \<Rightarrow> None
                      | Some ((Some err, _), pool', n'') \<Rightarrow> Some (Inr (ps_task res), p, pool', n'')
                      | Some ((None, conn), pool', n'') \<Rightarrow> Some (Inr (ps_task res), p\<lparr>up_client := conn\<rparr>, pool', n''))
                else Some (Inr (ps_task res), p, pool, n')))"
  by pat_completeness auto
termination
  by (relation "measure (\<lambda>(push, dial, info, attempts, req, p, pool, n). if up_locked p then 0 else 1)") auto

section \<open>The streaming producer\<close>

text \<open>
  Futures are numbered in the order in which they are made. A future that has been set has a result; setting it again panics,
  because its channel is closed. \<open>sp_pending\<close> is the list of the futures that wait for a response.
\<close>

record StreamingProducer =
  sp_pending :: "nat list"
  sp_result :: "nat \<Rightarrow> (error + Task) option"
  sp_made :: nat

definition newStreamingProducer :: StreamingProducer where
  "newStreamingProducer = \<lparr>sp_pending = [], sp_result = (\<lambda>_. None), sp_made = 0\<rparr>"

definition future_set :: "nat \<Rightarrow> error + Task \<Rightarrow> StreamingProducer \<Rightarrow> StreamingProducer option" where
  "future_set f r p = (if sp_result p f \<noteq> None then None else Some (p\<lparr>sp_result := (sp_result p)(f \<mapsto> r)\<rparr>))"

fun set_all :: "nat list \<Rightarrow> error + Task \<Rightarrow> StreamingProducer \<Rightarrow> StreamingProducer option" where
  "set_all [] r p = Some p"
| "set_all (f # fs) r p = (case future_set f r p of None \<Rightarrow> None | Some p' \<Rightarrow> set_all fs r p')"

definition ErrInterruptedFuture :: error where
  "ErrInterruptedFuture = EMsg ''connection closed before future completion''"

text \<open>\<^verbatim>\<open>reconnect\<close>, with the outcomes of \<^verbatim>\<open>ResetConn\<close> and of opening the new stream.\<close>

definition sp_reconnect :: "error option \<Rightarrow> error option \<Rightarrow> StreamingProducer \<Rightarrow> (error option \<times> StreamingProducer) option" where
  "sp_reconnect reset open_stream p =
     (case reset of
        Some err \<Rightarrow> Some (Some err, p)
      | None \<Rightarrow>
          (case set_all (sp_pending p) (Inl ErrInterruptedFuture) p of
             None \<Rightarrow> None
           | Some p' \<Rightarrow> Some (open_stream, p'\<lparr>sp_pending := []\<rparr>)))"

text \<open>
  \<^verbatim>\<open>CreateTask\<close>: the list has the outcome of each attempt to send and, where it is needed, those of the
  reconnection; the call returns the number of the future. A list that is used up stands for an attempt that does not return.
\<close>

fun sp_send :: "nat \<Rightarrow> (error option \<times> error option \<times> error option) list \<Rightarrow> StreamingProducer \<Rightarrow> StreamingProducer option" where
  "sp_send f [] p = None"
| "sp_send f ((send, reset, open_stream) # os) p =
     (case send of
        None \<Rightarrow> Some (p\<lparr>sp_pending := sp_pending p @ [f]\<rparr>)
      | Some err \<Rightarrow>
          (if is_unavailable err
           then (case sp_reconnect reset open_stream p of
                   None \<Rightarrow> None
                 | Some (None, p') \<Rightarrow> sp_send f os p'
                 | Some (Some err', p') \<Rightarrow> future_set f (Inl err') p')
           else future_set f (Inl err) p))"

definition sp_CreateTask :: "(error option \<times> error option \<times> error option) list \<Rightarrow> StreamingProducer \<Rightarrow> (nat \<times> StreamingProducer) option" where
  "sp_CreateTask os p =
     (let f = sp_made p
      in case sp_send f os (p\<lparr>sp_made := f + 1\<rparr>) of None \<Rightarrow> None | Some p' \<Rightarrow> Some (f, p'))"

text \<open>
  One round of \<^verbatim>\<open>handleCallbacks\<close> with what \<^verbatim>\<open>Recv\<close> yields; the boolean says whether the loop goes on. The front of an empty
  list is \<open>nil\<close>, and removing it panics.
\<close>

definition TaskCreationError :: "code \<Rightarrow> string \<Rightarrow> error" where
  "TaskCreationError status message = ETaskCreation status message"

definition handleCallbacks_round ::
  "error + PushStreamResponse \<Rightarrow> error option \<Rightarrow> error option \<Rightarrow> StreamingProducer \<Rightarrow> (bool \<times> StreamingProducer) option" where
  "handleCallbacks_round recv reset open_stream p =
     (case recv of
        Inl err \<Rightarrow>
          (if errors_is err EOF \<or> is_unavailable err
           then map_option (\<lambda>(r, p'). (r = None, p')) (sp_reconnect reset open_stream p)
           else Some (True, p))
      | Inr res \<Rightarrow>
          (case sp_pending p of
             [] \<Rightarrow> None
           | f # fs \<Rightarrow>
               (case pss_task res of
                  None \<Rightarrow> map_option (Pair True) (future_set f (Inl (TaskCreationError (pss_status res) (pss_message res))) (p\<lparr>sp_pending := fs\<rparr>))
                | Some t \<Rightarrow>
                    (case future_set f (Inr t) (p\<lparr>sp_pending := fs\<rparr>) of
                       None \<Rightarrow> None
                     | Some p' \<Rightarrow>
                         if pss_forwarded_to res \<noteq> []
                         then map_option (\<lambda>(r, p''). (r = None, p'')) (sp_reconnect reset open_stream p')
                         else Some (True, p')))))"

section \<open>The consumer\<close>

record Consumer =
  co_unackedMsgCount :: int
  co_closed :: bool

definition newConsumer :: Consumer where
  "newConsumer = \<lparr>co_unackedMsgCount = 0, co_closed = False\<rparr>"

text \<open>
  The loop of \<^verbatim>\<open>Consume\<close> on what it finds: the end of the context with its error, a task, or an error of \<^verbatim>\<open>Recv\<close> with the outcome
  of the reconnection that may follow. \<open>close_send\<close> is the outcome of closing the stream; \<^verbatim>\<open>multierr.Combine\<close> is the
  list of the errors it is given. The outcome is \<open>None\<close> while the loop waits.
\<close>

datatype consume_event = ConsumerDone error | Received Task | ReceiveFailed error "error option"

fun consume_loop ::
  "('s \<Rightarrow> Task \<Rightarrow> error option \<times> 's) \<Rightarrow> error option \<Rightarrow> consume_event list \<Rightarrow> Consumer \<Rightarrow> 's \<Rightarrow>
     error option list option \<times> Consumer \<times> 's" where
  "consume_loop f close_send [] c s = (None, c, s)"
| "consume_loop f close_send (ConsumerDone err # es) c s = (Some [Some err, close_send], c\<lparr>co_closed := True\<rparr>, s)"
| "consume_loop f close_send (ReceiveFailed err reconnect # es) c s =
     (if errors_is err EOF \<or> is_unavailable err
      then (if reconnect \<noteq> None then (Some [], c, s) else consume_loop f close_send es c s)
      else (Some [Some err], c, s))"
| "consume_loop f close_send (Received task # es) c s =
     (let c' = c\<lparr>co_unackedMsgCount := co_unackedMsgCount c + 1\<rparr>
      in case f s task of
           (Some err, s') \<Rightarrow> (Some [Some err, close_send], c'\<lparr>co_closed := True\<rparr>, s')
         | (None, s') \<Rightarrow> consume_loop f close_send es c' s')"

text \<open>\<open>start\<close> is the outcome of opening the stream.\<close>

definition Consume ::
  "error option \<Rightarrow> ('s \<Rightarrow> Task \<Rightarrow> error option \<times> 's) \<Rightarrow> error option \<Rightarrow> consume_event list \<Rightarrow> Consumer \<Rightarrow> 's \<Rightarrow>
     error option list option \<times> Consumer \<times> 's" where
  "Consume start f close_send es c s =
     (case start of Some err \<Rightarrow> (Some [Some err], c, s) | None \<Rightarrow> consume_loop f close_send es c s)"

text \<open>\<^verbatim>\<open>Message.Ack\<close> makes the acknowledgement of its task.\<close>

definition Message_Ack :: "Task \<Rightarrow> Ack" where
  "Message_Ack task = \<lparr>ack_reference = Some \<lparr>ref_queue = task_queue task, ref_task_id = task_id task\<rparr>\<rparr>"

text \<open>
  One round of \<^verbatim>\<open>startAckHandler\<close>: what happens to an acknowledgement, and whether the loop goes on. The list has the outcome of
  each attempt to send with that of the reconnection after it.
\<close>

datatype ack_outcome = AckSent | AckFailed error | AckDropped

fun send_ack :: "(error option \<times> error option) list \<Rightarrow> ack_outcome option" where
  "send_ack [] = None"
| "send_ack ((send, reconnect) # os) =
     (case send of
        None \<Rightarrow> Some AckSent
      | Some err \<Rightarrow>
          (if is_unavailable err
           then (case reconnect of None \<Rightarrow> send_ack os | Some err' \<Rightarrow> Some (AckFailed err'))
           else Some (AckFailed err)))"

definition startAckHandler_round ::
  "(error option \<times> error option) list \<Rightarrow> Consumer \<Rightarrow> (bool \<times> ack_outcome \<times> Consumer) option" where
  "startAckHandler_round os c =
     (let c' = c\<lparr>co_unackedMsgCount := co_unackedMsgCount c - 1\<rparr>
      in if co_closed c'
         then (if co_unackedMsgCount c' = 0 then Some (False, AckDropped, c') else Some (True, AckDropped, c'))
         else (case send_ack os of None \<Rightarrow> None | Some r \<Rightarrow> Some (True, r, c')))"

section \<open>Futures\<close>

text \<open>A future waits exactly if it was made and has no result.\<close>

definition sp_ok :: "StreamingProducer \<Rightarrow> bool" where
  "sp_ok p \<longleftrightarrow> distinct (sp_pending p) \<and> (\<forall>f. f \<in> set (sp_pending p) \<longleftrightarrow> f < sp_made p \<and> sp_result p f = None) \<and>
     (\<forall>f. sp_made p \<le> f \<longrightarrow> sp_result p f = None)"

lemma set_all_eq:
  "distinct fs \<Longrightarrow> \<forall>f \<in> set fs. sp_result p f = None \<Longrightarrow>
     set_all fs r p = Some (p\<lparr>sp_result := (\<lambda>f. if f \<in> set fs then Some r else sp_result p f)\<rparr>)"
proof (induction fs arbitrary: p)
  case (Cons f fs)
  let ?p = "p\<lparr>sp_result := (sp_result p)(f \<mapsto> r)\<rparr>"
  have "\<forall>g \<in> set fs. sp_result ?p g = None" using Cons.prems by auto
  from Cons.IH [OF _ this] Cons.prems show ?case
    by (simp add: future_set_def) (rule StreamingProducer.fold_congs(2); auto simp: fun_eq_iff)
qed (simp add: fun_eq_iff)

lemma sp_reconnect_eq:
  assumes "distinct (sp_pending p)" "\<forall>f \<in> set (sp_pending p). sp_result p f = None"
  shows "sp_reconnect reset open_stream p =
    (case reset of
       Some err \<Rightarrow> Some (Some err, p)
     | None \<Rightarrow> Some (open_stream, p\<lparr>sp_result := (\<lambda>f. if f \<in> set (sp_pending p) then Some (Inl ErrInterruptedFuture) else sp_result p f),
         sp_pending := []\<rparr>))"
  using assms by (auto simp: sp_reconnect_def set_all_eq split: option.splits)

lemma sp_okD: "sp_ok p \<Longrightarrow> distinct (sp_pending p)" "sp_ok p \<Longrightarrow> \<forall>f \<in> set (sp_pending p). sp_result p f = None"
  by (auto simp: sp_ok_def)

lemma sp_reconnect_ok:
  assumes "sp_ok p"
  shows "\<exists>e p'. sp_reconnect reset open_stream p = Some (e, p') \<and> sp_ok p' \<and> sp_made p' = sp_made p \<and>
    (\<forall>f r. sp_result p f = Some r \<longrightarrow> sp_result p' f = Some r)"
  unfolding sp_reconnect_eq [OF sp_okD [OF assms]] using assms
  by (auto simp: sp_ok_def split: option.splits)

text \<open>The state of the producer while a future is being sent, which is not yet in the list.\<close>

definition sp_sending :: "nat \<Rightarrow> StreamingProducer \<Rightarrow> bool" where
  "sp_sending f p \<longleftrightarrow> sp_made p = Suc f \<and> sp_ok (p\<lparr>sp_made := f\<rparr>)"

lemma sp_sendingD:
  assumes "sp_sending f p"
  shows "sp_result p f = None" "f \<notin> set (sp_pending p)" "distinct (sp_pending p)" "\<forall>g \<in> set (sp_pending p). sp_result p g = None"
  using assms by (auto simp: sp_sending_def sp_ok_def)

lemma sp_sending_push:
  assumes "sp_sending f p"
  shows "sp_ok (p\<lparr>sp_pending := sp_pending p @ [f]\<rparr>)"
  using assms sp_sendingD [OF assms] unfolding sp_sending_def sp_ok_def by (auto simp: less_Suc_eq)

lemma sp_sending_set:
  assumes "sp_sending f p"
  shows "future_set f r p = Some (p\<lparr>sp_result := (sp_result p)(f \<mapsto> r)\<rparr>)" "sp_ok (p\<lparr>sp_result := (sp_result p)(f \<mapsto> r)\<rparr>)"
  using assms sp_sendingD [OF assms] unfolding sp_sending_def sp_ok_def by (auto simp: less_Suc_eq future_set_def)

lemma sp_sending_reconnect:
  assumes "sp_sending f p"
  shows "\<exists>e q. sp_reconnect reset op p = Some (e, q) \<and> sp_sending f q \<and> (\<forall>g r. sp_result p g = Some r \<longrightarrow> sp_result q g = Some r)"
  unfolding sp_reconnect_eq [OF sp_sendingD(3,4) [OF assms]]
  using assms sp_sendingD [OF assms] unfolding sp_sending_def sp_ok_def by (cases reset) auto

lemma sp_send_ok:
  assumes "sp_sending f p" "sp_send f os p = Some p'"
  shows "sp_ok p' \<and> (\<forall>g r. sp_result p g = Some r \<longrightarrow> sp_result p' g = Some r)"
  using assms
proof (induction os arbitrary: p)
  case (Cons o' os)
  obtain send reset op where o': "o' = (send, reset, op)" by (cases o')
  have final: "sp_ok q' \<and> (\<forall>g r. sp_result q g = Some r \<longrightarrow> sp_result q' g = Some r)"
    if "sp_sending f q" "future_set f x q = Some q'" for q q' x
    using sp_sending_set [OF that(1), of x] sp_sendingD(1) [OF that(1)] that(2) by auto
  obtain e q where r: "sp_reconnect reset op p = Some (e, q)" "sp_sending f q"
    "\<forall>g r. sp_result p g = Some r \<longrightarrow> sp_result q g = Some r"
    using sp_sending_reconnect [OF Cons.prems(1)] by blast
  consider "send = None" | err where "send = Some err" "is_unavailable err" "e = None"
    | err e' where "send = Some err" "is_unavailable err" "e = Some e'" | err where "send = Some err" "\<not> is_unavailable err"
    by (cases send; cases e) auto
  then show ?case
  proof cases
    case 1
    with Cons.prems o' sp_sending_push show ?thesis by auto
  next
    case 2
    with Cons.prems(2) o' r(1) have "sp_send f os q = Some p'" by simp
    from Cons.IH [OF r(2) this] r(3) show ?thesis by blast
  next
    case (3 err e')
    with Cons.prems(2) o' r(1) have "future_set f (Inl e') q = Some p'" by simp
    from final [OF r(2) this] r(3) show ?thesis by blast
  next
    case (4 err)
    with Cons.prems(2) o' have "future_set f (Inl err) p = Some p'" by simp
    from final [OF Cons.prems(1) this] show ?thesis .
  qed
qed simp

lemma sp_CreateTask_ok:
  assumes "sp_ok p" "sp_CreateTask os p = Some (f, p')"
  shows "f = sp_made p \<and> sp_ok p' \<and> (\<forall>g r. sp_result p g = Some r \<longrightarrow> sp_result p' g = Some r)"
proof -
  have "sp_sending (sp_made p) (p\<lparr>sp_made := sp_made p + 1\<rparr>)" using assms(1) by (simp add: sp_sending_def)
  moreover have "sp_send (sp_made p) os (p\<lparr>sp_made := sp_made p + 1\<rparr>) = Some p'" "f = sp_made p"
    using assms(2) by (auto simp: sp_CreateTask_def Let_def split: option.splits)
  ultimately show ?thesis using sp_send_ok by fastforce
qed

lemma sp_answer_ok:
  assumes "sp_ok p" "sp_pending p = f # fs"
  shows "future_set f x (p\<lparr>sp_pending := fs\<rparr>) = Some (p\<lparr>sp_pending := fs, sp_result := (sp_result p)(f \<mapsto> x)\<rparr>)"
    "sp_ok (p\<lparr>sp_pending := fs, sp_result := (sp_result p)(f \<mapsto> x)\<rparr>)" "sp_result p f = None"
proof -
  have d: "f \<notin> set fs" "distinct fs" "sp_result p f = None"
    and m: "\<And>g. g = f \<or> g \<in> set fs \<longleftrightarrow> g < sp_made p \<and> sp_result p g = None"
    and n: "\<And>g. sp_made p \<le> g \<Longrightarrow> sp_result p g = None"
    using assms by (auto simp: sp_ok_def)
  show "sp_result p f = None" by (rule d(3))
  show "future_set f x (p\<lparr>sp_pending := fs\<rparr>) = Some (p\<lparr>sp_pending := fs, sp_result := (sp_result p)(f \<mapsto> x)\<rparr>)"
    using d(3) by (simp add: future_set_def)
  have "f < sp_made p" using m [of f] by simp
  then show "sp_ok (p\<lparr>sp_pending := fs, sp_result := (sp_result p)(f \<mapsto> x)\<rparr>)"
    unfolding sp_ok_def using d(1,2) m n by (auto split: if_splits)
qed

text \<open>The outcomes of a round on a state that is in order.\<close>

lemma handleCallbacks_round_cases:
  assumes "sp_ok p"
  shows "(\<exists>res. recv = Inr res) \<and> sp_pending p = [] \<and> handleCallbacks_round recv reset op p = None \<or>
    \<not> ((\<exists>res. recv = Inr res) \<and> sp_pending p = []) \<and> (\<exists>go p'. handleCallbacks_round recv reset op p = Some (go, p') \<and>
       sp_ok p' \<and> (\<forall>g r. sp_result p g = Some r \<longrightarrow> sp_result p' g = Some r))"
proof (cases recv)
  case (Inl err)
  with sp_reconnect_ok [OF assms, of reset op] assms show ?thesis by (auto simp: handleCallbacks_round_def)
next
  case (Inr res)
  show ?thesis
  proof (cases "sp_pending p")
    case Nil
    with Inr show ?thesis by (simp add: handleCallbacks_round_def)
  next
    case (Cons f fs)
    note ans = sp_answer_ok [OF assms Cons]
    show ?thesis
    proof (cases "pss_task res")
      case None
      with Inr Cons ans show ?thesis by (auto simp: handleCallbacks_round_def)
    next
      case (Some t)
      obtain e q where "sp_reconnect reset op (p\<lparr>sp_pending := fs, sp_result := (sp_result p)(f \<mapsto> Inr t)\<rparr>) = Some (e, q)" "sp_ok q"
        and keep: "\<forall>g r. sp_result (p\<lparr>sp_pending := fs, sp_result := (sp_result p)(f \<mapsto> Inr t)\<rparr>) g = Some r \<longrightarrow> sp_result q g = Some r"
        using sp_reconnect_ok [OF ans(2)] by blast
      moreover have "sp_result q g = Some r" if "sp_result p g = Some r" for g r
        using keep [rule_format, of g r] ans(3) that by (cases "g = f") auto
      ultimately show ?thesis using Inr Cons ans Some by (auto simp: handleCallbacks_round_def)
    qed
  qed
qed

section \<open>Properties\<close>



text \<open>The rounds of \<^verbatim>\<open>handleCallbacks\<close> on responses with a task, from a leader.\<close>

fun answers :: "Task list \<Rightarrow> StreamingProducer \<Rightarrow> StreamingProducer option" where
  "answers [] p = Some p"
| "answers (t # ts) p =
     (case handleCallbacks_round (Inr \<lparr>pss_task = Some t, pss_status = OK, pss_message = [], pss_forwarded_to = []\<rparr>) None None p of
        None \<Rightarrow> None
      | Some (go, p') \<Rightarrow> answers ts p')"

lemma answers_keep:
  "sp_ok p \<Longrightarrow> answers ts p = Some p' \<Longrightarrow> sp_result p f = Some r \<Longrightarrow> sp_result p' f = Some r"
proof (induction ts arbitrary: p)
  case (Cons t ts)
  let ?r = "Inr \<lparr>pss_task = Some t, pss_status = OK, pss_message = [], pss_forwarded_to = []\<rparr>"
  obtain go q where q: "handleCallbacks_round ?r None None p = Some (go, q)" "answers ts q = Some p'"
    using Cons.prems(2) by (auto split: option.splits)
  with handleCallbacks_round_cases [OF Cons.prems(1), of ?r None None] Cons.IH [of q] Cons.prems(3) show ?case by auto
qed simp



text \<open>
  \<^verbatim>\<open>CreateTask\<close> of the unary producer calls itself while it holds its mutex: when the server is unavailable and a
  connection to a leader is found again, the call never returns.
\<close>

theorem unary_CreateTask_deadlock:
  assumes "push (up_client p) req n = (Inl (EStatus Unavailable m), n')"
    "ResetConn dial info attempts (cp_term pool) pool n' = Some (Inr conn, pool', n'')"
  shows "unary_CreateTask push dial info attempts req p pool n = None"
  using assms by (subst unary_CreateTask.simps) (simp add: is_unavailable_def)

text \<open>
  The connection may be replaced by \<^verbatim>\<open>CreateTask\<close> while \<^verbatim>\<open>handleCallbacks\<close> waits for a response on the earlier stream; the futures are
  then gone, and a response that still comes makes the program panic.
\<close>

theorem late_response_panics:
  assumes "sp_ok p" "sp_reconnect None None p = Some (None, p')"
  shows "handleCallbacks_round (Inr res) reset op p' = None"
  using assms(2) unfolding sp_reconnect_eq [OF sp_okD [OF assms(1)]] by (auto simp: handleCallbacks_round_def)

lemma leader_address_unique:
  assumes "m \<in> set ms" "si_id m = l" "\<forall>k \<in> set ms. si_id k = l \<longrightarrow> k = m"
  shows "leader_address l ms a = peer_address m"
proof -
  have none: "leader_address l ms a = a" if "\<forall>k \<in> set ms. si_id k \<noteq> l" for ms a
    using that by (induction ms arbitrary: a) auto
  show ?thesis using assms
  proof (induction ms arbitrary: a)
    case (Cons k ms)
    show ?case
    proof (cases "m \<in> set ms")
      case False
      with Cons.prems have "k = m" "\<forall>k \<in> set ms. si_id k \<noteq> l" by auto
      with none Cons.prems(2) show ?thesis by simp
    next
      case True
      have "\<forall>k \<in> set ms. si_id k = l \<longrightarrow> k = m" using Cons.prems(3) by simp
      from Cons.IH [OF True Cons.prems(2) this] show ?thesis by simp
    qed
  qed simp
qed



text \<open>
  Nodes that do not agree can send the client around forever: if every node of a group reports a leader other than itself, at an address
  of the group, \<^verbatim>\<open>seed\<close> does not return.
\<close>

theorem seed_never_returns:
  assumes "\<And>a n. a \<in> S \<Longrightarrow> dial a = None \<and> (\<exists>i n'. info a n = (Inr i, n') \<and> ci_leader_id i \<noteq> [] \<and> ci_server_id i \<noteq> ci_leader_id i \<and>
      leader_address (ci_leader_id i) (ci_members i) [] \<in> S)"
    and "a \<in> S"
  shows "seed dial info a p n = None"
proof -
  have loop: "dl = dial \<longrightarrow> inf = info \<longrightarrow> b \<notin> S" if "seed dl inf b q k = Some y" for dl inf b q k y
  proof (rule seed.raw_induct [where P = "\<lambda>dl inf b q k y. dl = dial \<longrightarrow> inf = info \<longrightarrow> b \<notin> S", OF _ that], intro impI notI, goal_cases)
    case (1 sd dl inf b q k y)
    from assms(1) [OF 1(5), of k] obtain i n' where i: "dial b = None" "info b k = (Inr i, n')" "ci_leader_id i \<noteq> []"
      "ci_server_id i \<noteq> ci_leader_id i" "leader_address (ci_leader_id i) (ci_members i) [] \<in> S" by blast
    with 1(2-4) have "sd dial info (leader_address (ci_leader_id i) (ci_members i) []) (q\<lparr>cp_conn := None\<rparr>) n' = Some y" by simp
    from 1(1) [OF this] i(5) show False by simp
  qed
  show ?thesis using loop [of dial info a p n] assms(2) by (cases "seed dial info a p n") auto
qed

end
