(* ===== verification/Node.thy ===== *)
theory Node
  imports Snapshot Index_Sequence Client
begin

text \<open>
  A node as \<^verbatim>\<open>src/server/server.go\<close> puts it together: one database under the state machine and under the generator
  of indexes, snapshots of the state machine (\<^verbatim>\<open>src/server/cluster/sm/fsm.go\<close>), and the shutdown. The lemmas say
  what becomes of a task on its way through the parts, and what a replica restored from a snapshot knows.
\<close>

section \<open>The parts of a node\<close>

record Server =
  sv_idx :: IndexStore
  sv_fsm :: StateMachine

definition sv_db :: "Server \<Rightarrow> db" where
  "sv_db s = snd (fsm_store (sv_fsm s))"

text \<open>The generator of the node, with the entries that its cache evicts.\<close>

definition node_ID :: "string list \<Rightarrow> string \<Rightarrow> time \<Rightarrow> Server \<Rightarrow> ((error + TaskID) \<times> Server) option" where
  "node_ID evicted queue ts s =
     (case IDGenerator_ID evicted (sv_idx s) (sv_db s) queue ts of
        None \<Rightarrow> None
      | Some (r, idx', d') \<Rightarrow>
          Some (r, \<lparr>sv_idx = idx', sv_fsm = (sv_fsm s)\<lparr>fsm_store := (fst (fsm_store (sv_fsm s)), d')\<rparr>\<rparr>))"

text \<open>Raft in a cluster of this node only: every entry is committed and applied at once.\<close>

definition node_Apply :: "codec \<Rightarrow> part list \<Rightarrow> bytes \<Rightarrow> Server \<Rightarrow> error option \<times> Server" where
  "node_Apply pb order cmd s =
     (case single_node pb order cmd (sv_fsm s) of (r, f') \<Rightarrow> (r, s\<lparr>sv_fsm := f'\<rparr>))"

definition fsm_Snapshot :: "StateMachine \<Rightarrow> kv" where
  "fsm_Snapshot f = store_Iterator (snd (fsm_store f))"

definition fsm_Restore :: "stream \<Rightarrow> StateMachine \<Rightarrow> error option \<times> StateMachine" where
  "fsm_Restore snapshot f =
     (case Restore store_DeleteAll store_Write snapshot (snd (fsm_store f)) of
        (r, d') \<Rightarrow> (r, f\<lparr>fsm_store := (fst (fsm_store f), d')\<rparr>))"

text \<open>
  \<^verbatim>\<open>Close\<close> of the server: raft is shut down first, so that what the feeds write when the manager closes them meets
  the error of a raft that has been shut down. \<open>down\<close> is the outcome of closing the peer.
\<close>

definition ErrRaftShutdown :: error where
  "ErrRaftShutdown = EMsg ''raft is already shutdown''"

definition raft_shutdown :: "bytes \<Rightarrow> 'w \<Rightarrow> error option \<times> 'w" where
  "raft_shutdown cmd w = (Some ErrRaftShutdown, w)"

definition Server_Close ::
  "codec \<Rightarrow> error option \<Rightarrow> string list \<Rightarrow> 'w Manager \<Rightarrow> taskWriter \<Rightarrow> IndexStore \<Rightarrow> db \<Rightarrow>
     error option list \<times> 'w Manager \<times> taskWriter \<times> IndexStore \<times> db" where
  "Server_Close pb down order fm tw idx d =
     (case Manager_Close pb raft_shutdown order fm of
        (errs, fm') \<Rightarrow>
          (case tw_Close tw of
             (e, tw') \<Rightarrow>
               (case IndexStore_Close idx d of
                  (e', idx', d') \<Rightarrow> (down # errs @ [e, e'], fm', tw', idx', d'))))"

section \<open>Snapshots of a replica\<close>

text \<open>C17. Bringing a replica up to date by a snapshot: if the node that takes it has no acknowledgements in its buffer, and
  the node that restores it has none, the latter holds the same pairs as the former, whatever it held before, and goes on from there.\<close>

theorem restored_replica:
  assumes "fsm_ok f" "fsm_ok g" "z4_db (snd (fsm_store f))" "z4_db (snd (fsm_store g))" "fits (fsm_Snapshot f)"
    and "tw_acked (fsm_store f) = {}" "tw_acked (fsm_store g) = {}"
  shows "\<exists>dst g'. Persist (fsm_Snapshot f) \<lparr>sink_data = [], sink_faults = []\<rparr> = (None, dst) \<and>
    fsm_Restore \<lparr>st_data = sink_data dst, st_end = EOF\<rparr> g = (None, g') \<and> fsm_ok g' \<and>
    tw_view (fsm_store g') = tw_view (fsm_store f) \<and> db_kv (snd (fsm_store g')) = db_kv (snd (fsm_store f))"
proof -
  obtain dst d where d: "Persist (fsm_Snapshot f) \<lparr>sink_data = [], sink_faults = []\<rparr> = (None, dst)"
    "Restore store_DeleteAll store_Write \<lparr>st_data = sink_data dst, st_end = EOF\<rparr> (snd (fsm_store g)) = (None, d)"
    "z4_db d" "db_kv d = db_kv (snd (fsm_store f))"
    using snapshot_copies [OF assms(3,4)] assms(5) unfolding fsm_Snapshot_def store_Iterator_def by blast
  have "fsm_ok (g\<lparr>fsm_store := (fst (fsm_store g), d)\<rparr>)"
    using assms(2) d(3) by (simp add: fsm_ok_def tw_ok_def z4_db_def)
  moreover have "tw_view (fst (fsm_store g), d) = tw_view (fsm_store f)"
    using assms(6,7) d(4) by (simp add: fun_eq_iff tw_view_def tw_acked_def db_lookup_def)
  ultimately show ?thesis
    using d(1,2,4) by (simp add: fsm_Restore_def)
qed

theorem restored_replica_witness:
  "\<exists>dst g'. Persist (fsm_Snapshot (sample_fsm\<lparr>fsm_store := (NewTaskWriter, \<lparr>db_kv = [(getSeqKey ''q'', PutUint64 7)], db_faults = []\<rparr>)\<rparr>))
      \<lparr>sink_data = [], sink_faults = []\<rparr> = (None, dst) \<and>
    fsm_Restore \<lparr>st_data = sink_data dst, st_end = EOF\<rparr> sample_fsm = (None, g') \<and> db_kv (snd (fsm_store g')) = [(getSeqKey ''q'', PutUint64 7)]"
proof -
  let ?f = "sample_fsm\<lparr>fsm_store := (NewTaskWriter, \<lparr>db_kv = [(getSeqKey ''q'', PutUint64 7)], db_faults = []\<rparr>)\<rparr>"
  have "fsm_ok ?f" "z4_db (snd (fsm_store ?f))" "z4_db (snd (fsm_store sample_fsm))" "fits (fsm_Snapshot ?f)" "tw_acked (fsm_store ?f) = {}"
    by (simp_all add: fsm_ok_def tw_ok_def sample_fsm_def z4_db_def db_ok_def fits_def fsm_Snapshot_def store_Iterator_def
        tw_acked_def NewTaskWriter_def ack_keys_def) (simp add: getSeqKey_def str_bytes_def)
  from restored_replica [OF this(1) sample_fsm_ok(1) this(2-5) sample_fsm_ok(2)] show ?thesis by auto
qed

text \<open>
  Acknowledgements that are still in the buffer are not part of a snapshot, and raft drops the log entries that a snapshot
  stands for: on a replica that is restored from it, the tasks are back.
\<close>

theorem snapshot_forgets_acks:
  assumes "fsm_ok f" "fsm_ok g" "z4_db (snd (fsm_store f))" "z4_db (snd (fsm_store g))" "fits (fsm_Snapshot f)"
    and "k \<in> tw_acked (fsm_store f)" "db_lookup (snd (fsm_store f)) k = Some v" "tw_acked (fsm_store g) = {}"
  shows "tw_view (fsm_store f) k = None"
    and "\<exists>dst g'. Persist (fsm_Snapshot f) \<lparr>sink_data = [], sink_faults = []\<rparr> = (None, dst) \<and>
      fsm_Restore \<lparr>st_data = sink_data dst, st_end = EOF\<rparr> g = (None, g') \<and> tw_view (fsm_store g') k = Some v"
proof -
  show "tw_view (fsm_store f) k = None" using assms(6) by (simp add: tw_view_def tw_acked_def)
  obtain dst d where d: "Persist (fsm_Snapshot f) \<lparr>sink_data = [], sink_faults = []\<rparr> = (None, dst)"
    "Restore store_DeleteAll store_Write \<lparr>st_data = sink_data dst, st_end = EOF\<rparr> (snd (fsm_store g)) = (None, d)"
    "z4_db d" "db_kv d = db_kv (snd (fsm_store f))"
    using snapshot_copies [OF assms(3,4)] assms(5) unfolding fsm_Snapshot_def store_Iterator_def by blast
  have "\<not> prefix seq_prefix k"
    using assms(6) ack_keys_task [of k] by (auto simp: tw_acked_def seq_prefix_def prefix_def)
  then have "tw_view (fst (fsm_store g), d) k = Some v"
    using assms(7,8) d(4) by (simp add: tw_view_def tw_acked_def db_lookup_def)
  with d(1,2) show "\<exists>dst g'. Persist (fsm_Snapshot f) \<lparr>sink_data = [], sink_faults = []\<rparr> = (None, dst) \<and>
      fsm_Restore \<lparr>st_data = sink_data dst, st_end = EOF\<rparr> g = (None, g') \<and> tw_view (fsm_store g') k = Some v"
    by (simp add: fsm_Restore_def)
qed

section \<open>Shutdown\<close>

lemma trySave_shutdown: "snd (snd (trySave pb raft_shutdown s w)) = w"
  by (simp add: trySave_def raft_shutdown_def Let_def)

lemma Manager_Close_shutdown: "qm_raft (snd (Manager_Close pb raft_shutdown order m)) = qm_raft m"
proof (induction order arbitrary: m)
  case (Cons q qs)
  have w: "snd (snd (lh_Close pb raft_shutdown h w)) = w" for h w
    using trySave_shutdown [of pb "fd_settings (lh_F h)" w]
    by (auto simp: lh_Close_def Feed_Close_def ss_Close_def startSync_tick_def split: prod.splits option.splits)
  show ?case by (simp add: Cons.IH w case_prod_unfold split: option.splits)
qed simp

text \<open>
  The checkpoints of the feeds that are open when the server is closed are not saved: raft is left as it was, although
  the manager reports no error. Tasks delivered since the last save are delivered again.
\<close>

theorem close_loses_checkpoints:
  assumes "Server_Close pb down order fm tw idx d = (errs, fm', rest)"
  shows "qm_raft fm' = qm_raft fm"
  using assms Manager_Close_shutdown [of pb order fm] by (auto simp: Server_Close_def split: prod.splits)

section \<open>A task on its way\<close>

text \<open>What encodes: protobuf encodes every command of the node and every task.\<close>

definition encodes :: "codec \<Rightarrow> bool" where
  "encodes pb \<longleftrightarrow> codec_ok pb \<and> (\<forall>t. marshal_task pb t \<noteq> None) \<and> (\<forall>c. marshal_command pb c \<noteq> None)"

lemma encodesD:
  assumes "encodes pb"
  shows "codec_ok pb" "\<exists>b. marshal_task pb t = Some b \<and> unmarshal_task pb b = Some t"
    "\<exists>b. marshal_command pb c = Some b \<and> unmarshal_command pb b = Some c"
  using assms codec_okD [of pb] unfolding encodes_def by (blast, metis option.exhaust, metis option.exhaust)

text \<open>The indexes of the node, and its state machine, are in order.\<close>

definition node_ok :: "Server \<Rightarrow> bool" where
  "node_ok s \<longleftrightarrow> index_ok (sv_idx s, sv_db s) \<and> fsm_ok (sv_fsm s)"

lemma index_ok_cong:
  assumes "index_ok (st, d)" "db_ok d'" "db_faults d' = []" "\<And>q. db_lookup d' (getSeqKey q) = db_lookup d (getSeqKey q)"
  shows "index_ok (st, d')" "index_mark (st, d') = index_mark (st, d)"
proof -
  note ok = index_okD [OF assms(1)]
  have "seq_ok s d'" if "map_of (is_cache st) q = Some s" for q s
    using ok(4,5) [OF that] assms(4) by (simp add: seq_ok_cong [of d' s d])
  then show "index_ok (st, d')" using ok(3,5-7) assms(2-4) by (intro index_okI) simp_all
  show "index_mark (st, d') = index_mark (st, d)"
    by (simp add: fun_eq_iff index_mark_def stored_def assms(4) split: option.splits)
qed

lemma node_ID_ok:
  assumes "node_ok s" "index_mark (sv_idx s, sv_db s) queue + 10000 < 2 ^ 64"
  obtains v st d where "node_ID evicted queue ts s =
      Some (Inr (iden_New ts v), \<lparr>sv_idx = st, sv_fsm = (sv_fsm s)\<lparr>fsm_store := (fst (fsm_store (sv_fsm s)), d)\<rparr>\<rparr>)"
    "unat v = Suc (index_mark (sv_idx s, sv_db s) queue)" "index_ok (st, d)"
    "index_mark (st, d) = (index_mark (sv_idx s, sv_db s))(queue := unat v)"
    "\<And>k. k \<notin> range getSeqKey \<Longrightarrow> db_lookup d k = db_lookup (sv_db s) k"
proof -
  have "index_ok (sv_idx s, sv_db s)" using assms(1) by (simp add: node_ok_def)
  from IndexStore_Next_ok [OF this assms(2), of evicted]
  show ?thesis by (auto simp: node_ID_def IDGenerator_ID_def intro: that)
qed

text \<open>An entry with one command, applied by the node: the other parts of the batch are empty.\<close>

lemma run_parts_single:
  assumes "\<And>p s. p \<noteq> p0 \<Longrightarrow> run_part push acknowledge save handle w p s = Some (None, s)"
    and "run_part push acknowledge save handle w p0 s = Some (e, s')" "distinct order" "p0 \<in> set order"
  shows "run_parts push acknowledge save handle w order s (\<lambda>_. None) = Some ((\<lambda>_. None)(p0 := e), s')"
proof -
  have rest: "run_parts push acknowledge save handle w ps s errs = Some (errs, s)"
    if "p0 \<notin> set ps" "\<forall>p \<in> set ps. errs p = None" for ps s errs
    using that
  proof (induction ps)
    case (Cons p ps)
    then have "errs(p := None) = errs" by (simp add: fun_upd_idem)
    moreover have "p \<noteq> p0" using Cons.prems(1) by auto
    ultimately show ?case using Cons by (simp add: assms(1))
  qed simp
  show ?thesis
    using assms(2-4)
  proof (induction order arbitrary: s)
    case (Cons p ps)
    show ?case
    proof (cases "p = p0")
      case True
      with Cons.prems show ?thesis by (simp add: rest fun_eq_iff)
    next
      case False
      have "(\<lambda>_. None)(p := None) = (\<lambda>_. None :: error option)" by (simp add: fun_eq_iff)
      with False Cons show ?thesis by (simp add: assms(1))
    qed
  qed simp
qed

definition order_ok :: "part list \<Rightarrow> bool" where
  "order_ok order \<longleftrightarrow> distinct order \<and> set order = UNIV"

fun part_of :: "Command \<Rightarrow> part" where
  "part_of (Command_Task t) = PTasks"
| "part_of (Command_Ack a) = PAcks"
| "part_of (Command_Queue q) = PSettings"
| "part_of Command_Unset = PAcks"

abbreviation (input) store_of :: "Server \<Rightarrow> taskWriter \<times> db" where
  "store_of s \<equiv> fsm_store (sv_fsm s)"

abbreviation (input) with_store :: "Server \<Rightarrow> taskWriter \<times> db \<Rightarrow> Server" where
  "with_store s st \<equiv> s\<lparr>sv_fsm := (sv_fsm s)\<lparr>fsm_store := st\<rparr>\<rparr>"

lemma node_Apply_part:
  assumes "fsm_ok (sv_fsm s)" "unmarshal_command pb b = Some c" "c \<noteq> Command_Unset" "order_ok order"
    and "run_part (tw_push pb) tw_acknowledge (tw_save pb) (fsm_handle (sv_fsm s))
        \<lparr>bw_acks = acks_of [c], bw_tasks = tasks_of [c], bw_settings = configs_of [c]\<rparr> (part_of c) (store_of s) = Some (e, st)"
  shows "node_Apply pb order b s = (None, with_store s st)"
proof -
  let ?w = "\<lparr>bw_acks = acks_of [c], bw_tasks = tasks_of [c], bw_settings = configs_of [c]\<rparr>"
  have g: "groupByType pb [\<lparr>log_is_command = True, log_data = b\<rparr>] newBatchWriter = (None, ?w)"
    using assms(2,3) by (cases c) (simp_all add: newBatchWriter_def)
  have "run_part (tw_push pb) tw_acknowledge (tw_save pb) (fsm_handle (sv_fsm s)) ?w p s' = Some (None, s')" if "p \<noteq> part_of c" for p s'
    using that assms(3) by (cases c; cases p) (simp_all add: applySettings_def applyTasks_def applyAcks_def)
  then have "run_parts (tw_push pb) tw_acknowledge (tw_save pb) (fsm_handle (sv_fsm s)) ?w order (store_of s) (\<lambda>_. None)
      = Some ((\<lambda>_. None)(part_of c := e), st)"
    using assms(4) by (intro run_parts_single [OF _ assms(5)]) (auto simp: order_ok_def)
  moreover have "fsm_writer (sv_fsm s) = newBatchWriter" using assms(1) by (simp add: fsm_ok_def)
  moreover have "bw_reset ?w = newBatchWriter" by (simp add: bw_reset_def newBatchWriter_def)
  ultimately show ?thesis
    using g by (cases "sv_fsm s") (auto simp: node_Apply_def single_node_def ApplyBatch_def bw_Write_def Let_def split: option.splits)
qed

lemma node_Apply_single:
  assumes "fsm_ok (sv_fsm s)" "unmarshal_command pb b = Some c" "order_ok order"
  shows "c = Command_Task t \<Longrightarrow> tw_push pb [t] (fsm_handle (sv_fsm s) \<noteq> Some True) (store_of s) = Some (e, st) \<Longrightarrow>
      node_Apply pb order b s = (None, with_store s st)"
    and "c = Command_Ack a \<Longrightarrow> node_Apply pb order b s = (None, with_store s (snd (tw_acknowledge [a] (store_of s))))"
    and "c = Command_Queue q \<Longrightarrow> node_Apply pb order b s = (None, with_store s (snd (tw_save pb q (store_of s))))"
proof -
  show "node_Apply pb order b s = (None, with_store s st)"
    if "c = Command_Task t" "tw_push pb [t] (fsm_handle (sv_fsm s) \<noteq> Some True) (store_of s) = Some (e, st)"
    using that by (intro node_Apply_part [OF assms(1,2) _ assms(3)]) (auto simp: applyTasks_def split: option.splits)
  show "node_Apply pb order b s = (None, with_store s (snd (tw_acknowledge [a] (store_of s))))" if "c = Command_Ack a"
    using that by (intro node_Apply_part [OF assms(1,2) _ assms(3), where e = "fst (tw_acknowledge [a] (store_of s))"]) (simp_all add: applyAcks_def)
  show "node_Apply pb order b s = (None, with_store s (snd (tw_save pb q (store_of s))))" if "c = Command_Queue q"
    using that by (intro node_Apply_part [OF assms(1,2) _ assms(3), where e = "fst (tw_save pb q (store_of s))"])
      (simp_all add: applySettings_def split: prod.splits option.splits)
qed

text \<open>A push on a node that leads: the next index of the queue, and one pair more in the database.\<close>

lemma node_push:
  assumes "encodes pb" "node_ok s" "qs_isLeader q" "run_time_ok (getRunTime (now 1) req)" "order_ok order"
    and "index_mark (sv_idx s, sv_db s) (pr_queue req) + 10000 < 2 ^ 64"
  obtains t v b s' where "Push pb (node_ID evicted) (node_Apply pb order) remote now q req s = Some (Inr \<lparr>ps_task = Some t, ps_forwarded_to = []\<rparr>, s')"
    "MustParseString (task_id t) = Some (task_tid t)" "TaskID_Index (task_tid t) = v" "kind_ok t" "task_queue t = pr_queue req"
    "(schedule_time t = None) = (getRunTime (now 1) req = zero_time)"
    "unat v = Suc (index_mark (sv_idx s, sv_db s) (pr_queue req))"
    "fsm_ok (sv_fsm s')" "fsm_handle (sv_fsm s') = fsm_handle (sv_fsm s)" "fst (store_of s') = fst (store_of s)"
    "unmarshal_task pb b = Some t" "db_lookup (sv_db s') (task_key t) = Some b"
    "\<And>k. k \<noteq> task_key t \<Longrightarrow> k \<notin> range getSeqKey \<Longrightarrow> db_lookup (sv_db s') k = db_lookup (sv_db s) k"
    "fsm_handle (sv_fsm s) = Some True \<Longrightarrow> node_ok s' \<and>
       index_mark (sv_idx s', sv_db s') = (index_mark (sv_idx s, sv_db s))(pr_queue req := unat v)"
proof -
  let ?ts = "getRunTime (now 1) req"
  let ?fl = "fsm_handle (sv_fsm s) \<noteq> Some True"
  obtain v st d where v: "node_ID evicted (pr_queue req) ?ts s =
      Some (Inr (iden_New ?ts v), \<lparr>sv_idx = st, sv_fsm = (sv_fsm s)\<lparr>fsm_store := (fst (store_of s), d)\<rparr>\<rparr>)"
    "unat v = Suc (index_mark (sv_idx s, sv_db s) (pr_queue req))" "index_ok (st, d)"
    "index_mark (st, d) = (index_mark (sv_idx s, sv_db s))(pr_queue req := unat v)"
    "\<And>k. k \<notin> range getSeqKey \<Longrightarrow> db_lookup d k = db_lookup (sv_db s) k"
    using node_ID_ok [OF assms(2,6)] by blast
  note d = index_okD(1,2) [OF v(3)]
  define s0 where "s0 = \<lparr>sv_idx = st, sv_fsm = (sv_fsm s)\<lparr>fsm_store := (fst (store_of s), d)\<rparr>\<rparr>"
  have s0: "fsm_ok (sv_fsm s0)" using assms(2) d by (simp add: s0_def node_ok_def fsm_ok_def tw_ok_def)
  obtain t where t: "makeTask (node_ID evicted) now req s = Some (Inr t, s0)" "MustParseString (task_id t) = Some (iden_New ?ts v)"
    "kind_ok t" "task_queue t = pr_queue req" "schedule_time t = (if ?ts = zero_time then None else Some (timestamppb_New ?ts))"
    using makeTask_valid [of "node_ID evicted" req ?ts s v s0 now, OF v(1) [folded s0_def] refl assms(4)] by auto
  have tid: "task_tid t = iden_New ?ts v" using t(2) by (simp add: task_tid_def)
  obtain b where b: "marshal_task pb t = Some b" "unmarshal_task pb b = Some t" using encodesD(2) [OF assms(1)] by blast
  have kv: "task_kv pb t = Some (task_key t, b)" using t(2) b(1) by (simp add: task_kv_def task_tid_def)
  obtain c where c: "marshal_command pb (Command_Task t) = Some c" "unmarshal_command pb c = Some (Command_Task t)"
    using encodesD(3) [OF assms(1)] by blast
  define m where "m = index_kvs (index_map ?fl [] [t])"
  define kvs where "kvs = (task_key t, b) # (if ?fl then m else [])"
  have m: "save_kvs pb [t] ?fl = Some kvs" "fst ` set m \<subseteq> range getSeqKey"
    using kv by (auto simp: save_kvs_def kvs_def m_def index_kvs_def)
  define d' where "d' = d\<lparr>db_kv := foldl kv_apply (db_kv d) (bsets kvs)\<rparr>"
  have save: "SaveAll pb d [t] ?fl = Some (None, d')" using SaveAll_no_faults [OF d(2) m(1)] by (simp add: d'_def)
  have l: "db_lookup d' k = (if k = task_key t then Some b else if ?fl \<and> k \<in> range getSeqKey then db_lookup d' k else db_lookup d k)" for k
  proof -
    have "db_lookup d' k = (map_of (db_kv d) ++ map_of (rev kvs)) k"
      using foldl_bsets_lookup [of "db_kv d" kvs] d(1) by (simp add: d'_def db_lookup_def db_ok_def)
    moreover have "map_of (rev m) k = None" if "k \<notin> range getSeqKey"
      using that m(2) by (auto simp: map_of_eq_None_iff)
    moreover have "task_key t \<notin> range getSeqKey" using task_key_not_seq_key by auto
    ultimately show ?thesis by (auto simp: kvs_def map_add_def db_lookup_def split: option.splits if_splits)
  qed
  have d': "db_ok d'" "db_faults d' = []" using db_ok_SaveAll [OF d(1) save] d(2) by (simp_all add: d'_def)
  define s1 where "s1 = with_store s0 (fst (store_of s), d')"
  have "node_Apply pb order c s0 = (None, s1)"
    unfolding s1_def by (rule node_Apply_single(1) [OF s0 c(2) assms(5) refl, where e = None]) (simp add: s0_def tw_push_def tw_Push_def save)
  then have push: "Push pb (node_ID evicted) (node_Apply pb order) remote now q req s = Some (Inr \<lparr>ps_task = Some t, ps_forwarded_to = []\<rparr>, s1)"
    using assms(3) t(1) c(1) by (simp add: Push_def createTask_def ApplySaveTaskCommand_def)
  have s1: "sv_db s1 = d'" "sv_idx s1 = st" "fsm_handle (sv_fsm s1) = fsm_handle (sv_fsm s)" "fst (store_of s1) = fst (store_of s)" "fsm_ok (sv_fsm s1)"
    using s0 d' by (simp_all add: s1_def s0_def sv_db_def fsm_ok_def tw_ok_def)
  have "node_ok s1 \<and> index_mark (sv_idx s1, sv_db s1) = (index_mark (sv_idx s, sv_db s))(pr_queue req := unat v)" if "\<not> ?fl"
  proof -
    have "db_lookup d' (getSeqKey p) = db_lookup d (getSeqKey p)" for p
      using that l [of "getSeqKey p"] task_key_not_seq_key [of t "task_tid t" p] by auto
    from index_ok_cong [OF v(3) d' this] s1 v(4) show ?thesis by (simp add: node_ok_def)
  qed
  moreover have "db_lookup (sv_db s1) k = db_lookup (sv_db s) k" if "k \<noteq> task_key t" "k \<notin> range getSeqKey" for k
    using l [of k] that v(5) by (simp add: s1)
  ultimately show ?thesis
    using push t(2-5) tid v(2) s1 b(2) l [of "task_key t"] by (intro that [of t s1 v b]) simp_all
qed

lemma lookup_stored:
  assumes "db_lookup d (task_key t) = Some b" "unmarshal_task pb b = Some t"
  shows "t \<in> stored_tasks pb d"
  using map_of_SomeD [OF assms(1) [unfolded db_lookup_def]] assms(2) prefix_task_key by (force simp: stored_tasks_def)

lemma node_ack:
  assumes "encodes pb" "fsm_ok (sv_fsm s)" "kind_ok t" "order_ok order"
  shows "tw_view (fsm_store (sv_fsm (startAckListener pb (node_Apply pb order) [Inr (Message_Ack t)] s))) (task_key t) = None"
proof -
  obtain a where a: "marshal_command pb (Command_Ack (Message_Ack t)) = Some a" "unmarshal_command pb a = Some (Command_Ack (Message_Ack t))"
    using encodesD(3) [OF assms(1)] by blast
  obtain tid where "MustParseString (task_id t) = Some tid" "getAckKey (ack_of t) = Inr (getTaskKey t tid)"
    by (rule getAckKey_ack_of [OF assms(3)])
  then have ack: "getAckKey (Message_Ack t) = Inr (task_key t)" by (simp add: ack_of_def Message_Ack_def task_tid_def)
  have "tw_ok (store_of s)" using assms(2) by (simp add: fsm_ok_def)
  then have "tw_view (snd (tw_acknowledge [Message_Ack t] (store_of s))) (task_key t) = None"
    using tw_acknowledge_ok [of "store_of s" "[Message_Ack t]"] ack by auto
  with node_Apply_single(2) [OF assms(2) a(2) assms(4) refl] a(1) show ?thesis by (simp add: ApplyAckCommand_def)
qed

lemma pending_fifoI:
  assumes "t \<in> stored_tasks pb d" "schedule_time t = None" "qc_id st = task_queue t"
    and "MustParseString (last_delivered_queued_task st) = Some l" "l = iden_Max \<or> unat (TaskID_Index l) < unat (TaskID_Index (task_tid t))"
  shows "t \<in> pending fifoUndelivered_Query now st pb d"
proof -
  have "TaskID_Index l + 1 \<le> TaskID_Index (task_tid t)"
  proof (cases "l = iden_Max")
    case False
    with assms(5) have less: "TaskID_Index l < TaskID_Index (task_tid t)" by (simp add: word_less_nat_alt)
    then have "TaskID_Index l \<noteq> - 1" by (auto simp: not_less [symmetric])
    from inc_le_iff [OF this] less show ?thesis by blast
  qed simp
  with assms show ?thesis by (simp add: pending_def fifoUndelivered_Query_def)
qed

end
