(* ===== verification/Delivery.thy ===== *)
theory Delivery
  imports Node
begin

text \<open>
  The node at work: pushes to any queue, the rounds of the feed of one queue, acknowledgements, their deletion on the
  timer, and settings saved by this feed and by others, in any order. The lemmas show that the parts keep the conditions under
  which each of them is correct, so that the feed delivers the FIFO tasks of its queue in the order in
  which they were pushed, each of them once. Redelivery and crashes, which deliver tasks again, are not among the steps; a push
  is one step, from the choice of the index to the entry of the log.
\<close>

section \<open>The system\<close>

text \<open>\<open>sy_sent\<close> has the tasks that were pushed, in order; it is not part of the state of the program.\<close>

record System =
  sy_node :: Server
  sy_feed :: Feed
  sy_sent :: "Task list"

abbreviation feed_queue :: "Feed \<Rightarrow> string" where
  "feed_queue f \<equiv> qc_id (the (ss_S (fd_settings f)))"

abbreviation is_fifo :: "Task \<Rightarrow> bool" where
  "is_fifo t \<equiv> schedule_time t = None"

definition fifo_sent :: "string \<Rightarrow> Task list \<Rightarrow> Task list" where
  "fifo_sent q sent = filter (\<lambda>t. task_queue t = q \<and> is_fifo t) sent"

inductive sys_step :: "codec \<Rightarrow> System \<Rightarrow> System \<Rightarrow> bool" for pb where
  sys_push: "sys_step pb s (s\<lparr>sy_node := n, sy_sent := sy_sent s @ [t]\<rparr>)"
    if "Push pb (node_ID evicted) (node_Apply pb order) remote now q req (sy_node s) = Some (Inr \<lparr>ps_task = Some t, ps_forwarded_to = []\<rparr>, n)"
      "qs_isLeader q" "order_ok order" "plain_queue (pr_queue req)" "run_time_ok (getRunTime (now 1) req)"
      "index_mark (sv_idx (sy_node s), sv_db (sy_node s)) (pr_queue req) + 10000 < 2 ^ 64"
| sys_round: "sys_step pb s (s\<lparr>sy_feed := f\<rparr>)"
    if "pullAndPush pb now (sv_db (sy_node s)) (sy_feed s) = Some (c, e, f)"
| sys_cancel: "sys_step pb s (s\<lparr>sy_feed := (sy_feed s)\<lparr>fd_ctx := Some k\<rparr>\<rparr>)"
| sys_ack: "sys_step pb s (s\<lparr>sy_node := startAckListener pb (node_Apply pb order) [Inr (Message_Ack t)] (sy_node s)\<rparr>)"
    if "t \<in> set (sy_sent s)" "task_queue t = feed_queue (sy_feed s) \<Longrightarrow> is_fifo t \<Longrightarrow> t \<in> set (fd_feed (sy_feed s))" "order_ok order"
| sys_flush: "sys_step pb s (s\<lparr>sy_node := with_store (sy_node s) (handleAckFlush_tick w d)\<rparr>)"
    if "store_of (sy_node s) = (w, d)"
| sys_save: "sys_step pb s (s\<lparr>sy_node := n, sy_feed := (sy_feed s)\<lparr>fd_settings := ss\<rparr>\<rparr>)"
    if "startSync_tick pb (node_Apply pb order) (fd_settings (sy_feed s)) (sy_node s) = (ss, n)" "order_ok order"
| sys_config: "sys_step pb s (s\<lparr>sy_node := snd (node_Apply pb order b (sy_node s))\<rparr>)"
    if "unmarshal_command pb b = Some (Command_Queue c)" "order_ok order"

text \<open>The node when it has just been elected, with a feed on an empty database.\<close>

definition new_node :: Server where
  "new_node = \<lparr>sv_idx = NewIndexStore, sv_fsm = SetHandle (Some True) (sm_New NewTaskWriter \<lparr>db_kv = [], db_faults = []\<rparr>)\<rparr>"

definition sys_start :: "codec \<Rightarrow> part list \<Rightarrow> string \<Rightarrow> System option" where
  "sys_start pb order q =
     (case Feed_New pb (node_Apply pb order) q (sv_db new_node) new_node of
        (Inl e, d, n) \<Rightarrow> None
      | (Inr f, d, n) \<Rightarrow> Some \<lparr>sy_node = n, sy_feed = f, sy_sent = []\<rparr>)"

section \<open>Keys\<close>

lemma task_key_eqD:
  assumes "task_key t = task_key u" "plain_queue (task_queue t)" "plain_queue (task_queue u)"
  shows "task_queue t = task_queue u" "TaskID_Index (task_tid t) = TaskID_Index (task_tid u)"
proof -
  have "task_queue t = task_queue u \<and> TaskID_Index (task_tid t) = TaskID_Index (task_tid u)"
  proof (cases "is_fifo t")
    case True
    have "prefix (getFifoPrefix (task_queue t)) (task_key u)" unfolding assms(1) [symmetric] using True by (simp add: getTaskKey_def)
    then have "is_fifo u" "task_queue t = task_queue u"
      using assms(2,3) by (auto simp: getTaskKey_def fifo_sched_apart fifo_prefix_key split: if_splits)
    with True assms(1) show ?thesis by (simp add: getTaskKey_def getFifoTaskKey_def)
  next
    case False
    have "prefix (getSchedPrefix (task_queue t)) (task_key u)" unfolding assms(1) [symmetric] using False by (auto simp: getTaskKey_def)
    then have "\<not> is_fifo u" "task_queue t = task_queue u"
      using assms(2,3) by (auto simp: getTaskKey_def fifo_sched_apart sched_prefix_key split: if_splits)
    with False assms(1) show ?thesis by (auto simp: getTaskKey_def getScheduledTaskKey_def split: if_splits)
  qed
  then show "task_queue t = task_queue u" "TaskID_Index (task_tid t) = TaskID_Index (task_tid u)" by simp_all
qed

lemma sorted_wrt_same_set:
  assumes "sorted_wrt r xs" "sorted_wrt r ys" "set xs = set ys" "\<And>x y. r x y \<Longrightarrow> \<not> r y x"
  shows "xs = ys"
  using assms(1-3)
proof (induction xs arbitrary: ys)
  case (Cons x xs)
  obtain y zs where ys: "ys = y # zs" using Cons.prems(3) by (cases ys) auto
  have irr: "\<not> r z z" for z using assms(4) by blast
  have "x = y"
  proof (rule ccontr)
    assume "x \<noteq> y"
    with Cons.prems ys have "r x y" "r y x" by auto
    with assms(4) show False by blast
  qed
  moreover have "x \<notin> set xs" "y \<notin> set zs" using Cons.prems(1,2) irr by (auto simp: ys)
  then have "set xs = set zs" using Cons.prems(3) \<open>x = y\<close> by (auto simp: ys)
  with Cons have "xs = zs" by (simp add: ys)
  ultimately show ?case by (simp add: ys)
qed simp

section \<open>The tasks of a database, by its lookups\<close>

lemma tasks_wf_lookup:
  assumes "db_ok d"
  shows "tasks_wf pb d \<longleftrightarrow> (\<forall>k v. prefix (str_bytes ''task#'') k \<longrightarrow> db_lookup d k = Some v \<longrightarrow> task_entry pb (k, v))"
proof -
  have "(k, v) \<in> set (db_kv d) \<longleftrightarrow> db_lookup d k = Some v" for k v
    using assms kv_sorted_distinct [of "db_kv d"] by (simp add: db_ok_def db_lookup_def map_of_eq_Some_iff)
  then show ?thesis by (fastforce simp: tasks_wf_def)
qed

lemma seq_keys_not_tasks [simp]: "k \<in> range getSeqKey \<Longrightarrow> \<not> prefix (str_bytes ''task#'') k"
  using seq_key_not_task by blast

lemma stored_tasks_delete:
  assumes d: "db_ok d" "tasks_wf pb d" "db_ok d'"
    and l: "\<And>k. prefix (str_bytes ''task#'') k \<Longrightarrow> db_lookup d' k = (if k \<in> D then None else db_lookup d k)"
  shows "tasks_wf pb d'" "stored_tasks pb d' = {t \<in> stored_tasks pb d. task_key t \<notin> D}"
proof -
  show wf: "tasks_wf pb d'" using d(2) by (auto simp: tasks_wf_lookup d(1,3) l)
  show "stored_tasks pb d' = {t \<in> stored_tasks pb d. task_key t \<notin> D}"
    by (auto simp: stored_tasks_lookup [OF d(3) wf] stored_tasks_lookup [OF d(1,2)] l [OF prefix_task_key] split: if_splits)
qed

lemma stored_tasks_add:
  assumes d: "db_ok d" "tasks_wf pb d" "db_ok d'"
    and t: "db_lookup d' (task_key t) = Some b" "unmarshal_task pb b = Some t" "MustParseString (task_id t) = Some (task_tid t)"
    and l: "\<And>k. prefix (str_bytes ''task#'') k \<Longrightarrow> k \<noteq> task_key t \<Longrightarrow> db_lookup d' k = db_lookup d k"
  shows "tasks_wf pb d'" "stored_tasks pb d' = {u \<in> stored_tasks pb d. task_key u \<noteq> task_key t} \<union> {t}"
proof -
  have e: "task_entry pb (task_key t, b)" unfolding task_entry_def fst_conv snd_conv using t(2,3) by blast
  show wf: "tasks_wf pb d'"
    unfolding tasks_wf_lookup [OF d(3)]
  proof (intro allI impI)
    fix k v assume k: "prefix (str_bytes ''task#'') k" "db_lookup d' k = Some v"
    show "task_entry pb (k, v)"
    proof (cases "k = task_key t")
      case True
      with k(2) t(1) e show ?thesis by simp
    next
      case False
      then have "db_lookup d k = Some v" using l [OF k(1)] k(2) by metis
      with k(1) d(2) [unfolded tasks_wf_lookup [OF d(1)]] show ?thesis by blast
    qed
  qed
  have mem: "u \<in> stored_tasks pb d' \<longleftrightarrow> (if task_key u = task_key t then u = t else u \<in> stored_tasks pb d)" for u
  proof (cases "task_key u = task_key t")
    case True
    have "u \<in> stored_tasks pb d' \<longleftrightarrow> u = t" unfolding stored_tasks_lookup [OF d(3) wf] True t(1) using t(2,3) by auto
    with True show ?thesis by simp
  next
    case False
    then show ?thesis
      unfolding stored_tasks_lookup [OF d(3) wf] stored_tasks_lookup [OF d(1,2)] l [OF prefix_task_key False] by simp
  qed
  show "stored_tasks pb d' = {u \<in> stored_tasks pb d. task_key u \<noteq> task_key t} \<union> {t}"
    by (rule set_eqI, unfold mem) auto
qed

section \<open>The invariant\<close>

text \<open>
  Of the node and the tasks sent: the indexes and the state machine are in order, the tasks sent are valid and have
  indexes that were issued, ascending in each queue; nothing else is stored, or acknowledged in the buffer.
\<close>

definition sent_ok :: "codec \<Rightarrow> Server \<Rightarrow> Task list \<Rightarrow> bool" where
  "sent_ok pb n sent \<longleftrightarrow>
     node_ok n \<and> fsm_handle (sv_fsm n) = Some True \<and> tasks_wf pb (sv_db n) \<and>
     (\<forall>t \<in> set sent. plain_queue (task_queue t) \<and> kind_ok t \<and> checkpoint_ok t \<and>
        unat (TaskID_Index (task_tid t)) \<le> index_mark (sv_idx n, sv_db n) (task_queue t)) \<and>
     sorted_wrt (\<lambda>t u. task_queue t = task_queue u \<longrightarrow> index_less t u) sent \<and>
     stored_tasks pb (sv_db n) \<subseteq> set sent \<and> tw_acked (store_of n) \<subseteq> task_key ` set sent"

text \<open>
  Of the feed: it has delivered the first \<open>k\<close> of the FIFO tasks sent to its queue, the others are pending, and none of
  these has been acknowledged.
\<close>

definition settings_ok :: "codec \<Rightarrow> Server \<Rightarrow> Task list \<Rightarrow> string \<Rightarrow> nat \<Rightarrow> QueueConfig \<Rightarrow> bool" where
  "settings_ok pb n sent q k st \<longleftrightarrow>
     qc_id st = q \<and> plain_queue q \<and> sched_settings_ok st \<and>
     (\<exists>l. MustParseString (last_delivered_queued_task st) = Some l \<and>
        (l = iden_Max \<or> unat (TaskID_Index l) \<le> index_mark (sv_idx n, sv_db n) q)) \<and>
     (\<forall>now. pending fifoUndelivered_Query now st pb (sv_db n) = set (drop k (fifo_sent q sent)))"

definition feed_ok :: "codec \<Rightarrow> Server \<Rightarrow> Task list \<Rightarrow> Feed \<Rightarrow> nat \<Rightarrow> bool" where
  "feed_ok pb n sent f k \<longleftrightarrow>
     (\<exists>st. ss_S (fd_settings f) = Some st \<and> settings_ok pb n sent (feed_queue f) k st) \<and>
     filter is_fifo (fd_feed f) = take k (fifo_sent (feed_queue f) sent) \<and> k \<le> length (fifo_sent (feed_queue f) sent) \<and>
     task_key ` set (drop k (fifo_sent (feed_queue f) sent)) \<inter> tw_acked (store_of n) = {}"

lemma node_dbD:
  assumes "node_ok n"
  shows "db_ok (sv_db n)" "db_faults (sv_db n) = []" "index_ok (sv_idx n, sv_db n)" "fsm_ok (sv_fsm n)" "tw_ok (store_of n)"
  using assms index_okD(1,2) by (auto simp: node_ok_def fsm_ok_def)

lemma sent_okD:
  assumes "sent_ok pb n sent"
  shows "node_ok n" "fsm_handle (sv_fsm n) = Some True" "tasks_wf pb (sv_db n)"
    "\<And>t. t \<in> set sent \<Longrightarrow> plain_queue (task_queue t)" "\<And>t. t \<in> set sent \<Longrightarrow> kind_ok t" "\<And>t. t \<in> set sent \<Longrightarrow> checkpoint_ok t"
    "\<And>t. t \<in> set sent \<Longrightarrow> unat (TaskID_Index (task_tid t)) \<le> index_mark (sv_idx n, sv_db n) (task_queue t)"
    "stored_tasks pb (sv_db n) \<subseteq> set sent" "tw_acked (store_of n) \<subseteq> task_key ` set sent"
  using assms by (auto simp: sent_ok_def)

lemma sent_sorted:
  assumes "sent_ok pb n sent"
  shows "sorted_wrt index_less (fifo_sent q sent)"
proof -
  have "sorted_wrt (\<lambda>t u. task_queue t = task_queue u \<longrightarrow> index_less t u) (fifo_sent q sent)"
    unfolding fifo_sent_def using assms by (intro sorted_wrt_filter) (simp add: sent_ok_def)
  then show ?thesis by (rule sorted_wrt_mono_rel [rotated]) (auto simp: fifo_sent_def)
qed

lemma sent_key_inj:
  assumes "sent_ok pb n sent" "t \<in> set sent" "u \<in> set sent" "task_key t = task_key u"
  shows "t = u"
proof -
  note k = task_key_eqD [OF assms(4)] sent_okD(4) [OF assms(1)]
  from assms(2,3) obtain i j where ij: "i < length sent" "sent ! i = t" "j < length sent" "sent ! j = u" by (metis in_set_conv_nth)
  have s: "sorted_wrt (\<lambda>t u. task_queue t = task_queue u \<longrightarrow> index_less t u) sent" using assms(1) by (simp add: sent_ok_def)
  have "\<not> i < j" "\<not> j < i"
    using sorted_wrt_nth_less [OF s, of i j] sorted_wrt_nth_less [OF s, of j i] ij k assms(2,3) by (auto simp: index_less_def)
  with ij show ?thesis by simp
qed

section \<open>The steps keep the invariant\<close>

text \<open>Deleting acknowledged tasks, or nothing, and buffering more of them.\<close>

lemma sys_delete:
  assumes ok: "sent_ok pb n sent" "feed_ok pb n sent f k"
    and n': "sv_idx n' = sv_idx n" "fsm_ok (sv_fsm n')" "fsm_handle (sv_fsm n') = fsm_handle (sv_fsm n)"
    and l: "\<And>k. prefix (str_bytes ''task#'') k \<or> k \<in> range getSeqKey \<Longrightarrow>
        db_lookup (sv_db n') k = (if k \<in> D then None else db_lookup (sv_db n) k)"
    and D: "D \<subseteq> task_key ` set sent" "tw_acked (store_of n') \<subseteq> task_key ` set sent"
      "task_key ` set (drop k (fifo_sent (feed_queue f) sent)) \<inter> (D \<union> tw_acked (store_of n')) = {}"
  shows "sent_ok pb n' sent \<and> feed_ok pb n' sent f k"
proof -
  note s = sent_okD [OF ok(1)]
  note n = node_dbD [OF s(1)]
  have d': "db_ok (sv_db n')" "db_faults (sv_db n') = []" using n'(2) by (simp_all add: fsm_ok_def tw_ok_def sv_db_def)
  have "db_lookup (sv_db n') (getSeqKey q) = db_lookup (sv_db n) (getSeqKey q)" for q
  proof -
    have "getSeqKey q \<notin> D" using D(1) task_key_not_seq_key by (metis image_iff subsetD)
    then show ?thesis using l [of "getSeqKey q"] by simp
  qed
  note idx = index_ok_cong [OF n(3) d' this]
  have st: "tasks_wf pb (sv_db n')" "stored_tasks pb (sv_db n') = {t \<in> stored_tasks pb (sv_db n). task_key t \<notin> D}"
    by (rule stored_tasks_delete [OF n(1) s(3) d'(1) l [OF disjI1]], assumption)+
  have "node_ok n'" using idx(1) n' by (simp add: node_ok_def)
  moreover have "stored_tasks pb (sv_db n') \<subseteq> set sent" using st(2) s(8) by blast
  ultimately have "sent_ok pb n' sent"
    using ok(1) st(1) D(2) unfolding sent_ok_def n' idx(2) by blast
  moreover
  have "pending fifoUndelivered_Query now c pb (sv_db n') = set (drop k (fifo_sent (feed_queue f) sent))"
    if "pending fifoUndelivered_Query now c pb (sv_db n) = set (drop k (fifo_sent (feed_queue f) sent))" for now c
  proof -
    have "pending fifoUndelivered_Query now c pb (sv_db n') = {t \<in> pending fifoUndelivered_Query now c pb (sv_db n). task_key t \<notin> D}"
      by (auto simp: pending_def st(2))
    also have "\<dots> = set (drop k (fifo_sent (feed_queue f) sent))" unfolding that using D(3) by blast
    finally show ?thesis .
  qed
  then have "settings_ok pb n' sent (feed_queue f) k st" if "settings_ok pb n sent (feed_queue f) k st" for st
    using that unfolding settings_ok_def n'(1) idx(2) by blast
  then have "feed_ok pb n' sent f k" using ok(2) D(3) unfolding feed_ok_def by blast
  ultimately show ?thesis ..
qed

lemma tw_acknowledge_effect:
  assumes "tw_ok s"
  obtains s' D where "snd (tw_acknowledge as s) = s'" "tw_ok s'" "D \<subseteq> tw_acked s \<union> set (ack_keys as)" "tw_acked s' \<subseteq> tw_acked s \<union> set (ack_keys as)"
    "db_lookup (snd s') = (\<lambda>k. if k \<in> D then None else db_lookup (snd s) k)"
proof -
  obtain w d where s: "s = (w, d)" by force
  obtain d' where d': "DeleteAll d (tw_ackBuffer w @ as) = (None, d')" "db_ok d'" "db_faults d' = []"
    "db_lookup d' = (\<lambda>k. if k \<in> set (ack_keys (tw_ackBuffer w @ as)) then None else db_lookup d k)"
    using DeleteAll_view [of d "tw_ackBuffer w @ as"] assms by (auto simp: s tw_ok_def)
  show ?thesis
  proof (cases "length (tw_ackBuffer w @ as) > 2000")
    case True
    then have "snd (tw_acknowledge as s) = (w\<lparr>tw_ackBuffer := []\<rparr>, d')"
      by (simp add: s tw_acknowledge_def tw_Acknowledge_def tw_flush_def Let_def d'(1))
    with d' show ?thesis
      by (intro that [of "(w\<lparr>tw_ackBuffer := []\<rparr>, d')" "set (ack_keys (tw_ackBuffer w @ as))"]) (simp_all add: s tw_ok_def tw_acked_def ack_keys_def fun_eq_iff)
  next
    case False
    then have "snd (tw_acknowledge as s) = (w\<lparr>tw_ackBuffer := tw_ackBuffer w @ as\<rparr>, d)"
      by (simp add: s tw_acknowledge_def tw_Acknowledge_def Let_def)
    with assms show ?thesis
      by (intro that [of "(w\<lparr>tw_ackBuffer := tw_ackBuffer w @ as\<rparr>, d)" "{}"]) (auto simp: s tw_ok_def tw_acked_def)
  qed
qed

lemma handleAckFlush_effect:
  assumes "tw_ok (w, d)"
  obtains s' D where "handleAckFlush_tick w d = s'" "tw_ok s'" "D \<subseteq> tw_acked (w, d)" "tw_acked s' \<subseteq> tw_acked (w, d)"
    "db_lookup (snd s') = (\<lambda>k. if k \<in> D then None else db_lookup d k)"
proof (cases "tw_ackBuffer w = []")
  case True
  with assms show ?thesis by (intro that [of "(w, d)" "{}"]) (simp_all add: handleAckFlush_tick_def)
next
  case False
  obtain d' where d': "DeleteAll d (tw_ackBuffer w) = (None, d')" "db_ok d'" "db_faults d' = []"
    "db_lookup d' = (\<lambda>k. if k \<in> set (ack_keys (tw_ackBuffer w)) then None else db_lookup d k)"
    using DeleteAll_view [of d "tw_ackBuffer w"] assms by (auto simp: tw_ok_def)
  with False show ?thesis
    by (intro that [of "(w\<lparr>tw_ackBuffer := []\<rparr>, d')" "set (ack_keys (tw_ackBuffer w))"])
      (simp_all add: handleAckFlush_tick_def tw_flush_def tw_ok_def tw_acked_def ack_keys_def)
qed

text \<open>A step that deletes what is acknowledged, in the buffer or by the step.\<close>

lemma sys_acknowledged:
  assumes ok: "sent_ok pb n sent" "feed_ok pb n sent f k"
    and s': "tw_ok s'" "D \<subseteq> tw_acked (store_of n) \<union> A" "tw_acked s' \<subseteq> tw_acked (store_of n) \<union> A"
      "db_lookup (snd s') = (\<lambda>k. if k \<in> D then None else db_lookup (sv_db n) k)"
    and A: "A \<subseteq> task_key ` set sent" "task_key ` set (drop k (fifo_sent (feed_queue f) sent)) \<inter> A = {}"
  shows "sent_ok pb (with_store n s') sent \<and> feed_ok pb (with_store n s') sent f k"
proof (rule sys_delete [OF ok])
  have "fsm_ok (sv_fsm n)" using node_dbD(4) [OF sent_okD(1) [OF ok(1)]] .
  with s'(1) show "fsm_ok (sv_fsm (with_store n s'))" by (simp add: fsm_ok_def)
  show "D \<subseteq> task_key ` set sent" "tw_acked (store_of (with_store n s')) \<subseteq> task_key ` set sent"
    using s'(2,3) sent_okD(9) [OF ok(1)] A(1) by auto
  show "task_key ` set (drop k (fifo_sent (feed_queue f) sent)) \<inter> (D \<union> tw_acked (store_of (with_store n s'))) = {}"
    using s'(2,3) A(2) ok(2) unfolding feed_ok_def by simp blast
qed (simp_all add: sv_db_def s'(4) [unfolded sv_db_def])

lemma sys_ack_ok:
  assumes "encodes pb" and ok: "sent_ok pb n sent" "feed_ok pb n sent f k" and "order_ok order"
    and t: "t \<in> set sent" "task_queue t = feed_queue f \<Longrightarrow> is_fifo t \<Longrightarrow> t \<in> set (fd_feed f)"
  shows "sent_ok pb (startAckListener pb (node_Apply pb order) [Inr (Message_Ack t)] n) sent \<and>
    feed_ok pb (startAckListener pb (node_Apply pb order) [Inr (Message_Ack t)] n) sent f k"
proof -
  note n = node_dbD [OF sent_okD(1) [OF ok(1)]]
  let ?q = "fifo_sent (feed_queue f) sent"
  obtain a where a: "marshal_command pb (Command_Ack (Message_Ack t)) = Some a" "unmarshal_command pb a = Some (Command_Ack (Message_Ack t))"
    using encodesD(3) [OF assms(1)] by blast
  obtain tid where "MustParseString (task_id t) = Some tid" "getAckKey (ack_of t) = Inr (getTaskKey t tid)"
    by (rule getAckKey_ack_of [OF sent_okD(5) [OF ok(1) t(1)]])
  then have keys: "set (ack_keys [Message_Ack t]) = {task_key t}"
    by (simp add: ack_keys_def ack_of_def Message_Ack_def task_tid_def)
  obtain s' D where s': "snd (tw_acknowledge [Message_Ack t] (store_of n)) = s'" "tw_ok s'"
    "D \<subseteq> tw_acked (store_of n) \<union> {task_key t}" "tw_acked s' \<subseteq> tw_acked (store_of n) \<union> {task_key t}"
    "db_lookup (snd s') = (\<lambda>k. if k \<in> D then None else db_lookup (sv_db n) k)"
    using tw_acknowledge_effect [OF n(5), of "[Message_Ack t]"] unfolding keys sv_db_def by blast
  have "task_key t \<notin> task_key ` set (drop k ?q)"
  proof
    assume "task_key t \<in> task_key ` set (drop k ?q)"
    then obtain u where u: "u \<in> set (drop k ?q)" "task_key t = task_key u" by auto
    then have "u \<in> set sent" by (auto simp: fifo_sent_def dest: in_set_dropD)
    with sent_key_inj [OF ok(1) t(1) _ u(2)] have "u = t" by simp
    with u(1) have "t \<in> set ?q" by (auto dest: in_set_dropD)
    then have "t \<in> set (filter is_fifo (fd_feed f))" using t(2) by (simp add: fifo_sent_def)
    then have "t \<in> set (take k ?q)" using ok(2) unfolding feed_ok_def by metis
    moreover have "distinct ?q" by (rule sorted_wrt_distinct [OF sent_sorted [OF ok(1)]]) (simp add: index_less_def)
    ultimately show False using set_take_disj_set_drop_if_distinct [of ?q k k] u(1) \<open>u = t\<close> by blast
  qed
  then have "sent_ok pb (with_store n s') sent \<and> feed_ok pb (with_store n s') sent f k"
    using t(1) by (intro sys_acknowledged [OF ok s'(2-5)]) auto
  moreover have "startAckListener pb (node_Apply pb order) [Inr (Message_Ack t)] n = with_store n s'"
    using node_Apply_single(2) [OF n(4) a(2) assms(4) refl] a(1) s'(1) by (simp add: ApplyAckCommand_def)
  ultimately show ?thesis by simp
qed

text \<open>A push: one task more, with the next index of its queue.\<close>

definition pushed :: "codec \<Rightarrow> Server \<Rightarrow> Task \<Rightarrow> Server \<Rightarrow> bool" where
  "pushed pb n t n' \<longleftrightarrow>
     MustParseString (task_id t) = Some (task_tid t) \<and> kind_ok t \<and> checkpoint_ok t \<and> plain_queue (task_queue t) \<and>
     unat (TaskID_Index (task_tid t)) = Suc (index_mark (sv_idx n, sv_db n) (task_queue t)) \<and>
     node_ok n' \<and> fsm_handle (sv_fsm n') = fsm_handle (sv_fsm n) \<and> fst (store_of n') = fst (store_of n) \<and>
     index_mark (sv_idx n', sv_db n') =
       (index_mark (sv_idx n, sv_db n))(task_queue t := Suc (index_mark (sv_idx n, sv_db n) (task_queue t))) \<and>
     (\<exists>b. unmarshal_task pb b = Some t \<and> db_lookup (sv_db n') (task_key t) = Some b) \<and>
     (\<forall>k. k \<noteq> task_key t \<longrightarrow> k \<notin> range getSeqKey \<longrightarrow> db_lookup (sv_db n') k = db_lookup (sv_db n) k)"

lemma Push_pushed:
  assumes "encodes pb" "node_ok n" "fsm_handle (sv_fsm n) = Some True"
    and push: "Push pb (node_ID evicted) (node_Apply pb order) remote now q req n = Some (Inr \<lparr>ps_task = Some t, ps_forwarded_to = []\<rparr>, n')"
      "qs_isLeader q" "order_ok order" "plain_queue (pr_queue req)" "run_time_ok (getRunTime (now 1) req)"
      "index_mark (sv_idx n, sv_db n) (pr_queue req) + 10000 < 2 ^ 64"
  shows "pushed pb n t n'"
proof (rule node_push [where now = now and req = req and evicted = evicted and remote = remote, OF assms(1,2) push(2,5,3,6)], goal_cases)
  case (1 t' v b n'')
  from 1(1) push(1) have eq: "t' = t" "n'' = n'" by simp_all
  have "v \<noteq> - 1"
  proof
    assume "v = - 1"
    then have "unat v = 2 ^ 64 - 1" by (simp add: unsigned_minus_1_eq_mask mask_eq_exp_minus_1)
    with 1(7) push(6) show False by simp
  qed
  with 1(2-5,7,9,10,13) 1(14) [OF assms(3)] push(4) show ?case
    unfolding eq pushed_def by (auto simp: checkpoint_ok_def intro!: exI [of _ b] 1(11,12) [unfolded eq])
qed

lemma pushed_fresh:
  assumes "sent_ok pb n sent" "pushed pb n t n'" "u \<in> set sent"
  shows "task_key u \<noteq> task_key t" "task_queue u = task_queue t \<Longrightarrow> index_less u t"
proof -
  have le: "unat (TaskID_Index (task_tid u)) \<le> index_mark (sv_idx n, sv_db n) (task_queue u)" by (rule sent_okD(7) [OF assms(1,3)])
  have t: "plain_queue (task_queue t)" "unat (TaskID_Index (task_tid t)) = Suc (index_mark (sv_idx n, sv_db n) (task_queue t))"
    using assms(2) by (simp_all add: pushed_def)
  show less: "index_less u t" if "task_queue u = task_queue t"
    using le t(2) that by (simp add: index_less_def word_less_nat_alt)
  show "task_key u \<noteq> task_key t"
  proof
    assume "task_key u = task_key t"
    note eq = task_key_eqD [OF this sent_okD(4) [OF assms(1,3)] t(1)]
    from less [OF eq(1)] eq(2) show False by (simp add: index_less_def)
  qed
qed

lemma pushed_stored:
  assumes "sent_ok pb n sent" "pushed pb n t n'"
  shows "tasks_wf pb (sv_db n')" "stored_tasks pb (sv_db n') = insert t (stored_tasks pb (sv_db n))"
proof -
  note s = sent_okD [OF assms(1)]
  obtain b where b: "db_lookup (sv_db n') (task_key t) = Some b" "unmarshal_task pb b = Some t" "MustParseString (task_id t) = Some (task_tid t)"
    "node_ok n'" "\<forall>k. k \<noteq> task_key t \<longrightarrow> k \<notin> range getSeqKey \<longrightarrow> db_lookup (sv_db n') k = db_lookup (sv_db n) k"
    using assms(2) unfolding pushed_def by blast
  have l: "db_lookup (sv_db n') k = db_lookup (sv_db n) k" if "prefix (str_bytes ''task#'') k" "k \<noteq> task_key t" for k
    using b(5) that seq_keys_not_tasks by blast
  note d = node_dbD(1) [OF s(1)] s(3) node_dbD(1) [OF b(4)]
  show "tasks_wf pb (sv_db n')" by (rule stored_tasks_add(1) [OF d b(1-3) l])
  have "stored_tasks pb (sv_db n') = {u \<in> stored_tasks pb (sv_db n). task_key u \<noteq> task_key t} \<union> {t}"
    by (rule stored_tasks_add(2) [OF d b(1-3) l])
  also have "{u \<in> stored_tasks pb (sv_db n). task_key u \<noteq> task_key t} = stored_tasks pb (sv_db n)"
    using pushed_fresh(1) [OF assms] s(8) by blast
  finally show "stored_tasks pb (sv_db n') = insert t (stored_tasks pb (sv_db n))" by simp
qed

lemma pushed_sent_ok:
  assumes ok: "sent_ok pb n sent" and t: "pushed pb n t n'"
  shows "sent_ok pb n' (sent @ [t])"
  unfolding sent_ok_def
proof (intro conjI ballI)
  note s = sent_okD [OF ok]
  have m: "index_mark (sv_idx n', sv_db n') =
      (index_mark (sv_idx n, sv_db n))(task_queue t := Suc (index_mark (sv_idx n, sv_db n) (task_queue t)))"
    and acked: "tw_acked (store_of n') = tw_acked (store_of n)"
    using t by (simp_all add: pushed_def tw_acked_def)
  show "node_ok n'" "fsm_handle (sv_fsm n') = Some True" using t s(2) by (simp_all add: pushed_def)
  show "tasks_wf pb (sv_db n')" "stored_tasks pb (sv_db n') \<subseteq> set (sent @ [t])"
    using pushed_stored [OF ok t] s(8) by auto
  show "tw_acked (store_of n') \<subseteq> task_key ` set (sent @ [t])" using s(9) acked by auto
  show "sorted_wrt (\<lambda>t u. task_queue t = task_queue u \<longrightarrow> index_less t u) (sent @ [t])"
    using ok pushed_fresh(2) [OF ok t] by (simp add: sorted_wrt_append sent_ok_def)
  fix u assume u: "u \<in> set (sent @ [t])"
  show "plain_queue (task_queue u)" "kind_ok u" "checkpoint_ok u" using u s(4-6) t by (auto simp: pushed_def)
  show "unat (TaskID_Index (task_tid u)) \<le> index_mark (sv_idx n', sv_db n') (task_queue u)"
  proof (cases "u = t")
    case True
    with t m show ?thesis by (simp add: pushed_def)
  next
    case False
    with u s(7) [of u] m show ?thesis by (auto simp: le_Suc_eq)
  qed
qed

lemma disjoint_insert_image: "f ` A \<inter> B = {} \<Longrightarrow> f a \<notin> B \<Longrightarrow> X \<subseteq> insert a A \<Longrightarrow> f ` X \<inter> B = {}"
  by blast

lemma pending_insert:
  "stored_tasks pb d' = insert t (stored_tasks pb d) \<Longrightarrow>
     pending qf now st pb d' = pending qf now st pb d \<union> (pending qf now st pb d' \<inter> {t})"
  unfolding pending_def by blast

lemma pushed_feed_ok:
  assumes ok: "sent_ok pb n sent" "feed_ok pb n sent f k" and t: "pushed pb n t n'"
  shows "feed_ok pb n' (sent @ [t]) f k"
proof -
  define q where "q = feed_queue f"
  let ?q = "fifo_sent q sent"
  define new where "new = (if task_queue t = q \<and> is_fifo t then [t] else [])"
  have split: "fifo_sent q (sent @ [t]) = ?q @ new" by (simp add: fifo_sent_def new_def)
  obtain st l where st: "ss_S (fd_settings f) = Some st" "settings_ok pb n sent q k st" "qc_id st = q"
    and l: "MustParseString (last_delivered_queued_task st) = Some l"
      "l = iden_Max \<or> unat (TaskID_Index l) \<le> index_mark (sv_idx n, sv_db n) q"
    using ok(2) unfolding feed_ok_def settings_ok_def q_def by blast
  have k: "filter is_fifo (fd_feed f) = take k ?q" "k \<le> length ?q" "task_key ` set (drop k ?q) \<inter> tw_acked (store_of n) = {}"
    using ok(2) unfolding feed_ok_def q_def by blast+
  have in_new: "t \<in> pending fifoUndelivered_Query time st pb (sv_db n') \<longleftrightarrow> t \<in> set new" for time
  proof
    assume "t \<in> set new"
    then have t': "task_queue t = q" "is_fifo t" by (auto simp: new_def split: if_splits)
    have "t \<in> stored_tasks pb (sv_db n')" using pushed_stored(2) [OF ok(1) t] by simp
    then show "t \<in> pending fifoUndelivered_Query time st pb (sv_db n')"
      using t' st(3) l(2) t by (intro pending_fifoI [OF _ _ _ l(1)]) (auto simp: pushed_def)
  qed (use st(3) in \<open>auto simp: pending_def fifoUndelivered_Query_def l(1) new_def Let_def\<close>)
  have "pending fifoUndelivered_Query time st pb (sv_db n') = set (drop k (?q @ new))" for time
  proof -
    have "pending fifoUndelivered_Query time st pb (sv_db n') = pending fifoUndelivered_Query time st pb (sv_db n) \<union> set new"
    proof -
      have "pending fifoUndelivered_Query time st pb (sv_db n') \<inter> {t} = set new" using in_new [of time] by (auto simp: new_def)
      with pending_insert [OF pushed_stored(2) [OF ok(1) t]] show ?thesis by metis
    qed
    also have "\<dots> = set (drop k (?q @ new))" using st(2) k(2) by (simp add: settings_ok_def)
    finally show ?thesis .
  qed
  moreover have "index_mark (sv_idx n, sv_db n) q \<le> index_mark (sv_idx n', sv_db n') q" using t by (simp add: pushed_def)
  then have "l = iden_Max \<or> unat (TaskID_Index l) \<le> index_mark (sv_idx n', sv_db n') q" using l(2) by linarith
  ultimately have "settings_ok pb n' (sent @ [t]) q k st"
    using st(2) l(1) unfolding settings_ok_def split by blast
  moreover have "task_key ` set (drop k (?q @ new)) \<inter> tw_acked (store_of n') = {}"
  proof -
    have acked: "tw_acked (store_of n') = tw_acked (store_of n)" using t by (simp add: pushed_def tw_acked_def)
    have "task_key t \<notin> tw_acked (store_of n)"
    proof
      assume "task_key t \<in> tw_acked (store_of n)"
      then have "task_key t \<in> task_key ` set sent" by (rule subsetD [OF sent_okD(9) [OF ok(1)]])
      then obtain u where "u \<in> set sent" "task_key t = task_key u" by (rule imageE)
      with pushed_fresh(1) [OF ok(1) t, of u] show False by simp
    qed
    moreover have "set (drop k (?q @ new)) \<subseteq> insert t (set (drop k ?q))" using k(2) by (auto simp: new_def)
    ultimately show ?thesis unfolding acked by (rule disjoint_insert_image [OF k(3)])
  qed
  ultimately show ?thesis using k(1,2) st(1) unfolding feed_ok_def q_def [symmetric] split by simp
qed

text \<open>Settings, of this feed and of others.\<close>

lemma config_ok:
  assumes ok: "sent_ok pb n sent" "feed_ok pb n sent f k" and b: "unmarshal_command pb b = Some (Command_Queue c)" "order_ok order"
  shows "sent_ok pb (snd (node_Apply pb order b n)) sent \<and> feed_ok pb (snd (node_Apply pb order b n)) sent f k \<and>
    index_mark (sv_idx (snd (node_Apply pb order b n)), sv_db (snd (node_Apply pb order b n))) = index_mark (sv_idx n, sv_db n)"
proof -
  note n = node_dbD [OF sent_okD(1) [OF ok(1)]]
  let ?s = "snd (tw_save pb c (store_of n))"
  have s: "tw_ok ?s" "fst ?s = fst (store_of n)" "\<And>k. k \<noteq> getConfigKey (qc_id c) \<Longrightarrow> db_lookup (snd ?s) k = db_lookup (sv_db n) k"
    using n(1,2,5)
    by (auto simp: tw_save_def SettingStore_Save_def tw_ok_def db_Set_def db_call_def db_lookup_def db_ok_def map_of_kv_put sv_db_def
        split: option.splits)
  have "node_Apply pb order b n = (None, with_store n ?s)" by (rule node_Apply_single(3) [OF n(4) b refl])
  moreover have "sent_ok pb (with_store n ?s) sent \<and> feed_ok pb (with_store n ?s) sent f k"
  proof (rule sys_delete [OF ok, where D = "{}"])
    show "fsm_ok (sv_fsm (with_store n ?s))" using n(4) s(1) by (simp add: fsm_ok_def)
    show "tw_acked (store_of (with_store n ?s)) \<subseteq> task_key ` set sent"
      "task_key ` set (drop k (fifo_sent (feed_queue f) sent)) \<inter> ({} \<union> tw_acked (store_of (with_store n ?s))) = {}"
      using sent_okD(9) [OF ok(1)] ok(2) s(2) by (simp_all add: feed_ok_def tw_acked_def)
    fix k assume "prefix (str_bytes ''task#'') k \<or> k \<in> range getSeqKey"
    then have "k \<noteq> getConfigKey (qc_id c)" using config_keys_apart by blast
    then show "db_lookup (sv_db (with_store n ?s)) k = (if k \<in> {} then None else db_lookup (sv_db n) k)"
      using s(3) by (simp add: sv_db_def)
  qed simp_all
  moreover have "db_lookup (snd ?s) (getSeqKey q) = db_lookup (sv_db n) (getSeqKey q)" for q using s(3) config_keys_apart(2) by metis
  then have "index_mark (sv_idx n, snd ?s) = index_mark (sv_idx n, sv_db n)"
    by (simp add: fun_eq_iff index_mark_def stored_def split: option.splits)
  ultimately show ?thesis by (simp add: sv_db_def)
qed

lemma save_ok:
  assumes "encodes pb" and ok: "sent_ok pb n sent" "feed_ok pb n sent f k"
    and tick: "startSync_tick pb (node_Apply pb order) (fd_settings f) n = (ss, n')" "order_ok order"
  shows "sent_ok pb n' sent \<and> feed_ok pb n' sent (f\<lparr>fd_settings := ss\<rparr>) k \<and> ss_S ss = ss_S (fd_settings f)"
proof -
  obtain st where st: "ss_S (fd_settings f) = Some st" using ok(2) by (auto simp: feed_ok_def)
  obtain b where b: "marshal_command pb (Command_Queue st) = Some b" "unmarshal_command pb b = Some (Command_Queue st)"
    using encodesD(3) [OF assms(1)] by blast
  have ss: "ss_S ss = ss_S (fd_settings f)" "n' = n \<or> n' = snd (node_Apply pb order b n)"
    using tick(1) st b(1) by (auto simp: startSync_tick_def trySave_def Let_def split: if_splits prod.splits option.splits)
  then have "feed_ok pb m sent (f\<lparr>fd_settings := ss\<rparr>) k = feed_ok pb m sent f k" for m by (simp add: feed_ok_def)
  with ss ok config_ok [OF ok b(2) tick(2)] show ?thesis by auto
qed

text \<open>A round of the feed.\<close>

lemma foldl_checkpointers:
  "foldl fifoCheckpointer_Set st xs = (if xs = [] then st else st\<lparr>last_delivered_queued_task := task_id (last xs)\<rparr>)"
  "foldl schedCheckpointer_Set st xs = (if xs = [] then st else st\<lparr>last_delivered_scheduled_task := task_id (last xs)\<rparr>)"
  by (induction xs arbitrary: st) (auto simp: fifoCheckpointer_Set_def schedCheckpointer_Set_def)

lemma take_drop_split:
  assumes "xs = take (length xs) (drop k ys)" "k \<le> length ys"
  shows "take (k + length xs) ys = take k ys @ xs" "drop k ys = xs @ drop (k + length xs) ys" "k + length xs \<le> length ys"
proof -
  show "take (k + length xs) ys = take k ys @ xs" using assms(1) by (simp add: take_add)
  show d: "drop k ys = xs @ drop (k + length xs) ys" using assms(1) by (metis append_take_drop_id drop_drop add.commute)
  show "k + length xs \<le> length ys" using arg_cong [OF d, of length] assms(2) by simp
qed

lemma allowed_take: "allowed ctx ts = take (length (allowed ctx ts)) ts"
  by (auto simp: allowed_def min_def split: option.splits)

text \<open>The checkpoints after a round are those before it, or tasks that were delivered.\<close>

lemma checkpoints_ok:
  assumes ok: "sent_ok pb n sent"
    and st: "sched_settings_ok st" "MustParseString (last_delivered_queued_task st) = Some l"
      "l = iden_Max \<or> unat (TaskID_Index l) \<le> index_mark (sv_idx n, sv_db n) q"
    and xs: "\<And>t. t \<in> set xs \<Longrightarrow> t \<in> set sent \<and> task_queue t = q" and ys: "set ys \<subseteq> set sent"
  defines "st' \<equiv> foldl schedCheckpointer_Set (foldl fifoCheckpointer_Set st xs) ys"
  shows "qc_id st' = qc_id st" "sched_settings_ok st'"
    "\<exists>l. MustParseString (last_delivered_queued_task st') = Some l \<and> (l = iden_Max \<or> unat (TaskID_Index l) \<le> index_mark (sv_idx n, sv_db n) q)"
proof -
  have parse: "MustParseString (task_id t) = Some (task_tid t)" if "t \<in> set sent" for t
    using checkpoint_okE [OF sent_okD(6) [OF ok that]] by blast
  show "qc_id st' = qc_id st" by (simp add: st'_def foldl_checkpointers)
  show "sched_settings_ok st'"
  proof (cases "ys = []")
    case False
    then have "last ys \<in> set sent" using ys by auto
    with False parse show ?thesis by (simp add: st'_def foldl_checkpointers sched_settings_ok_def)
  qed (use st(1) in \<open>simp add: st'_def sched_settings_ok_def foldl_checkpointers\<close>)
  have q: "last_delivered_queued_task st' = (if xs = [] then last_delivered_queued_task st else task_id (last xs))"
    by (simp add: st'_def foldl_checkpointers)
  show "\<exists>l. MustParseString (last_delivered_queued_task st') = Some l \<and> (l = iden_Max \<or> unat (TaskID_Index l) \<le> index_mark (sv_idx n, sv_db n) q)"
  proof (cases "xs = []")
    case True
    with st(2,3) q show ?thesis by simp
  next
    case False
    then have "last xs \<in> set sent" "task_queue (last xs) = q" using xs [of "last xs"] by simp_all
    with False parse sent_okD(7) [OF ok, of "last xs"] q show ?thesis by simp
  qed
qed

lemma round_ok:
  assumes ok: "sent_ok pb n sent" "feed_ok pb n sent f k"
  obtains c f' k' where "pullAndPush pb now (sv_db n) f = Some (c, None, f')" "feed_ok pb n sent f' k'" "feed_queue f' = feed_queue f"
    "fd_ctx f = None \<Longrightarrow> k' = length (fifo_sent (feed_queue f) sent)"
proof -
  note s = sent_okD [OF ok(1)]
  define q where "q = feed_queue f"
  let ?q = "fifo_sent q sent"
  obtain st l where st: "ss_S (fd_settings f) = Some st" "qc_id st = q" "plain_queue q" "sched_settings_ok st"
      "\<And>now. pending fifoUndelivered_Query now st pb (sv_db n) = set (drop k ?q)"
    and l: "MustParseString (last_delivered_queued_task st) = Some l"
      "l = iden_Max \<or> unat (TaskID_Index l) \<le> index_mark (sv_idx n, sv_db n) q"
    using ok(2) unfolding feed_ok_def settings_ok_def q_def by blast
  have k: "filter is_fifo (fd_feed f) = take k ?q" "k \<le> length ?q" "task_key ` set (drop k ?q) \<inter> tw_acked (store_of n) = {}"
    using ok(2) unfolding feed_ok_def q_def by blast+
  have stored: "\<forall>t \<in> stored_tasks pb (sv_db n). plain_queue (task_queue t) \<and> checkpoint_ok t" using s(4,6,8) by blast
  have st_ok: "plain_queue (qc_id st)" "fifo_settings_ok st" using st(2,3) l(1) by (simp_all add: fifo_settings_ok_def)
  show ?thesis
  proof (rule pullAndPush_round [OF node_dbD(1) [OF s(1)] s(3) stored st_ok st(4,1), of now], goal_cases)
    case (1 fs ss xs ys f')
    note r = 1(1-3,5-10)
    let ?st = "foldl schedCheckpointer_Set (foldl fifoCheckpointer_Set st xs) ys"
    have sorted: "sorted_wrt index_less ?q" by (rule sent_sorted [OF ok(1)])
    have fs: "fs = drop k ?q"
      using r(1,2) st(5) sorted_wrt_drop [OF sorted] by (intro sorted_wrt_same_set [of index_less]) (simp_all add: index_less_def)
    then have xs: "xs = take (length xs) (drop k ?q)" using r(4) allowed_take by metis
    have ys: "set ys \<subseteq> stored_tasks pb (sv_db n)" "\<forall>t \<in> set ys. \<not> is_fifo t"
      using set_allowed_subset [of _ ss] r(3,5) pending_kind(2) unfolding pending_def by blast+
    have "set xs \<subseteq> set ?q" using xs by (metis set_take_subset set_drop_subset subset_trans)
    then have xq: "\<And>t. t \<in> set xs \<Longrightarrow> t \<in> set sent \<and> task_queue t = q \<and> is_fifo t" by (auto simp: fifo_sent_def)
    define k' where "k' = k + length xs"
    note split = take_drop_split [OF xs k(2), folded k'_def]
    note st' = checkpoints_ok [where xs = xs and ys = ys, OF ok(1) st(4) l]
    have ys_sent: "set ys \<subseteq> set sent" using ys(1) s(8) by blast
    have disj: "set (xs @ ys) \<inter> set (drop k' ?q) = {}" "set (drop k ?q) = set xs \<union> set (drop k' ?q)"
    proof -
      have "distinct (drop k ?q)" by (rule sorted_wrt_distinct [OF sorted_wrt_drop [OF sorted]]) (simp add: index_less_def)
      then have "set xs \<inter> set (drop k' ?q) = {}" unfolding split(2) by simp
      moreover have "\<forall>t \<in> set (drop k' ?q). is_fifo t" by (auto simp: fifo_sent_def dest: in_set_dropD)
      ultimately show "set (xs @ ys) \<inter> set (drop k' ?q) = {}" using ys(2) by auto
      show "set (drop k ?q) = set xs \<union> set (drop k' ?q)" unfolding split(2) by simp
    qed
    have "pending fifoUndelivered_Query t ?st pb (sv_db n) = set (drop k' ?q)" for t
      unfolding r(9) st(5) disj(2) using disj(1) by auto
    then have "settings_ok pb n sent q k' ?st" using st' xq ys_sent st(2,3) unfolding settings_ok_def by simp
    moreover have "filter is_fifo (fd_feed f') = take k' ?q"
      using k(1) split(1) xq ys(2) by (simp add: r(7) filter_id_conv [THEN iffD2])
    moreover have "task_key ` set (drop k' ?q) \<inter> tw_acked (store_of n) = {}" using k(3) unfolding disj(2) image_Un by blast
    moreover have fq: "feed_queue f' = q" using st' xq ys_sent st(2) by (simp add: r(8))
    ultimately have "feed_ok pb n sent f' k'" using r(8) split(3) unfolding feed_ok_def fq by simp
    moreover have "k' = length ?q" if "fd_ctx f = None" using that r(4) fs k(2) by (simp add: allowed_def k'_def)
    ultimately show ?case using r(6) fq by (intro that [of _ f' k']) (simp_all add: q_def)
  qed
qed

section \<open>The invariant holds\<close>

lemma loop_ok:
  assumes "sent_ok pb n sent" "feed_ok pb n sent f k" "fd_ctx f = None"
  shows "\<exists>sleeps f' k'. startFeed pb (map (\<lambda>now. (now, sv_db n)) nows) f = Some (False, sleeps, f') \<and> 1000 \<notin> set sleeps \<and>
    feed_ok pb n sent f' k' \<and> feed_queue f' = feed_queue f \<and> (nows \<noteq> [] \<longrightarrow> k' = length (fifo_sent (feed_queue f) sent))"
  using assms(2,3)
proof (induction nows arbitrary: f k)
  case (Cons now nows)
  show ?case
  proof (rule round_ok [OF assms(1) Cons.prems(1), of now], goal_cases)
    case (1 c f' k')
    have ctx: "fd_ctx f' = None" by (rule pullAndPush_ctx(1) [OF 1(1) Cons.prems(2)])
    obtain sleeps f'' k'' where l: "startFeed pb (map (\<lambda>now. (now, sv_db n)) nows) f' = Some (False, sleeps, f'')" "1000 \<notin> set sleeps"
      "feed_ok pb n sent f'' k''" "feed_queue f'' = feed_queue f'" "nows \<noteq> [] \<longrightarrow> k'' = length (fifo_sent (feed_queue f') sent)"
      using Cons.IH [OF 1(2) ctx] by blast
    have "startFeed pb (map (\<lambda>now. (now, sv_db n)) (now # nows)) f = Some (False, (if c = 0 then [5] else []) @ sleeps, f'')"
      using 1(1) Cons.prems(2) l(1) by simp
    moreover have "\<exists>k. feed_ok pb n sent f'' k \<and> k = length (fifo_sent (feed_queue f) sent)"
    proof (cases "nows = []")
      case True
      then have "f'' = f'" using l(1) by simp
      with 1(2) 1(4) [OF Cons.prems(2)] show ?thesis by blast
    next
      case False
      with l(3,5) 1(3) show ?thesis by auto
    qed
    ultimately show ?case using l(2,4) 1(3) by auto
  qed
qed auto

lemma start_ok:
  assumes "encodes pb" "order_ok order" "plain_queue q"
  obtains s where "sys_start pb order q = Some s" "sy_sent s = []" "feed_queue (sy_feed s) = q" "fd_ctx (sy_feed s) = None"
    "sent_ok pb (sy_node s) []" "feed_ok pb (sy_node s) [] (sy_feed s) 0" "\<And>p. index_mark (sv_idx (sy_node s), sv_db (sy_node s)) p = 0"
    "fd_feed (sy_feed s) = []" "ss_S (fd_settings (sy_feed s)) = Some (default_settings q)"
proof -
  have d: "sv_db new_node = \<lparr>db_kv = [], db_faults = []\<rparr>" "store_of new_node = (NewTaskWriter, \<lparr>db_kv = [], db_faults = []\<rparr>)"
    by (simp_all add: new_node_def sv_db_def sm_New_def SetHandle_def)
  have node: "sent_ok pb new_node []"
    using NewIndexStore_ok
    by (simp add: sent_ok_def node_ok_def d fsm_ok_def tw_ok_def db_ok_def tasks_wf_def stored_tasks_def tw_acked_def NewTaskWriter_def
        ack_keys_def) (simp add: new_node_def sm_New_def SetHandle_def)
  obtain b where b: "marshal_command pb (Command_Queue (default_settings q)) = Some b" "unmarshal_command pb b = Some (Command_Queue (default_settings q))"
    using encodesD(3) [OF assms(1)] by blast
  define ss where "ss = \<lparr>ss_S = Some (default_settings q), ss_lastSaved = Some (default_settings q), ss_queue = q\<rparr>"
  define f where "f = \<lparr>fd_settings = ss, fd_feed = [], fd_ctx = None, fd_fifoDelivered = newDeliveredReader redeliveryInterval,
      fd_schedDelivered = newDeliveredReader redeliveryInterval, fd_started = []\<rparr>"
  have "settings_ok pb new_node [] q 0 (default_settings q)"
    using assms(3) by (simp add: settings_ok_def default_pending_fifo d stored_tasks_def fifo_sent_def) (simp add: default_settings_def)
  then have feed: "feed_ok pb new_node [] f 0" "feed_queue f = q"
    by (simp_all add: feed_ok_def f_def ss_def fifo_sent_def default_settings_def)
  obtain n where n: "node_Apply pb order b new_node = (None, n)"
    using node_Apply_single(3) [OF node_dbD(4) [OF sent_okD(1) [OF node]] b(2) assms(2) refl] by simp
  then have "sys_start pb order q = Some \<lparr>sy_node = n, sy_feed = f, sy_sent = []\<rparr>"
    using b(1)
    by (simp add: sys_start_def Feed_New_def StartSync_def ss_load_def NewSyncedSettings_def SettingStore_Get_def db_Get_def db_call_def
        db_lookup_def d errors_is.simps trySave_def f_def ss_def Let_def)
  moreover have "index_mark (sv_idx new_node, sv_db new_node) p = 0" for p unfolding d(1) by (simp add: new_node_def)
  ultimately show ?thesis
    using config_ok [OF node feed(1) b(2) assms(2)] feed(2) n
    by (intro that [of "\<lparr>sy_node = n, sy_feed = f, sy_sent = []\<rparr>"]) (simp_all add: f_def ss_def)
qed

lemma step_ok:
  assumes "encodes pb" "sys_step pb s s'" "sent_ok pb (sy_node s) (sy_sent s)" "feed_ok pb (sy_node s) (sy_sent s) (sy_feed s) k"
  shows "\<exists>k'. sent_ok pb (sy_node s') (sy_sent s') \<and> feed_ok pb (sy_node s') (sy_sent s') (sy_feed s') k' \<and>
    feed_queue (sy_feed s') = feed_queue (sy_feed s)"
  using assms(2)
proof cases
  case (sys_push evicted order remote now q req t n)
  have p: "pushed pb (sy_node s) t n"
    by (rule Push_pushed [OF assms(1) sent_okD(1,2) [OF assms(3)] sys_push(2-7)])
  from pushed_sent_ok [OF assms(3) p] pushed_feed_ok [OF assms(3,4) p] sys_push(1) show ?thesis by (intro exI [of _ k]) simp
next
  case (sys_round now c e f)
  show ?thesis
  proof (rule round_ok [OF assms(3,4), of now], goal_cases)
    case (1 c' f' k')
    with sys_round have "f' = f" by simp
    with 1(2,3) assms(3) sys_round(1) show ?case by (intro exI [of _ k']) simp
  qed
next
  case (sys_cancel j)
  then have "feed_ok pb (sy_node s') (sy_sent s') (sy_feed s') k" using assms(4) by (simp add: feed_ok_def)
  with assms(3) sys_cancel show ?thesis by auto
next
  case (sys_ack t order)
  show ?thesis
    using sys_ack_ok [OF assms(1,3,4) sys_ack(4,2,3)] sys_ack(1) by (intro exI [of _ k]) simp
next
  case (sys_flush w d)
  have "tw_ok (w, d)" using node_dbD(5) [OF sent_okD(1) [OF assms(3)]] sys_flush(2) by simp
  then obtain st D where st: "handleAckFlush_tick w d = st" "tw_ok st" "D \<subseteq> tw_acked (store_of (sy_node s)) \<union> {}"
    "tw_acked st \<subseteq> tw_acked (store_of (sy_node s)) \<union> {}" "db_lookup (snd st) = (\<lambda>k. if k \<in> D then None else db_lookup (sv_db (sy_node s)) k)"
    using handleAckFlush_effect [of w d] sys_flush(2) unfolding sv_db_def by (metis Un_empty_right snd_conv)
  from sys_acknowledged [OF assms(3,4) st(2-5)] st(1) sys_flush(1) show ?thesis by (intro exI [of _ k]) simp
next
  case (sys_save order ss n)
  with save_ok [OF assms(1,3,4) sys_save(2,3)] show ?thesis by (intro exI [of _ k]) simp
next
  case (sys_config b order c)
  with config_ok [OF assms(3,4) sys_config(2,3)] show ?thesis by (intro exI [of _ k]) simp
qed

lemma reachable_ok:
  assumes "encodes pb" "order_ok order" "plain_queue q" "sys_start pb order q = Some s0" "(sys_step pb)\<^sup>*\<^sup>* s0 s"
  shows "\<exists>k. sent_ok pb (sy_node s) (sy_sent s) \<and> feed_ok pb (sy_node s) (sy_sent s) (sy_feed s) k \<and> feed_queue (sy_feed s) = q"
  using assms(5)
proof (induction rule: rtranclp_induct)
  case base
  from start_ok [OF assms(1-3)] assms(4) show ?case by (metis option.inject)
next
  case (step s s')
  then obtain k where k: "sent_ok pb (sy_node s) (sy_sent s)" "feed_ok pb (sy_node s) (sy_sent s) (sy_feed s) k" "feed_queue (sy_feed s) = q"
    by blast
  from step_ok [OF assms(1) step.hyps(2) k(1,2)] k(3) show ?case by metis
qed

lemma sorted_indexes_distinct:
  assumes "sorted_wrt (\<lambda>t u. task_queue t = task_queue u \<longrightarrow> index_less t u) ts"
  shows "distinct ts" "inj_on (\<lambda>t. (task_queue t, TaskID_Index (task_tid t))) (set ts)"
proof -
  show "distinct ts" using assms by (induction ts) (fastforce simp: index_less_def)+
  have "t = u" if tu: "t \<in> set ts" "u \<in> set ts" "task_queue t = task_queue u" "TaskID_Index (task_tid t) = TaskID_Index (task_tid u)" for t u
  proof (rule ccontr)
    assume "t \<noteq> u"
    with tu(1,2) obtain i j where ij: "i < length ts" "j < length ts" "ts ! i = t" "ts ! j = u" "i \<noteq> j" by (metis in_set_conv_nth)
    then consider "i < j" | "j < i" by linarith
    then show False
      using sorted_wrt_nth_less [OF assms, of i j] sorted_wrt_nth_less [OF assms, of j i] ij tu(3,4) by cases (simp_all add: index_less_def)
  qed
  then show "inj_on (\<lambda>t. (task_queue t, TaskID_Index (task_tid t))) (set ts)" by (intro inj_onI) simp
qed

text \<open>A run of the system on a concrete codec: one push, then one round.\<close>

abbreviation sample_order :: "part list" where
  "sample_order \<equiv> [PTasks, PSettings, PAcks]"

lemma sample_hyps: "encodes wire_codec" "order_ok sample_order" "plain_queue ''q''"
  using part.exhaust by (auto simp: encodes_def codec_ok_wire order_ok_def plain_queue_def)

lemma sample_run:
  "\<exists>s0 s1 s2 t. sys_start wire_codec sample_order ''q'' = Some s0 \<and> sys_step wire_codec s0 s1 \<and> sys_step wire_codec s1 s2 \<and>
     sy_sent s1 = [t] \<and> sy_sent s2 = [t] \<and> fifo_sent ''q'' [t] = [t] \<and> fd_ctx (sy_feed s1) = None \<and> filter is_fifo (fd_feed (sy_feed s2)) = [t]"
proof (rule start_ok [OF sample_hyps], goal_cases)
  case (1 s0)
  let ?req = "\<lparr>pr_queue = ''q'', pr_async = False, pr_metadata = [], pr_payload = [1], pr_schedule = NoSchedule\<rparr>"
  let ?now = "\<lambda>_::nat. zero_time"
  let ?remote = "\<lambda>_ _ s. (Inl ENoLeader, s)"
  have l: "qs_isLeader sample_leader" by (simp add: sample_leader_def)
  have r: "run_time_ok (getRunTime (?now 1) ?req)" "getRunTime (?now 1) ?req = zero_time" by (simp_all add: getRunTime_def run_time_ok_def)
  have m: "index_mark (sv_idx (sy_node s0), sv_db (sy_node s0)) (pr_queue ?req) + 10000 < 2 ^ 64" using 1(7) by simp
  obtain t n where t: "Push wire_codec (node_ID []) (node_Apply wire_codec sample_order) ?remote ?now sample_leader ?req (sy_node s0)
      = Some (Inr \<lparr>ps_task = Some t, ps_forwarded_to = []\<rparr>, n)" "task_queue t = ''q''" "is_fifo t"
    by (rule node_push [OF sample_hyps(1) sent_okD(1) [OF 1(5)] l r(1) sample_hyps(2) m, where evicted = "[]" and remote = ?remote])
      (simp add: r(2))
  let ?s1 = "s0\<lparr>sy_node := n, sy_sent := sy_sent s0 @ [t]\<rparr>"
  have s1: "sys_step wire_codec s0 ?s1"
    by (rule sys_push [OF t(1) l sample_hyps(2) _ r(1) m]) (simp add: sample_hyps(3))
  obtain k where k: "sent_ok wire_codec (sy_node ?s1) (sy_sent ?s1)" "feed_ok wire_codec (sy_node ?s1) (sy_sent ?s1) (sy_feed ?s1) k"
    "feed_queue (sy_feed ?s1) = ''q''"
    using reachable_ok [OF sample_hyps 1(1) r_into_rtranclp [of "sys_step wire_codec", OF s1]] by blast
  have q: "fifo_sent ''q'' [t] = [t]" using t(2,3) by (simp add: fifo_sent_def)
  show ?case
  proof (rule round_ok [OF k(1,2), of "\<lambda>_ _. zero_time"], goal_cases)
    case (1 c f k')
    have "fd_ctx (sy_feed ?s1) = None" using \<open>fd_ctx (sy_feed s0) = None\<close> by simp
    with 1 k(3) q have "filter is_fifo (fd_feed f) = [t]" by (simp add: feed_ok_def \<open>sy_sent s0 = []\<close>)
    with sys_round [OF 1(1)] s1 \<open>sys_start wire_codec sample_order ''q'' = Some s0\<close> \<open>fd_ctx (sy_feed s0) = None\<close> q show ?case
      by (intro exI [of _ s0] exI [of _ ?s1] exI [of _ "?s1\<lparr>sy_feed := f\<rparr>"] exI [of _ t]) (simp add: \<open>sy_sent s0 = []\<close>)
  qed
qed

section \<open>Properties\<close>

text \<open>C12. The store stays well-formed: whatever the node does, every task in its database has a valid identifier of its kind, is found
  under the key of its identifier, and was pushed; and no two tasks pushed to a queue have the same index.\<close>

theorem stored_tasks_well_formed:
  assumes "encodes pb" "order_ok order" "plain_queue q" "sys_start pb order q = Some s0" "(sys_step pb)\<^sup>*\<^sup>* s0 s"
  shows "node_ok (sy_node s) \<and> tasks_wf pb (sv_db (sy_node s)) \<and>
    (\<forall>t \<in> stored_tasks pb (sv_db (sy_node s)). kind_ok t \<and> checkpoint_ok t \<and> plain_queue (task_queue t) \<and> t \<in> set (sy_sent s)) \<and>
    inj_on (\<lambda>t. (task_queue t, TaskID_Index (task_tid t))) (set (sy_sent s)) \<and> distinct (sy_sent s)"
proof -
  obtain k where ok: "sent_ok pb (sy_node s) (sy_sent s)" using reachable_ok [OF assms] by blast
  note o = sent_okD [OF ok]
  have sorted: "sorted_wrt (\<lambda>t u. task_queue t = task_queue u \<longrightarrow> index_less t u) (sy_sent s)" using ok by (simp add: sent_ok_def)
  show ?thesis
    using o(1,3) subsetD [OF o(8)] o(4-6) sorted_indexes_distinct [OF sorted] by simp
qed

theorem stored_tasks_well_formed_witness:
  "\<exists>s0 s t. sys_start wire_codec sample_order ''q'' = Some s0 \<and> sys_step wire_codec s0 s \<and> sy_sent s = [t] \<and>
     node_ok (sy_node s) \<and> stored_tasks wire_codec (sv_db (sy_node s)) \<subseteq> {t}"
proof -
  obtain s0 s t where s: "sys_start wire_codec sample_order ''q'' = Some s0" "sys_step wire_codec s0 s" "sy_sent s = [t]"
    using sample_run by blast
  from stored_tasks_well_formed [OF sample_hyps s(1) r_into_rtranclp [of "sys_step wire_codec", OF s(2)]] s show ?thesis
    by (intro exI [of _ s0] exI [of _ s] exI [of _ t]) auto
qed





end
