(* ===== verification/Failover.thy ===== *)
theory Failover
  imports Delivery
begin

text \<open>
  A cluster over changes of its leader. The leader of the moment makes tasks and commands, which go to the log of raft; the other nodes apply the log
  in batches of any size, and as followers keep in their own database how far the indexes of each queue have
  come. The lemmas say that a node that takes over goes on behind all indexes of the log, so that no task replaces
  another; and that a node which leads a second time does not.
\<close>

section \<open>The cluster\<close>

text \<open>
  The log has the commands of the committed entries. \<open>cl_applied\<close> is the number of entries that a node has applied, and \<open>cl_led\<close> has the nodes that
  have been leader; the latter is not part of the state of the program.
\<close>

record Cluster =
  cl_log :: "Command list"
  cl_node :: "nat \<Rightarrow> Server"
  cl_applied :: "nat \<Rightarrow> nat"
  cl_leader :: nat
  cl_led :: "nat set"

definition entry_of :: "codec \<Rightarrow> Command \<Rightarrow> raft_log" where
  "entry_of pb c = \<lparr>log_is_command = True, log_data = (case marshal_command pb c of None \<Rightarrow> [] | Some b \<Rightarrow> b)\<rparr>"

abbreviation set_role :: "bool \<Rightarrow> Server \<Rightarrow> Server" where
  "set_role b n \<equiv> n\<lparr>sv_fsm := SetHandle (Some b) (sv_fsm n)\<rparr>"

text \<open>
  A push and another command of the leader, a batch on another node, the deletion of acknowledged tasks on the timer, and a new leader:
  a node that has not led before and has applied the whole log.
\<close>

inductive cl_step :: "codec \<Rightarrow> Cluster \<Rightarrow> Cluster \<Rightarrow> bool" for pb where
  cl_push: "cl_step pb s (s\<lparr>cl_node := (cl_node s)(cl_leader s := n), cl_log := cl_log s @ [Command_Task t],
      cl_applied := (cl_applied s)(cl_leader s := Suc (length (cl_log s)))\<rparr>)"
    if "Push pb (node_ID evicted) (node_Apply pb order) remote now q req (cl_node s (cl_leader s))
        = Some (Inr \<lparr>ps_task = Some t, ps_forwarded_to = []\<rparr>, n)"
      "qs_isLeader q" "order_ok order" "plain_queue (pr_queue req)" "run_time_ok (getRunTime (now 1) req)"
      "index_mark (sv_idx (cl_node s (cl_leader s)), sv_db (cl_node s (cl_leader s))) (pr_queue req) + 10000 < 2 ^ 64"
| cl_command: "cl_step pb s (s\<lparr>cl_node := (cl_node s)(cl_leader s := snd (node_Apply pb order b (cl_node s (cl_leader s)))),
      cl_log := cl_log s @ [c], cl_applied := (cl_applied s)(cl_leader s := Suc (length (cl_log s)))\<rparr>)"
    if "unmarshal_command pb b = Some c" "(\<exists>a. c = Command_Ack a) \<or> (\<exists>g. c = Command_Queue g)" "order_ok order"
| cl_replicate: "cl_step pb s (s\<lparr>cl_node := (cl_node s)(i := (cl_node s i)\<lparr>sv_fsm := f\<rparr>),
      cl_applied := (cl_applied s)(i := cl_applied s i + length batch)\<rparr>)"
    if "i \<noteq> cl_leader s" "batch = take k (drop (cl_applied s i) (cl_log s))"
      "ApplyBatch pb order (map (entry_of pb) batch) (sv_fsm (cl_node s i)) = Some (res, f)" "order_ok order"
| cl_flush: "cl_step pb s (s\<lparr>cl_node := (cl_node s)(i := with_store (cl_node s i) (handleAckFlush_tick w d))\<rparr>)"
    if "store_of (cl_node s i) = (w, d)"
| cl_elect: "cl_step pb s (s\<lparr>cl_leader := j, cl_led := insert j (cl_led s),
      cl_node := (cl_node s)(cl_leader s := set_role False (cl_node s (cl_leader s)), j := set_role True (cl_node s j))\<rparr>)"
    if "j \<notin> cl_led s" "cl_applied s j = length (cl_log s)"

text \<open>A new cluster, led by a node \<open>l\<close>.\<close>

definition cl_start :: "nat \<Rightarrow> Cluster" where
  "cl_start l = \<lparr>cl_log = [], cl_node = (\<lambda>i. set_role (i = l) new_node), cl_applied = (\<lambda>_. 0), cl_leader = l, cl_led = {l}\<rparr>"

section \<open>The sequences of a follower\<close>

lemma unmarshal_entry:
  assumes "encodes pb"
  shows "log_is_command (entry_of pb c)" "unmarshal_command pb (log_data (entry_of pb c)) = Some c"
  using encodesD(3) [OF assms, of c] by (auto simp: entry_of_def)

lemma commands_entries:
  "encodes pb \<Longrightarrow> Command_Unset \<notin> set cs \<Longrightarrow> commands pb (map (entry_of pb) cs) = Some cs"
proof (induction cs)
  case (Cons c cs)
  then show ?case by (cases c) (simp_all add: commands.simps unmarshal_entry)
qed simp

text \<open>The entry of a queue after tasks: the index of its last one.\<close>

definition seq_entry :: "string \<Rightarrow> Task list \<Rightarrow> bytes option" where
  "seq_entry q ts = foldl (\<lambda>m t. if task_queue t = q then Some (PutUint64 (task_index t)) else m) None ts"

lemma seq_entry_Nil [simp]: "seq_entry q [] = None"
  by (simp add: seq_entry_def)

lemma seq_entry_snoc [simp]: "seq_entry q (ts @ [t]) = (if task_queue t = q then Some (PutUint64 (task_index t)) else seq_entry q ts)"
  by (simp add: seq_entry_def)

lemma seq_entry_append: "seq_entry q (ts @ us) = (case seq_entry q us of None \<Rightarrow> seq_entry q ts | Some b \<Rightarrow> Some b)"
proof (induction us rule: rev_induct)
  case (snoc u us)
  then show ?case by (simp flip: append_assoc)
qed simp

abbreviation queue_sorted :: "Task list \<Rightarrow> bool" where
  "queue_sorted \<equiv> sorted_wrt (\<lambda>t u. task_queue t = task_queue u \<longrightarrow> task_index t < task_index u)"

lemma index_map_last:
  assumes "queue_sorted ts" "\<forall>t \<in> set ts. task_index t \<noteq> 0"
  shows "map_of (index_map True [] ts) q = (let us = filter (\<lambda>t. task_queue t = q) ts in if us = [] then None else Some (task_index (last us)))"
  using assms
proof (induction ts arbitrary: q rule: rev_induct)
  case (snoc t ts)
  let ?us = "filter (\<lambda>u. task_queue u = task_queue t) ts"
  have IH: "map_of (index_map True [] ts) q = (let us = filter (\<lambda>t. task_queue t = q) ts in if us = [] then None else Some (task_index (last us)))" for q
    using snoc by (simp add: sorted_wrt_append)
  have "maxIndexes_get (index_map True [] ts) (task_queue t) < task_index t"
  proof (cases "?us = []")
    case True
    then show ?thesis using IH [of "task_queue t"] snoc.prems(2) by (simp add: maxIndexes_get_def word_neq_0_conv)
  next
    case False
    then have "last ?us \<in> set ?us" by (rule last_in_set)
    then have "task_index (last ?us) < task_index t" using snoc.prems(1) by (simp add: sorted_wrt_append)
    with False IH [of "task_queue t"] show ?thesis by (simp add: maxIndexes_get_def)
  qed
  then have "index_map True [] (ts @ [t]) = (task_queue t, task_index t) # filter (\<lambda>e. fst e \<noteq> task_queue t) (index_map True [] ts)"
    by (simp add: index_map_def maxIndexes_add_def)
  then show ?case using IH [of q] by (auto simp: map_of_filter_neq Let_def)
qed (simp add: index_map_def)

lemma index_map_entry:
  assumes "queue_sorted ts" "\<forall>t \<in> set ts. task_index t \<noteq> 0"
  shows "map_option PutUint64 (map_of (index_map True [] ts) q) = seq_entry q ts"
proof -
  have "seq_entry q ts = (let us = filter (\<lambda>t. task_queue t = q) ts in if us = [] then None else Some (PutUint64 (task_index (last us))))"
    by (induction ts rule: rev_induct) (auto simp: Let_def)
  then show ?thesis by (simp add: index_map_last [OF assms] Let_def)
qed

text \<open>The parts of a batch on a follower: only the tasks change the entries of the sequences.\<close>

abbreviation seq_of :: "taskWriter \<times> db \<Rightarrow> string \<Rightarrow> bytes option" where
  "seq_of s q \<equiv> db_lookup (snd s) (getSeqKey q)"

lemma seq_key_not_acked: "getSeqKey q \<notin> set (ack_keys as)"
  using ack_keys_task seq_key_not_task by blast

lemma save_seq:
  assumes "tw_ok s" "tw_save pb c s = (e, s')"
  shows "tw_ok s' \<and> seq_of s' = seq_of s"
proof -
  have "getSeqKey q \<noteq> getConfigKey p" for q p using config_keys_apart(2) by metis
  with assms show ?thesis
    by (auto simp: tw_save_def SettingStore_Save_def tw_ok_def db_Set_def db_call_def db_lookup_def db_ok_def map_of_kv_put fun_eq_iff
        split: option.splits prod.splits)
qed

lemma settings_seq:
  "tw_ok s \<Longrightarrow> tw_ok (snd (applySettings_loop (tw_save pb) cs s)) \<and> seq_of (snd (applySettings_loop (tw_save pb) cs s)) = seq_of s"
proof (induction cs arbitrary: s)
  case (Cons c cs)
  obtain e s' where s': "tw_save pb c s = (e, s')" by (cases "tw_save pb c s") blast
  from save_seq [OF Cons.prems s'] Cons.IH [of s'] s' show ?case by (simp split: option.split)
qed simp

lemma acks_seq:
  assumes "tw_ok s"
  shows "tw_ok (snd (tw_acknowledge as s)) \<and> seq_of (snd (tw_acknowledge as s)) = seq_of s"
proof (rule tw_acknowledge_effect [OF assms, of as], goal_cases)
  case (1 s' D)
  have "getSeqKey q \<notin> D" for q using 1(3) seq_key_not_acked unfolding tw_acked_def by blast
  with 1(1,2,5) show ?case by simp
qed

lemma push_seq:
  assumes "tw_ok s" "those (map (task_kv pb) ts) = Some T" "queue_sorted ts" "\<forall>t \<in> set ts. task_index t \<noteq> 0"
  shows "\<exists>s'. tw_push pb ts True s = Some (None, s') \<and> tw_ok s' \<and>
    seq_of s' = (\<lambda>q. case seq_entry q ts of None \<Rightarrow> seq_of s q | Some b \<Rightarrow> Some b)"
proof -
  have d: "db_ok (snd s)" "db_faults (snd s) = []" using assms(1) by (simp_all add: tw_ok_def)
  obtain d' where d': "SaveAll pb (snd s) ts True = Some (None, d')" "db_faults d' = []"
    using SaveAll_no_faults [OF d(2), of pb ts True] assms(2) d(2) by (simp add: save_kvs_def)
  have "db_ok d'" by (rule db_ok_SaveAll [OF d(1) d'(1)])
  moreover have "db_lookup d' (getSeqKey q) = (case seq_entry q ts of None \<Rightarrow> seq_of s q | Some b \<Rightarrow> Some b)" for q
    using SaveAll_sequence [OF d(1) d'(1), of q] index_map_entry [OF assms(3,4), of q] by (auto split: option.splits)
  ultimately show ?thesis using d' by (simp add: tw_push_def tw_Push_def tw_ok_def)
qed

lemma part_seq:
  assumes "tw_ok s" "those (map (task_kv pb) (bw_tasks w)) = Some T" "queue_sorted (bw_tasks w)" "\<forall>t \<in> set (bw_tasks w). task_index t \<noteq> 0"
    and "handle \<noteq> Some True"
  shows "\<exists>e s'. run_part (tw_push pb) tw_acknowledge (tw_save pb) handle w p s = Some (e, s') \<and> tw_ok s' \<and>
    seq_of s' = (if p = PTasks then \<lambda>q. case seq_entry q (bw_tasks w) of None \<Rightarrow> seq_of s q | Some b \<Rightarrow> Some b else seq_of s)"
proof (cases p)
  case PSettings
  from settings_seq [OF assms(1), of pb "bw_settings w"] assms(1) PSettings show ?thesis
    by (cases "applySettings_loop (tw_save pb) (bw_settings w) s"; cases s) (auto simp: applySettings_def)
next
  case PTasks
  from push_seq [OF assms(1-4)] assms(1,5) PTasks show ?thesis by (cases handle; cases s) (auto simp: applyTasks_def)
next
  case PAcks
  from acks_seq [OF assms(1), of "bw_acks w"] assms(1) PAcks show ?thesis
    by (cases "tw_acknowledge (bw_acks w) s"; cases s) (auto simp: applyAcks_def)
qed

lemma parts_seq:
  assumes "tw_ok s" "those (map (task_kv pb) (bw_tasks w)) = Some T" "queue_sorted (bw_tasks w)" "\<forall>t \<in> set (bw_tasks w). task_index t \<noteq> 0"
    and "handle \<noteq> Some True" "distinct ps"
  shows "\<exists>errs' s'. run_parts (tw_push pb) tw_acknowledge (tw_save pb) handle w ps s errs = Some (errs', s') \<and> tw_ok s' \<and>
    seq_of s' = (if PTasks \<in> set ps then \<lambda>q. case seq_entry q (bw_tasks w) of None \<Rightarrow> seq_of s q | Some b \<Rightarrow> Some b else seq_of s)"
  using assms(1,6)
proof (induction ps arbitrary: s errs)
  case (Cons p ps)
  obtain e s1 where s1: "run_part (tw_push pb) tw_acknowledge (tw_save pb) handle w p s = Some (e, s1)" "tw_ok s1"
    "seq_of s1 = (if p = PTasks then \<lambda>q. case seq_entry q (bw_tasks w) of None \<Rightarrow> seq_of s q | Some b \<Rightarrow> Some b else seq_of s)"
    using part_seq [OF Cons.prems(1) assms(2-5), of p] by blast
  obtain errs' s' where s': "run_parts (tw_push pb) tw_acknowledge (tw_save pb) handle w ps s1 (errs(p := e)) = Some (errs', s')" "tw_ok s'"
    "seq_of s' = (if PTasks \<in> set ps then \<lambda>q. case seq_entry q (bw_tasks w) of None \<Rightarrow> seq_of s1 q | Some b \<Rightarrow> Some b else seq_of s1)"
    using Cons.IH [OF s1(2), of "errs(p := e)"] Cons.prems(2) unfolding distinct.simps by blast
  from s1(1) s'(1,2) s'(3) s1(3) Cons.prems(2) show ?case by (auto simp: fun_eq_iff split: if_splits option.splits)
qed simp

lemma batch_seq:
  assumes f: "fsm_ok f" "fsm_handle f \<noteq> Some True" and cmds: "commands pb logs = Some cmds" "those (map (task_kv pb) (tasks_of cmds)) = Some T"
      "queue_sorted (tasks_of cmds)" "\<forall>t \<in> set (tasks_of cmds). task_index t \<noteq> 0"
    and "order_ok order"
  shows "\<exists>res f'. ApplyBatch pb order logs f = Some (res, f') \<and> fsm_ok f' \<and> fsm_handle f' = fsm_handle f \<and>
    seq_of (fsm_store f') = (\<lambda>q. case seq_entry q (tasks_of cmds) of None \<Rightarrow> seq_of (fsm_store f) q | Some b \<Rightarrow> Some b)"
proof -
  let ?w = "\<lparr>bw_acks = acks_of cmds, bw_tasks = tasks_of cmds, bw_settings = configs_of cmds\<rparr>"
  have w: "fsm_writer f = newBatchWriter" "tw_ok (fsm_store f)" using f(1) by (simp_all add: fsm_ok_def)
  have g: "groupByType pb logs newBatchWriter = (None, ?w)"
    using groupByType_commands [OF cmds(1), of newBatchWriter] by (simp add: newBatchWriter_def)
  obtain errs s' where r: "run_parts (tw_push pb) tw_acknowledge (tw_save pb) (fsm_handle f) ?w order (fsm_store f) (\<lambda>_. None) = Some (errs, s')"
    "tw_ok s'" "seq_of s' = (\<lambda>q. case seq_entry q (tasks_of cmds) of None \<Rightarrow> seq_of (fsm_store f) q | Some b \<Rightarrow> Some b)"
    using parts_seq [OF w(2), of pb ?w T "fsm_handle f" order "\<lambda>_. None"] cmds(2-4) f(2) assms(7) by (auto simp: order_ok_def)
  have "bw_reset ?w = newBatchWriter" by (simp add: bw_reset_def newBatchWriter_def)
  with g r(1) w(1) have "\<exists>res. ApplyBatch pb order logs f = Some (res, f\<lparr>fsm_writer := newBatchWriter, fsm_store := s'\<rparr>)"
    by (cases "first_error errs") (simp_all add: ApplyBatch_def bw_Write_def Let_def)
  with r(2,3) show ?thesis by (auto simp: fsm_ok_def)
qed

section \<open>The invariant\<close>

definition task_ok :: "Task \<Rightarrow> bool" where
  "task_ok t \<longleftrightarrow> MustParseString (task_id t) = Some (task_tid t) \<and> plain_queue (task_queue t) \<and> kind_ok t \<and> task_index t \<noteq> 0"

definition log_ok :: "Command list \<Rightarrow> bool" where
  "log_ok log \<longleftrightarrow> Command_Unset \<notin> set log \<and> (\<forall>t \<in> set (tasks_of log). task_ok t) \<and> queue_sorted (tasks_of log)"

definition follower_ok :: "Server \<Rightarrow> Task list \<Rightarrow> bool" where
  "follower_ok n ts \<longleftrightarrow> fsm_ok (sv_fsm n) \<and> fsm_handle (sv_fsm n) = Some False \<and> sv_idx n = NewIndexStore \<and>
     seq_of (store_of n) = (\<lambda>q. seq_entry q ts)"

definition leader_ok :: "Server \<Rightarrow> Task list \<Rightarrow> bool" where
  "leader_ok n ts \<longleftrightarrow> node_ok n \<and> fsm_handle (sv_fsm n) = Some True \<and>
     (\<forall>t \<in> set ts. unat (task_index t) \<le> index_mark (sv_idx n, sv_db n) (task_queue t))"

definition cl_ok :: "Cluster \<Rightarrow> bool" where
  "cl_ok s \<longleftrightarrow> log_ok (cl_log s) \<and> cl_leader s \<in> cl_led s \<and> leader_ok (cl_node s (cl_leader s)) (tasks_of (cl_log s)) \<and>
     (\<forall>i. i \<notin> cl_led s \<longrightarrow>
        cl_applied s i \<le> length (cl_log s) \<and> follower_ok (cl_node s i) (tasks_of (take (cl_applied s i) (cl_log s))))"

lemma task_ok_index: "task_ok t \<Longrightarrow> task_index t = TaskID_Index (task_tid t)"
  by (simp add: task_ok_def task_index_def)

lemma those_tasks:
  assumes "encodes pb" "\<forall>t \<in> set ts. task_ok t"
  shows "\<exists>T. those (map (task_kv pb) ts) = Some T"
  using assms(2)
proof (induction ts)
  case (Cons t ts)
  obtain b where "marshal_task pb t = Some b" using encodesD(2) [OF assms(1)] by blast
  with Cons show ?case by (auto simp: task_kv_def task_ok_def)
qed simp

lemma log_ok_sub:
  assumes "log_ok (xs @ ys @ zs)"
  shows "log_ok ys"
  using assms by (auto simp: log_ok_def parts_append sorted_wrt_append)

lemma node_same_seq:
  assumes "leader_ok n ts" "sv_idx n' = sv_idx n" "fsm_ok (sv_fsm n')" "fsm_handle (sv_fsm n') = fsm_handle (sv_fsm n)" "seq_of (store_of n') = seq_of (store_of n)"
  shows "leader_ok n' ts"
proof -
  have ok: "index_ok (sv_idx n, sv_db n)" using assms(1) by (simp add: leader_ok_def node_ok_def)
  have d: "db_ok (sv_db n')" "db_faults (sv_db n') = []" using assms(3) by (simp_all add: fsm_ok_def tw_ok_def sv_db_def)
  have "db_lookup (sv_db n') (getSeqKey q) = db_lookup (sv_db n) (getSeqKey q)" for q using fun_cong [OF assms(5), of q] by (simp add: sv_db_def)
  note c = index_ok_cong [OF ok d this]
  from assms(1) c show ?thesis by (simp add: leader_ok_def node_ok_def assms(2-4))
qed

lemma take_over:
  assumes "follower_ok n ts" "queue_sorted ts"
  shows "leader_ok (set_role True n) ts"
proof -
  let ?d = "sv_db n"
  have f: "fsm_ok (sv_fsm n)" "sv_idx n = NewIndexStore" "\<And>q. db_lookup ?d (getSeqKey q) = seq_entry q ts"
    using assms(1) by (simp_all add: follower_ok_def sv_db_def fun_eq_iff)
  have e: "seq_entry q ts = None \<or> (\<exists>v. seq_entry q ts = Some (PutUint64 v))" for q
    by (induction ts rule: rev_induct) auto
  have "db_ok ?d" "db_faults ?d = []" using f(1) by (simp_all add: fsm_ok_def tw_ok_def sv_db_def)
  then have "index_ok (NewIndexStore, ?d)" using e by (intro index_okI) (simp_all add: f(3) NewIndexStore_def)
  moreover have "unat (task_index t) \<le> index_mark (NewIndexStore, ?d) (task_queue t)" if "t \<in> set ts" for t
  proof -
    have "\<exists>v. seq_entry (task_queue t) ts = Some (PutUint64 v) \<and> task_index t \<le> v"
      using that assms(2)
    proof (induction ts rule: rev_induct)
      case (snoc u us)
      then show ?case by (cases "task_queue u = task_queue t") (auto simp: sorted_wrt_append less_imp_le)
    qed simp
    then show ?thesis
      by (auto simp: index_mark_def NewIndexStore_def stored_def f(3) be_dec_PutUint64 word_le_nat_alt)
  qed
  ultimately show ?thesis using f(1,2) by (simp add: leader_ok_def node_ok_def SetHandle_def fsm_ok_def sv_db_def)
qed

lemma push_keeps:
  assumes "leader_ok n (tasks_of log)" "log_ok log" "pushed pb n t n'"
  shows "leader_ok n' (tasks_of (log @ [Command_Task t]))" "log_ok (log @ [Command_Task t])"
proof -
  note t = assms(3) [unfolded pushed_def]
  have i: "unat (task_index t) = Suc (index_mark (sv_idx n, sv_db n) (task_queue t))"
    using t by (simp add: task_index_def)
  then have "task_ok t" using t by (auto simp: task_ok_def)
  moreover have "task_index u < task_index t" if "u \<in> set (tasks_of log)" "task_queue u = task_queue t" for u
    using assms(1) that i by (force simp: leader_ok_def word_less_nat_alt)
  ultimately show "log_ok (log @ [Command_Task t])" using assms(2) by (simp add: log_ok_def sorted_wrt_append)
  show "leader_ok n' (tasks_of (log @ [Command_Task t]))" using assms(1) t i by (auto simp: leader_ok_def le_SucI)
qed

lemma command_keeps:
  assumes "leader_ok n ts" "unmarshal_command pb b = Some c" "(\<exists>a. c = Command_Ack a) \<or> (\<exists>g. c = Command_Queue g)" "order_ok order"
  shows "leader_ok (snd (node_Apply pb order b n)) ts"
proof -
  have f: "fsm_ok (sv_fsm n)" "tw_ok (store_of n)" using assms(1) by (simp_all add: leader_ok_def node_ok_def fsm_ok_def)
  from assms(3) obtain st where st: "snd (node_Apply pb order b n) = with_store n st" "tw_ok st" "seq_of st = seq_of (store_of n)"
  proof (elim disjE exE)
    fix a assume "c = Command_Ack a"
    from node_Apply_single(2) [OF f(1) assms(2,4) this] acks_seq [OF f(2), of "[a]"] show ?thesis
      by (intro that [of "snd (tw_acknowledge [a] (store_of n))"]) simp_all
  next
    fix g assume "c = Command_Queue g"
    from node_Apply_single(3) [OF f(1) assms(2,4) this] save_seq [OF f(2), of pb g] show ?thesis
      by (intro that [of "snd (tw_save pb g (store_of n))"]) (simp, metis prod.collapse, metis prod.collapse)
  qed
  then show ?thesis using f(1) by (intro node_same_seq [OF assms(1)]) (simp_all add: fsm_ok_def)
qed

lemma replicate_keeps:
  assumes "encodes pb" "log_ok log" "follower_ok n (tasks_of (take a log))" "a \<le> length log" "batch = take k (drop a log)" "order_ok order"
  shows "\<exists>res f. ApplyBatch pb order (map (entry_of pb) batch) (sv_fsm n) = Some (res, f) \<and>
    follower_ok (n\<lparr>sv_fsm := f\<rparr>) (tasks_of (take (a + length batch) log))"
proof -
  have log: "log = take a log @ batch @ drop (a + k) log" using assms(4,5) by (metis append_take_drop_id drop_drop add.commute)
  then have b: "log_ok batch" using log_ok_sub assms(2) by metis
  then obtain T where T: "those (map (task_kv pb) (tasks_of batch)) = Some T" using those_tasks [OF assms(1)] by (auto simp: log_ok_def)
  have c: "commands pb (map (entry_of pb) batch) = Some batch" using commands_entries [OF assms(1)] b by (simp add: log_ok_def)
  have n: "fsm_ok (sv_fsm n)" "fsm_handle (sv_fsm n) = Some False" "seq_of (store_of n) = (\<lambda>q. seq_entry q (tasks_of (take a log)))"
    using assms(3) by (simp_all add: follower_ok_def)
  have "\<exists>res f. ApplyBatch pb order (map (entry_of pb) batch) (sv_fsm n) = Some (res, f) \<and> fsm_ok f \<and> fsm_handle f = fsm_handle (sv_fsm n) \<and>
      seq_of (fsm_store f) = (\<lambda>q. case seq_entry q (tasks_of batch) of None \<Rightarrow> seq_of (store_of n) q | Some b \<Rightarrow> Some b)"
    using b n(2) by (intro batch_seq [OF n(1) _ c T _ _ assms(6)]) (auto simp: log_ok_def task_ok_def)
  then obtain res f where r: "ApplyBatch pb order (map (entry_of pb) batch) (sv_fsm n) = Some (res, f)" "fsm_ok f" "fsm_handle f = fsm_handle (sv_fsm n)"
      "seq_of (fsm_store f) = (\<lambda>q. case seq_entry q (tasks_of batch) of None \<Rightarrow> seq_of (store_of n) q | Some b \<Rightarrow> Some b)"
    by blast
  have "take (a + length batch) log = take a log @ batch" using assms(4,5) by (simp add: take_add min_def)
  then have "seq_of (fsm_store f) = (\<lambda>q. seq_entry q (tasks_of (take (a + length batch) log)))"
    using r(4) fun_cong [OF n(3)] by (simp add: seq_entry_append fun_eq_iff split: option.split)
  with r assms(3) show ?thesis by (simp add: follower_ok_def)
qed

lemma flush_seq:
  assumes "fsm_ok (sv_fsm n)" "store_of n = (w, d)"
  shows "fsm_ok (sv_fsm (with_store n (handleAckFlush_tick w d)))" "seq_of (handleAckFlush_tick w d) = seq_of (store_of n)"
proof -
  have ok: "tw_ok (w, d)" using assms by (simp add: fsm_ok_def)
  have "tw_ok (handleAckFlush_tick w d) \<and> seq_of (handleAckFlush_tick w d) = seq_of (w, d)"
  proof (rule handleAckFlush_effect [OF ok], goal_cases)
    case (1 s' D)
    have "getSeqKey q \<notin> D" for q using 1(3) seq_key_not_acked unfolding tw_acked_def by blast
    with 1(1,2,5) show ?case by simp
  qed
  with assms show "fsm_ok (sv_fsm (with_store n (handleAckFlush_tick w d)))" "seq_of (handleAckFlush_tick w d) = seq_of (store_of n)"
    by (simp_all add: fsm_ok_def)
qed

lemma cl_okD:
  assumes "cl_ok s"
  shows "log_ok (cl_log s)" "cl_leader s \<in> cl_led s" "leader_ok (cl_node s (cl_leader s)) (tasks_of (cl_log s))"
    "\<And>i. i \<notin> cl_led s \<Longrightarrow> cl_applied s i \<le> length (cl_log s)"
    "\<And>i. i \<notin> cl_led s \<Longrightarrow> follower_ok (cl_node s i) (tasks_of (take (cl_applied s i) (cl_log s)))"
    "\<And>i. i \<notin> cl_led s \<Longrightarrow> i \<noteq> cl_leader s"
  using assms by (auto simp: cl_ok_def)

text \<open>A step of the leader that makes the log longer.\<close>

lemma append_keeps:
  assumes "cl_ok s" "leader_ok n (tasks_of (cl_log s @ [c]))" "log_ok (cl_log s @ [c])"
  shows "cl_ok (s\<lparr>cl_node := (cl_node s)(cl_leader s := n), cl_log := cl_log s @ [c],
      cl_applied := (cl_applied s)(cl_leader s := Suc (length (cl_log s)))\<rparr>)"
  using assms(2,3) cl_okD(2,4-6) [OF assms(1)] by (auto simp: cl_ok_def simp del: parts_append intro: le_SucI)

lemma cl_step_ok:
  assumes "encodes pb" "cl_step pb s s'" "cl_ok s"
  shows "cl_ok s'"
  using assms(2)
proof cases
  case (cl_push evicted order remote now q req t n)
  note l = cl_okD(1-3) [OF assms(3)]
  have "pushed pb (cl_node s (cl_leader s)) t n"
    using l(3) by (intro Push_pushed [OF assms(1) _ _ cl_push(2-7)]) (simp_all add: leader_ok_def)
  from push_keeps [OF l(3,1) this] show ?thesis unfolding cl_push(1) by (intro append_keeps [OF assms(3)])
next
  case (cl_command b c order)
  note l = cl_okD(1-3) [OF assms(3)]
  have t: "tasks_of (cl_log s @ [c]) = tasks_of (cl_log s)" "c \<noteq> Command_Unset" using cl_command(3) by auto
  from command_keeps [OF l(3) cl_command(2-4)] l(1) show ?thesis
    unfolding cl_command(1) using t by (intro append_keeps [OF assms(3)]) (simp_all only: log_ok_def, auto)
next
  case (cl_replicate i batch k order res f)
  have "follower_ok ((cl_node s i)\<lparr>sv_fsm := f\<rparr>) (tasks_of (take (cl_applied s i + length batch) (cl_log s)))" if "i \<notin> cl_led s"
    using replicate_keeps [OF assms(1) cl_okD(1) [OF assms(3)] cl_okD(5,4) [OF assms(3) that] cl_replicate(3,5)] cl_replicate(4) by simp
  moreover have "cl_applied s i + length batch \<le> length (cl_log s)" if "i \<notin> cl_led s"
    using cl_okD(4) [OF assms(3) that] cl_replicate(3) by simp
  ultimately show ?thesis using assms(3) cl_replicate(1,2) by (auto simp: cl_ok_def)
next
  case (cl_flush i w d)
  let ?n = "with_store (cl_node s i) (handleAckFlush_tick w d)"
  have "leader_ok ?n ts" if "leader_ok (cl_node s i) ts" for ts
    using that flush_seq [OF _ cl_flush(2)] by (intro node_same_seq [OF that]) (simp_all add: leader_ok_def node_ok_def)
  moreover have "follower_ok ?n ts" if "follower_ok (cl_node s i) ts" for ts
    using that flush_seq [OF _ cl_flush(2)] by (simp add: follower_ok_def)
  ultimately show ?thesis using assms(3) unfolding cl_flush(1) by (auto simp: cl_ok_def)
next
  case (cl_elect j)
  have "leader_ok (set_role True (cl_node s j)) (tasks_of (cl_log s))"
    using cl_okD(5) [OF assms(3) cl_elect(2)] cl_okD(1) [OF assms(3)] cl_elect(3) by (intro take_over) (simp_all add: log_ok_def)
  with assms(3) cl_okD(6) [OF assms(3)] show ?thesis unfolding cl_elect(1) by (auto simp: cl_ok_def)
qed

lemma cl_start_ok: "cl_ok (cl_start l)"
proof -
  have f: "follower_ok (set_role False new_node) []"
    by (simp add: follower_ok_def new_node_def SetHandle_def sm_New_def fsm_ok_def tw_ok_def db_ok_def db_lookup_def)
  have "leader_ok (set_role True (set_role False new_node)) []" by (rule take_over [OF f]) simp
  then have "leader_ok (set_role True new_node) []" by (simp add: SetHandle_def)
  with f show ?thesis by (simp add: cl_ok_def cl_start_def log_ok_def)
qed

lemma cl_reachable_ok:
  assumes "encodes pb" "(cl_step pb)\<^sup>*\<^sup>* (cl_start l) s"
  shows "cl_ok s"
  using assms(2)
proof (induction rule: rtranclp_induct)
  case (step s s')
  from cl_step_ok [OF assms(1) step.hyps(2) step.IH] show ?case .
qed (rule cl_start_ok)

lemma distinct_keys:
  assumes "queue_sorted ts" "\<forall>t \<in> set ts. task_ok t"
  shows "distinct (map task_key ts)"
  using assms
proof (induction ts)
  case (Cons t ts)
  have "task_key t \<noteq> task_key u" if u: "u \<in> set ts" for u
  proof
    assume "task_key t = task_key u"
    note e = task_key_eqD [OF this]
    have "task_index t = task_index u" using e(2) Cons.prems(2) u by (simp add: task_ok_index) (simp add: task_ok_def)
    moreover have "task_queue t = task_queue u" using e(1) Cons.prems(2) u by (simp add: task_ok_def)
    ultimately show False using Cons.prems(1) u by auto
  qed
  with Cons show ?case by auto
qed simp

text \<open>A run on a concrete codec: a push on node 0, a batch on node 1, which then takes over, and a push there.\<close>

lemma sample_push:
  assumes "cl_ok s" "index_mark (sv_idx (cl_node s (cl_leader s)), sv_db (cl_node s (cl_leader s))) ''q'' + 10000 < 2 ^ 64"
  obtains t s' where "cl_step wire_codec s s'" "task_queue t = ''q''" "cl_log s' = cl_log s @ [Command_Task t]" "cl_led s' = cl_led s"
    "cl_leader s' = cl_leader s" "\<And>i. i \<noteq> cl_leader s \<Longrightarrow> cl_applied s' i = cl_applied s i"
    "task_index t = word_of_nat (Suc (index_mark (sv_idx (cl_node s (cl_leader s)), sv_db (cl_node s (cl_leader s))) ''q''))"
proof -
  let ?req = "\<lparr>pr_queue = ''q'', pr_async = False, pr_metadata = [], pr_payload = [1], pr_schedule = NoSchedule\<rparr>"
  let ?now = "\<lambda>_::nat. zero_time"
  let ?remote = "\<lambda>_ _ s. (Inl ENoLeader, s)"
  have l: "qs_isLeader sample_leader" by (simp add: sample_leader_def)
  have r: "run_time_ok (getRunTime (?now 1) ?req)" by (simp add: getRunTime_def run_time_ok_def)
  have n: "node_ok (cl_node s (cl_leader s))" using cl_okD(3) [OF assms(1)] by (simp add: leader_ok_def)
  have m: "index_mark (sv_idx (cl_node s (cl_leader s)), sv_db (cl_node s (cl_leader s))) (pr_queue ?req) + 10000 < 2 ^ 64" using assms(2) by simp
  show ?thesis
  proof (rule node_push [OF sample_hyps(1) n l r sample_hyps(2) m, where evicted = "[]" and remote = ?remote], goal_cases)
    case (1 t v b n')
    have "task_index t = v" using 1(2,3) by (simp add: task_index_def)
    moreover have "v = word_of_nat (unat v)" by simp
    ultimately show ?case
      using cl_push [OF 1(1) l sample_hyps(2) _ r m] sample_hyps(3) 1(5,7)
      by (intro that [of "s\<lparr>cl_node := (cl_node s)(cl_leader s := n'), cl_log := cl_log s @ [Command_Task t],
          cl_applied := (cl_applied s)(cl_leader s := Suc (length (cl_log s)))\<rparr>" t]) simp_all
  qed
qed

lemma follower_mark:
  assumes "follower_ok n ts" "seq_entry q ts = Some (PutUint64 v)"
  shows "index_mark (sv_idx (set_role True n), sv_db (set_role True n)) q = unat v"
  using assms by (simp add: follower_ok_def index_mark_def NewIndexStore_def stored_def sv_db_def SetHandle_def fun_eq_iff)

lemma sample_failover:
  "\<exists>s t u. (cl_step wire_codec)\<^sup>*\<^sup>* (cl_start 0) s \<and> cl_leader s = 1 \<and> cl_log s = [Command_Task t, Command_Task u] \<and> task_queue t = ''q'' \<and> task_queue u = ''q''"
proof -
  have m: "index_mark (sv_idx (cl_node (cl_start 0) (cl_leader (cl_start 0))), sv_db (cl_node (cl_start 0) (cl_leader (cl_start 0)))) ''q'' = 0"
    by (simp add: cl_start_def new_node_def sv_db_def SetHandle_def sm_New_def)
  obtain t s1 where t: "cl_step wire_codec (cl_start 0) s1" "task_queue t = ''q''" "cl_log s1 = [Command_Task t]" "cl_led s1 = {0}" "cl_leader s1 = 0"
      "cl_applied s1 1 = 0" "task_index t = 1"
  proof (rule sample_push [OF cl_start_ok [of 0]], goal_cases)
    case 1
    show ?case using m by simp
  next
    case (2 t s1)
    then show ?case using m by (intro 2(1) [of s1 t]) (simp_all add: cl_start_def)
  qed
  have ok1: "cl_ok s1" by (rule cl_step_ok [OF sample_hyps(1) t(1) cl_start_ok])
  have f1: "follower_ok (cl_node s1 1) (tasks_of (take 0 (cl_log s1)))" using cl_okD(5) [OF ok1, of 1] t(4,6) by simp
  obtain res f where f: "ApplyBatch wire_codec sample_order (map (entry_of wire_codec) [Command_Task t]) (sv_fsm (cl_node s1 1)) = Some (res, f)"
    using replicate_keeps [OF sample_hyps(1) cl_okD(1) [OF ok1] f1 _ refl sample_hyps(2), of 1] t(3) by auto
  let ?s2 = "s1\<lparr>cl_node := (cl_node s1)(1 := (cl_node s1 1)\<lparr>sv_fsm := f\<rparr>), cl_applied := (cl_applied s1)(1 := cl_applied s1 1 + length [Command_Task t])\<rparr>"
  have s2: "cl_step wire_codec s1 ?s2" by (rule cl_replicate [where i = 1 and k = 1, OF _ _ f sample_hyps(2)]) (use t(3,5,6) in simp_all)
  have ok2: "cl_ok ?s2" by (rule cl_step_ok [OF sample_hyps(1) s2 ok1])
  let ?s3 = "?s2\<lparr>cl_leader := 1, cl_led := insert 1 (cl_led ?s2),
      cl_node := (cl_node ?s2)(cl_leader ?s2 := set_role False (cl_node ?s2 (cl_leader ?s2)), 1 := set_role True (cl_node ?s2 1))\<rparr>"
  have s3: "cl_step wire_codec ?s2 ?s3" by (rule cl_elect) (use t(3,4,6) in simp_all)
  have ok3: "cl_ok ?s3" by (rule cl_step_ok [OF sample_hyps(1) s3 ok2])
  have "follower_ok (cl_node ?s2 1) [t]" using cl_okD(5) [OF ok2, of 1] t(3,4,6) by simp
  then have "index_mark (sv_idx (cl_node ?s3 1), sv_db (cl_node ?s3 1)) ''q'' = 1"
    using follower_mark [of "cl_node ?s2 1" "[t]" "''q''" 1] t(2,7) by (simp add: seq_entry_def)
  then have m3: "index_mark (sv_idx (cl_node ?s3 (cl_leader ?s3)), sv_db (cl_node ?s3 (cl_leader ?s3))) ''q'' + 10000 < 2 ^ 64" by simp
  obtain u s4 where u: "cl_step wire_codec ?s3 s4" "task_queue u = ''q''" "cl_log s4 = [Command_Task t, Command_Task u]" "cl_leader s4 = 1"
    by (rule sample_push [OF ok3 m3]) (simp add: t(3))
  have "(cl_step wire_codec)\<^sup>*\<^sup>* (cl_start 0) s4"
    using t(1) s2 s3 u(1) by (meson rtranclp.rtrancl_refl rtranclp.rtrancl_into_rtrancl)
  with u t(2) show ?thesis by blast
qed

text \<open>
  A node that has led before keeps the sequences of that time (nothing empties the cache of
  \<^verbatim>\<open>IndexStore\<close> when a node loses its leadership): such a sequence does not see what the
  node saved as a follower. After index 1 of its own and task 2 of another leader, the node gives index 2
  again, whose key is that of the saved task; this is why \<^const>\<open>cl_led\<close> limits the elections above.
\<close>

lemma cached_sequence_next:
  assumes "map_of (is_cache st) q = Some s" "seq_i s \<noteq> seq_nextLease s"
  shows "\<exists>st'. IndexStore_Next evicted st d q = Some (Inr (seq_i s + 1), st', d)"
  using assms by (simp add: IndexStore_Next_def is_Get_def seq_Next_def)

theorem stale_sequence_reissues:
  "\<exists>st d1 d2 st'.
     IndexStore_Next [] NewIndexStore \<lparr>db_kv = [], db_faults = []\<rparr> ''q'' = Some (Inr 1, st, d1) \<and>
     SaveAll wire_codec d1 [fifo_sample ''q'' 2] True = Some (None, d2) \<and>
     db_lookup d2 (getFifoTaskKey ''q'' (iden_New zero_time 2)) \<noteq> None \<and>
     IndexStore_Next [] st d2 ''q'' = Some (Inr 2, st', d2)"
proof -
  let ?s = "\<lparr>seq_leaseSize = SequenceLeaseSize, seq_nextLease = SequenceLeaseSize - 1, seq_i = 1, seq_key = getSeqKey ''q''\<rparr>"
  let ?d1 = "\<lparr>db_kv = [(getSeqKey ''q'', PutUint64 (SequenceLeaseSize - 1))], db_faults = []\<rparr>"
  let ?kvs = "[(getFifoTaskKey ''q'' (iden_New zero_time 2), enc_task (fifo_sample ''q'' 2)), (getSeqKey ''q'', PutUint64 2)]"
  let ?d2 = "?d1\<lparr>db_kv := foldl kv_apply (db_kv ?d1) (bsets ?kvs)\<rparr>"
  have n: "IndexStore_Next [] NewIndexStore \<lparr>db_kv = [], db_faults = []\<rparr> ''q'' = Some (Inr 1, \<lparr>is_cache = [(''q'', ?s)]\<rparr>, ?d1)"
    by (simp add: IndexStore_Next_def is_Get_def NewIndexStore_def SettingStore_Sequence_def NewSequence_def seq_init_def seq_reserve_def
        seq_Next_def cache_put_def db_Get_def db_Set_def db_lookup_def SequenceLeaseSize_def)
  have s: "SaveAll wire_codec ?d1 [fifo_sample ''q'' 2] True = Some (None, ?d2)"
    using SaveAll_no_faults [of ?d1 wire_codec "[fifo_sample ''q'' 2]" True]
    by (simp add: save_kvs_def task_kv_fifo_sample index_map_def index_kvs_def maxIndexes_add_def maxIndexes_get_def)
  have "getFifoTaskKey ''q'' t \<noteq> getSeqKey p" for t p
    using fifo_sched_apart(3) [of "''q''" p] key_prefix(1) [of "''q''" t] by metis
  then have "db_lookup ?d2 (getFifoTaskKey ''q'' (iden_New zero_time 2)) \<noteq> None" by (simp add: db_lookup_def map_of_kv_put)
  moreover obtain st' where "IndexStore_Next [] \<lparr>is_cache = [(''q'', ?s)]\<rparr> ?d2 ''q'' = Some (Inr 2, st', ?d2)"
    using cached_sequence_next [of "\<lparr>is_cache = [(''q'', ?s)]\<rparr>" "''q''" ?s "[]" ?d2] by (auto simp: SequenceLeaseSize_def)
  ultimately show ?thesis using n s by blast
qed

section \<open>Properties\<close>



end
