(* ===== verification/Scheduling.thy ===== *)
theory Scheduling
  imports Delivery
begin

text \<open>
  Scheduled tasks on the system of theory \<open>Delivery\<close>. The lemmas relate identifiers to the times of the requests, and show that a
  feed delivers the scheduled tasks of its queue in the order of their times, each once, and that a round delivers what is due. A task
  whose time is before that of one that has been delivered is not among them: only redelivery, once the deadline is over, takes it.
\<close>

section \<open>Times and identifiers\<close>

definition run_time :: "Task \<Rightarrow> time" where
  "run_time t = AsTime (schedule_time t)"

text \<open>The order of the scheduled tasks of a queue: by time, then by index.\<close>

definition sched_before :: "Task \<Rightarrow> Task \<Rightarrow> bool" where
  "sched_before t u \<longleftrightarrow> Before (run_time t) (run_time u) \<or> run_time t = run_time u \<and> index_less t u"

text \<open>A task as a push makes it: a scheduled one has a time from 1972 to 2262, which is also that of its identifier, and an index that is not 0.\<close>

definition sched_task :: "Task \<Rightarrow> bool" where
  "sched_task t \<longleftrightarrow> \<not> is_fifo t \<longrightarrow>
     time_ok (run_time t) \<and> in_nano_range (run_time t) \<and> 0 \<le> UnixNano (run_time t) \<and>
     task_tid t = iden_New (run_time t) (TaskID_Index (task_tid t)) \<and> 0 < TaskID_Index (task_tid t)"

lemma iden_order:
  assumes "time_ok t" "time_ok u" "in_nano_range t" "in_nano_range u" "0 \<le> UnixNano t" "0 \<le> UnixNano u"
  shows "(iden_New t i < iden_New u j) = (Before t u \<or> t = u \<and> i < j)"
    "(iden_New t i \<le> iden_New u j) = (Before t u \<or> t = u \<and> i \<le> j)"
proof -
  have eq: "(t = u) = (UnixNano t = UnixNano u)" using time_Unix_UnixNano assms by metis
  note simps = iden_New_less_iff PutUint64_nonneg_less [OF assms(5,6) is_int64_UnixNano is_int64_UnixNano]
    PutUint64_nonneg_less [OF assms(6,5) is_int64_UnixNano is_int64_UnixNano] Before_UnixNano [OF assms(1-4)] eq
  show "(iden_New t i < iden_New u j) = (Before t u \<or> t = u \<and> i < j)" by (simp add: simps)
  show "(iden_New t i \<le> iden_New u j) = (Before t u \<or> t = u \<and> i \<le> j)"
    unfolding not_less [symmetric, of "iden_New t i"] not_less [symmetric, of i] simps by auto
qed

lemma id_less_sched:
  assumes "sched_task t" "sched_task u" "\<not> is_fifo t" "\<not> is_fifo u"
  shows "id_less t u = sched_before t u"
proof -
  note tu = assms(1) [unfolded sched_task_def, rule_format, OF assms(3)] assms(2) [unfolded sched_task_def, rule_format, OF assms(4)]
  have "id_less t u = (iden_New (run_time t) (TaskID_Index (task_tid t)) < iden_New (run_time u) (TaskID_Index (task_tid u)))"
    using tu by (simp add: id_less_def)
  also have "\<dots> = sched_before t u" using tu by (subst iden_order(1)) (simp_all add: sched_before_def index_less_def)
  finally show ?thesis .
qed

lemma sched_task_id:
  assumes "sched_task t" "\<not> is_fifo t"
  shows "iden_Min < task_tid t"
    "time_ok now \<Longrightarrow> in_nano_range now \<Longrightarrow> 0 \<le> UnixNano now \<Longrightarrow> (task_tid t \<le> iden_New now 0) = Before (run_time t) now"
proof -
  let ?i = "TaskID_Index (task_tid t)"
  have t: "time_ok (run_time t)" "in_nano_range (run_time t)" "0 \<le> UnixNano (run_time t)" "task_tid t = iden_New (run_time t) ?i" "0 < ?i"
    using assms by (simp_all add: sched_task_def)
  have z: "time_ok (time_Unix 0 0)" "in_nano_range (time_Unix 0 0)" "UnixNano (time_Unix 0 0) = 0" by (simp_all add: go_time_eval)
  have "(0 < UnixNano (run_time t)) \<or> time_Unix 0 0 = run_time t"
    using t(3) time_Unix_UnixNano [OF t(1,2)] by (cases "UnixNano (run_time t) = 0") auto
  then show "iden_Min < task_tid t"
    using iden_order(1) [of "time_Unix 0 0" "run_time t" 0 ?i] Before_UnixNano [of "time_Unix 0 0" "run_time t"] t z
    by (auto simp: iden_Min_def)
  show "(task_tid t \<le> iden_New now 0) = Before (run_time t) now" if "time_ok now" "in_nano_range now" "0 \<le> UnixNano now"
    using iden_order(2) [of "run_time t" now ?i 0] t that by auto
qed

lemma Push_sched_task:
  assumes "Push pb (node_ID evicted) (node_Apply pb order) remote now q req n = Some (Inr \<lparr>ps_task = Some t, ps_forwarded_to = []\<rparr>, n')"
    "qs_isLeader q" "run_time_ok (getRunTime (now 1) req)" "TaskID_Index (task_tid t) \<noteq> 0"
  shows "sched_task t"
    "schedule_time t = (if getRunTime (now 1) req = zero_time then None else Some (timestamppb_New (getRunTime (now 1) req)))"
proof -
  let ?ts = "getRunTime (now 1) req"
  obtain v n1 where v: "node_ID evicted (pr_queue req) ?ts n = Some (Inr (iden_New ?ts v), n1)"
    using assms(1,2)
    by (auto simp: Push_def createTask_def makeTask_def node_ID_def IDGenerator_ID_def Let_def split: option.splits sum.splits prod.splits)
  obtain t' where t': "makeTask (node_ID evicted) now req n = Some (Inr t', n1)" "MustParseString (task_id t') = Some (iden_New ?ts v)"
    "schedule_time t' = (if ?ts = zero_time then None else Some (timestamppb_New ?ts))"
    using makeTask_valid [of "node_ID evicted" req ?ts n v n1 now, OF v refl assms(3)] by auto
  have "t' = t" using assms(1,2) t'(1) by (auto simp: Push_def createTask_def split: prod.splits if_splits)
  with t' have t: "task_tid t = iden_New ?ts v" "schedule_time t = (if ?ts = zero_time then None else Some (timestamppb_New ?ts))"
    by (simp_all add: task_tid_def)
  show "schedule_time t = (if ?ts = zero_time then None else Some (timestamppb_New ?ts))" by (rule t(2))
  show "sched_task t"
    unfolding sched_task_def
  proof
    assume "\<not> is_fifo t"
    with t(2) have z: "?ts \<noteq> zero_time" "schedule_time t = Some (timestamppb_New ?ts)" by (simp_all split: if_splits)
    with assms(3) have ts: "time_ok ?ts" "in_nano_range ?ts" "2 ^ 56 \<le> UnixNano ?ts" by (simp_all add: run_time_ok_def)
    have "run_time t = ?ts" unfolding run_time_def z(2) by (rule AsTime_timestamppb_New [OF ts(1)])
    then show "time_ok (run_time t) \<and> in_nano_range (run_time t) \<and> 0 \<le> UnixNano (run_time t) \<and>
        task_tid t = iden_New (run_time t) (TaskID_Index (task_tid t)) \<and> 0 < TaskID_Index (task_tid t)"
      using ts t(1) assms(4) by (simp add: word_gt_0)
  qed
qed

section \<open>The invariant\<close>

text \<open>The scheduled tasks that a feed has delivered are in order, and the last one is the checkpoint.\<close>

definition sched_tasks :: "Feed \<Rightarrow> Task list" where
  "sched_tasks f = filter (\<lambda>t. \<not> is_fifo t) (fd_feed f)"

definition sched_ok :: "Task list \<Rightarrow> Feed \<Rightarrow> bool" where
  "sched_ok sent f \<longleftrightarrow>
     (\<forall>t \<in> set sent. sched_task t) \<and> (\<forall>t \<in> set (sched_tasks f). t \<in> set sent \<and> task_queue t = feed_queue f) \<and>
     sorted_wrt id_less (sched_tasks f) \<and>
     (\<exists>st. ss_S (fd_settings f) = Some st \<and>
        last_delivered_scheduled_task st = (if sched_tasks f = [] then TaskID_String iden_Min else task_id (last (sched_tasks f))))"

lemma sched_ok_cong:
  assumes "sent' = sent" "fd_feed f' = fd_feed f" "ss_S (fd_settings f') = ss_S (fd_settings f)"
  shows "sched_ok sent' f' = sched_ok sent f"
proof -
  have "sched_tasks f' = sched_tasks f" using assms(2) by (simp add: sched_tasks_def)
  with assms(1,3) show ?thesis by (simp add: sched_ok_def)
qed

lemma sorted_last_less:
  assumes "sorted_wrt id_less ts" "ts \<noteq> []"
  shows "(\<forall>u \<in> set ts. id_less u t) \<longleftrightarrow> id_less (last ts) t"
proof -
  have "ts = butlast ts @ [last ts]" using assms(2) by simp
  then have "\<forall>u \<in> set (butlast ts). id_less u (last ts)" using assms(1) by (metis sorted_wrt_append list.set_intros(1))
  moreover have "set ts = insert (last ts) (set (butlast ts))" using assms(2) by (metis append_butlast_last_id set_append list.simps(15) Un_insert_right empty_set sup_bot.right_neutral)
  ultimately show ?thesis by (auto simp: id_less_def)
qed

lemma sched_in_range:
  assumes ok: "sent_ok pb n sent" "sched_ok sent f" and st: "ss_S (fd_settings f) = Some st" and t: "t \<in> set sent"
  obtains r where "schedUndelivered_Query now st = Some r"
    "in_range r t \<longleftrightarrow> task_queue t = qc_id st \<and> \<not> is_fifo t \<and> (\<forall>u \<in> set (sched_tasks f). id_less u t) \<and> task_tid t \<le> iden_New now 0"
proof -
  let ?D = "sched_tasks f"
  have D: "\<forall>u \<in> set ?D. u \<in> set sent" "sorted_wrt id_less ?D" "sched_task t"
    "last_delivered_scheduled_task st = (if ?D = [] then TaskID_String iden_Min else task_id (last ?D))"
    using ok(2) st t by (auto simp: sched_ok_def)
  have tok: "TaskID_ok (task_tid t)" using checkpoint_okE [OF sent_okD(6) [OF ok(1) t]] by blast
  define l where "l = (if ?D = [] then iden_Min else task_tid (last ?D))"
  have l: "MustParseString (last_delivered_scheduled_task st) = Some l" "TaskID_ok l" "TaskID_Index l \<noteq> - 1"
  proof -
    have "MustParseString (task_id u) = Some (task_tid u) \<and> TaskID_ok (task_tid u) \<and> TaskID_Index (task_tid u) \<noteq> - 1" if "u \<in> set ?D" for u
      using checkpoint_okE [OF sent_okD(6) [OF ok(1)]] D(1) that by metis
    then show "MustParseString (last_delivered_scheduled_task st) = Some l" "TaskID_ok l" "TaskID_Index l \<noteq> - 1"
      using D(4) last_in_set [of ?D] by (auto simp: l_def iden_Min_def MustParse_Min [unfolded iden_Min_def])
  qed
  have "l < task_tid t \<longleftrightarrow> (\<forall>u \<in> set ?D. id_less u t)" if "\<not> is_fifo t"
  proof (cases "?D = []")
    case True
    with sched_task_id(1) [OF D(3) that] show ?thesis by (simp add: l_def)
  next
    case False
    with sorted_last_less [OF D(2) False, of t] show ?thesis by (simp add: l_def id_less_def)
  qed
  with next_id_le [OF l(2) tok l(3)] show ?thesis
    by (intro that [of "ScheduledRange (qc_id st) (iden_New (MustTime l) (TaskID_Index l + 1)) (iden_New now 0)"])
      (auto simp: schedUndelivered_Query_def l(1))
qed

text \<open>What is pending for the reader of scheduled tasks.\<close>

lemma sched_pending:
  assumes ok: "sent_ok pb n sent" "sched_ok sent f" and st: "ss_S (fd_settings f) = Some st"
  shows "t \<in> pending schedUndelivered_Query now st pb (sv_db n) \<longleftrightarrow>
    t \<in> stored_tasks pb (sv_db n) \<and> task_queue t = feed_queue f \<and> \<not> is_fifo t \<and>
    (\<forall>u \<in> set (sched_tasks f). id_less u t) \<and> task_tid t \<le> iden_New now 0"
proof (cases "t \<in> stored_tasks pb (sv_db n)")
  case True
  with sent_okD(8) [OF ok(1)] have "t \<in> set sent" by blast
  from sched_in_range [OF ok st this, of now] obtain r where "schedUndelivered_Query now st = Some r"
    "in_range r t \<longleftrightarrow> task_queue t = qc_id st \<and> \<not> is_fifo t \<and> (\<forall>u \<in> set (sched_tasks f). id_less u t) \<and> task_tid t \<le> iden_New now 0" .
  with True st show ?thesis by (simp add: pending_def)
qed (simp add: pending_def)

lemma sched_round:
  assumes ok: "sent_ok pb n sent" "feed_ok pb n sent f k" "sched_ok sent f"
  obtains c f' ts where "pullAndPush pb now (sv_db n) f = Some (c, None, f')" "sched_tasks f' = sched_tasks f @ ts" "sched_ok sent f'"
    "\<And>st. fd_ctx f = None \<Longrightarrow> ss_S (fd_settings f) = Some st \<Longrightarrow> set ts = pending schedUndelivered_Query (now SchedUndelivered 0) st pb (sv_db n)"
proof -
  note s = sent_okD [OF ok(1)]
  obtain st where st: "ss_S (fd_settings f) = Some st" "settings_ok pb n sent (feed_queue f) k st" using ok(2) unfolding feed_ok_def by blast
  then have st_ok: "plain_queue (qc_id st)" "fifo_settings_ok st" "sched_settings_ok st" by (auto simp: settings_ok_def fifo_settings_ok_def)
  have stored: "\<forall>t \<in> stored_tasks pb (sv_db n). plain_queue (task_queue t) \<and> checkpoint_ok t" using s(4,6,8) by blast
  show ?thesis
  proof (rule pullAndPush_round [OF node_dbD(1) [OF s(1)] s(3) stored st_ok st(1), of now], goal_cases)
    case (1 fs ss xs ys f')
    have sub: "set xs \<subseteq> pending fifoUndelivered_Query (now FifoUndelivered 0) st pb (sv_db n)"
      "set ys \<subseteq> pending schedUndelivered_Query (now SchedUndelivered 0) st pb (sv_db n)"
      unfolding 1(1,3) [symmetric] 1(5,6) by (rule set_allowed_subset)+
    have fifo: "filter (\<lambda>t. \<not> is_fifo t) xs = []" "filter (\<lambda>t. \<not> is_fifo t) ys = ys"
      unfolding filter_empty_conv filter_id_conv by (auto dest!: subsetD [OF sub(1)] subsetD [OF sub(2)] dest: pending_kind)
    have ts: "sched_tasks f' = sched_tasks f @ ys" unfolding sched_tasks_def 1(8) filter_append fifo by simp
    have y: "t \<in> set sent \<and> task_queue t = feed_queue f \<and> (\<forall>u \<in> set (sched_tasks f). id_less u t)" if "t \<in> set ys" for t
    proof -
      have "t \<in> pending schedUndelivered_Query (now SchedUndelivered 0) st pb (sv_db n)" using that sub(2) by (rule subsetD [rotated])
      with subsetD [OF s(8)] show ?thesis unfolding sched_pending [OF ok(1,3) st(1)] by simp
    qed
    have "sorted_wrt id_less ys" unfolding 1(6) by (subst allowed_take) (rule sorted_wrt_take [OF 1(4)])
    moreover have "feed_queue f' = feed_queue f" using st(1) by (simp add: 1(9) foldl_checkpointers)
    moreover have "\<exists>st'. ss_S (fd_settings f') = Some st' \<and>
        last_delivered_scheduled_task st' = (if sched_tasks f' = [] then TaskID_String iden_Min else task_id (last (sched_tasks f')))"
      using ok(3) st(1) unfolding 1(9) ts by (auto simp: foldl_checkpointers sched_ok_def)
    moreover have "\<forall>t \<in> set (sched_tasks f'). t \<in> set sent \<and> task_queue t = feed_queue f"
      using ok(3) y unfolding ts sched_ok_def set_append by blast
    ultimately have "sched_ok sent f'" using ok(3) y unfolding sched_ok_def ts sorted_wrt_append by simp
    moreover have "ys = ss" if "fd_ctx f = None" using that 1(6) by (simp add: allowed_def ctx_after_def)
    ultimately show ?case using 1(3,7) ts st(1) by (intro that [of _ f' ys]) auto
  qed
qed

lemma sched_step:
  assumes "encodes pb" "sys_step pb s s'" "sent_ok pb (sy_node s) (sy_sent s)" "feed_ok pb (sy_node s) (sy_sent s) (sy_feed s) k"
    "sched_ok (sy_sent s) (sy_feed s)"
  shows "sched_ok (sy_sent s') (sy_feed s')"
  using assms(2)
proof cases
  case (sys_push evicted order remote now q req t n)
  have "pushed pb (sy_node s) t n"
    by (rule Push_pushed [OF assms(1) sent_okD(1,2) [OF assms(3)] sys_push(2-7)])
  then have "TaskID_Index (task_tid t) \<noteq> 0" by (auto simp: pushed_def)
  from Push_sched_task(1) [OF sys_push(2,3,6) this] assms(5) sys_push(1) show ?thesis by (auto simp: sched_ok_def)
next
  case (sys_round now c e f)
  show ?thesis
  proof (rule sched_round [OF assms(3-5), of now], goal_cases)
    case (1 c' f' ts)
    with sys_round show ?case by simp
  qed
next
  case (sys_save order ss n)
  obtain st where "ss_S (fd_settings (sy_feed s)) = Some st" using assms(5) by (auto simp: sched_ok_def)
  then have "ss_S ss = ss_S (fd_settings (sy_feed s))"
    using sys_save(2) by (auto simp: startSync_tick_def trySave_def Let_def split: if_splits prod.splits option.splits)
  then have "sched_ok (sy_sent s') (sy_feed s') = sched_ok (sy_sent s) (sy_feed s)" unfolding sys_save(1) by (intro sched_ok_cong) simp_all
  with assms(5) show ?thesis by simp
next
  case (sys_cancel j)
  have "sched_ok (sy_sent s') (sy_feed s') = sched_ok (sy_sent s) (sy_feed s)" unfolding sys_cancel by (intro sched_ok_cong) simp_all
  with assms(5) show ?thesis by simp
qed (use assms(5) in simp_all)

lemma sched_reachable:
  assumes "encodes pb" "order_ok order" "plain_queue q" "sys_start pb order q = Some s0" "(sys_step pb)\<^sup>*\<^sup>* s0 s"
  shows "sched_ok (sy_sent s) (sy_feed s)"
  using assms(5)
proof (induction rule: rtranclp_induct)
  case base
  show ?case
  proof (rule start_ok [OF assms(1-3)], goal_cases)
    case (1 s)
    then have "s = s0" using assms(4) by simp
    with 1(2,8,9) show ?case by (simp add: sched_ok_def sched_tasks_def default_settings_def)
  qed
next
  case (step s s')
  obtain k where k: "sent_ok pb (sy_node s) (sy_sent s)" "feed_ok pb (sy_node s) (sy_sent s) (sy_feed s) k"
    using reachable_ok [OF assms(1-4) step.hyps(1)] by blast
  show ?case by (rule sched_step [OF assms(1) step.hyps(2) k step.IH])
qed

lemma sorted_sched_before:
  assumes "sched_ok sent f"
  shows "sorted_wrt sched_before (sched_tasks f)"
proof -
  have t: "sched_task t \<and> \<not> is_fifo t" if "t \<in> set (sched_tasks f)" for t
    using assms that by (auto simp: sched_ok_def sched_tasks_def)
  have "sorted_wrt id_less (sched_tasks f)" using assms by (simp add: sched_ok_def)
  then show ?thesis by (rule sorted_wrt_mono_rel [rotated]) (use t id_less_sched in blast)
qed

text \<open>A run on a concrete codec: a push with a time.\<close>

lemma sample_sched_push:
  "\<exists>s0 s t. sys_start wire_codec sample_order ''q'' = Some s0 \<and> sys_step wire_codec s0 s \<and> sy_sent s = [t] \<and> task_queue t = ''q'' \<and>
     schedule_time t \<noteq> None \<and> run_time t = time_Unix 1700000000 0 \<and> stored_tasks wire_codec (sv_db (sy_node s)) = {t} \<and>
     fd_feed (sy_feed s) = [] \<and> fd_ctx (sy_feed s) = None"
proof (rule start_ok [OF sample_hyps], goal_cases)
  case (1 s0)
  let ?ts = "time_Unix 1700000000 0"
  let ?req = "\<lparr>pr_queue = ''q'', pr_async = False, pr_metadata = [], pr_payload = [1], pr_schedule = ScheduleTime (timestamppb_New ?ts)\<rparr>"
  let ?now = "\<lambda>_::nat. zero_time"
  let ?remote = "\<lambda>_ _ s. (Inl ENoLeader, s)"
  have l: "qs_isLeader sample_leader" by (simp add: sample_leader_def)
  have ts: "time_ok ?ts" "run_time_ok ?ts" "?ts \<noteq> zero_time" by (simp_all add: go_time_eval run_time_ok_def zero_time_def)
  have g: "getRunTime (?now 1) ?req = ?ts" using AsTime_timestamppb_New [OF ts(1)] by (simp add: getRunTime_def)
  have r: "run_time_ok (getRunTime (?now 1) ?req)" using ts(2) by (simp only: g)
  have m: "index_mark (sv_idx (sy_node s0), sv_db (sy_node s0)) (pr_queue ?req) + 10000 < 2 ^ 64" using 1(7) by simp
  have plain: "plain_queue (pr_queue ?req)" using sample_hyps(3) by simp
  obtain t n where t: "Push wire_codec (node_ID []) (node_Apply wire_codec sample_order) ?remote ?now sample_leader ?req (sy_node s0)
      = Some (Inr \<lparr>ps_task = Some t, ps_forwarded_to = []\<rparr>, n)" "task_queue t = ''q''"
    by (rule node_push [OF sample_hyps(1) sent_okD(1) [OF 1(5)] l r sample_hyps(2) m, where evicted = "[]" and remote = ?remote]) simp
  have p: "pushed wire_codec (sy_node s0) t n"
    by (rule Push_pushed [OF sample_hyps(1) sent_okD(1,2) [OF 1(5)] t(1) l sample_hyps(2) plain r m])
  then have "TaskID_Index (task_tid t) \<noteq> 0" by (auto simp: pushed_def)
  from Push_sched_task(2) [OF t(1) l r this] have st: "schedule_time t = Some (timestamppb_New ?ts)" unfolding g using ts(3) by simp
  then have "run_time t = ?ts" using AsTime_timestamppb_New [OF ts(1)] by (simp add: run_time_def)
  moreover have "stored_tasks wire_codec (sv_db n) = {t}" using pushed_stored(2) [OF 1(5) p] sent_okD(8) [OF 1(5)] by simp
  moreover note sys_push [OF t(1) l sample_hyps(2) plain r m]
  ultimately show ?case
    using 1(1,2,4,8) st t(2) by (intro exI [of _ s0] exI [of _ "s0\<lparr>sy_node := n, sy_sent := sy_sent s0 @ [t]\<rparr>"] exI [of _ t]) simp
qed

section \<open>Properties\<close>



end
