(* ===== verification/Lifecycle.thy ===== *)
theory Lifecycle
  imports Node
begin

text \<open>
  Starting and stopping a node: the raft peer (\<^verbatim>\<open>src/server/cluster/peer.go\<close>), the server (\<^verbatim>\<open>src/server/server.go\<close>), the client of
  pebble (\<^verbatim>\<open>src/storage/client.go\<close>) and the main function (\<^verbatim>\<open>src/cmd/server/main.go\<close>). The outcome of every call of the operating system
  and of the libraries is an argument; the state of the world is the list of what is open, and
  raft. The lemmas say what is released, and when the shutdown itself fails.
\<close>

section \<open>The world\<close>

datatype resource =
    PebbleDB string
  | Listener string
  | BoltStore string
  | TCPTransport string
  | RaftNode
  | LeaderConn string

record 'r World =
  wo_open :: "resource list"
  wo_raft :: 'r

definition acquire :: "resource \<Rightarrow> 'r World \<Rightarrow> 'r World" where
  "acquire x w = w\<lparr>wo_open := x # wo_open w\<rparr>"

text \<open>Closing: what fails to close stays open.\<close>

definition release :: "error option \<Rightarrow> resource \<Rightarrow> 'r World \<Rightarrow> error option \<times> 'r World" where
  "release r x w = (r, if r = None then w\<lparr>wo_open := remove1 x (wo_open w)\<rparr> else w)"

definition ErrNotExist :: error where
  "ErrNotExist = EMsg ''file does not exist''"

text \<open>\<^verbatim>\<open>multierr.Combine\<close>: the errors that are not nil; the result is nil if there are none.\<close>

definition multierr_Combine :: "error option list \<Rightarrow> error list" where
  "multierr_Combine errs = map the (filter (\<lambda>e. e \<noteq> None) errs)"

record 'r Outcomes =
  oc_Stat :: "string \<Rightarrow> error option"
  oc_Mkdir :: "string \<Rightarrow> error option"
  oc_raftboltdb :: "string \<Rightarrow> error option"
  oc_FileSnapshotStore :: "string \<Rightarrow> error option"
  oc_ResolveTCPAddr :: "string \<Rightarrow> error option"
  oc_NewTCPTransport :: "string \<Rightarrow> error option"
  oc_NewRaft :: "error option"
  oc_Bootstrap :: "raft_server list \<Rightarrow> 'r \<Rightarrow> error option \<times> 'r"
  oc_GetConfiguration :: "'r \<Rightarrow> error + raft_server list"
  oc_Leader :: "'r \<Rightarrow> string"
  oc_Listen :: "string \<Rightarrow> error option"
  oc_Dial :: "string \<Rightarrow> error option"
  oc_HangUp :: "string \<Rightarrow> error option"
  oc_Shutdown :: "error option"
  oc_CloseTransport :: "error option"
  oc_CloseBolt :: "error option"
  oc_OpenPebble :: "string \<Rightarrow> error option"
  oc_ClosePebble :: "error option"
  oc_Error :: "error \<Rightarrow> string"
  oc_Quote :: "string \<Rightarrow> string"

section \<open>The client of pebble\<close>

record PebbleClient =
  cl_dir :: string
  cl_DB :: db

text \<open>\<open>disk\<close> is what the directory holds.\<close>

definition NewPebbleClient :: "'r Outcomes \<Rightarrow> (string \<Rightarrow> db) \<Rightarrow> string \<Rightarrow> 'r World \<Rightarrow> (error + PebbleClient) \<times> 'r World" where
  "NewPebbleClient oc disk dataDir w =
     (case oc_OpenPebble oc dataDir of
        Some err \<Rightarrow> (Inl (EWrap ''could not open pebble database'' err), w)
      | None \<Rightarrow> (Inr \<lparr>cl_dir = dataDir, cl_DB = disk dataDir\<rparr>, acquire (PebbleDB dataDir) w))"

definition PebbleClient_Close :: "'r Outcomes \<Rightarrow> PebbleClient \<Rightarrow> 'r World \<Rightarrow> error list \<times> 'r World" where
  "PebbleClient_Close oc bc w =
     (case release (oc_ClosePebble oc) (PebbleDB (cl_dir bc)) w of (e, w') \<Rightarrow> (multierr_Combine [e], w'))"

section \<open>The raft peer\<close>

record PeerConfig =
  pc_ID :: string
  pc_Port :: int
  pc_AdvertiseAddr :: string
  pc_DataDir :: string
  pc_LogBatchSize :: int
  pc_BootstrapCluster :: bool
  pc_DB :: "PebbleClient option"
  pc_Writer :: "taskWriter option"
  pc_SQLPort :: int
  pc_QueuePort :: int

record Peer =
  pe_Raft :: bool
  pe_config :: PeerConfig
  pe_logStore :: "nat option"
  pe_snapshots :: bool
  pe_transport :: "string option"
  pe_fsm :: "StateMachine option"
  pe_db :: "string option"

text \<open>\<^verbatim>\<open>initStorage\<close>. An error of \<^verbatim>\<open>os.Stat\<close> other than a missing folder is passed over. The error of the snapshot store is formatted, not wrapped.\<close>

definition initStorage :: "'r Outcomes \<Rightarrow> Peer \<Rightarrow> 'r World \<Rightarrow> error option \<times> Peer \<times> 'r World" where
  "initStorage oc p w =
     (let dir = pc_DataDir (pe_config p);
          path = dir @ ''/bolt.db'';
          mkdir = (case oc_Stat oc dir of
                     None \<Rightarrow> None
                   | Some err \<Rightarrow> if errors_is err ErrNotExist then oc_Mkdir oc dir else None)
      in case mkdir of
           Some err \<Rightarrow> (Some (EWrap ''failed to create peer storage folder'' err), p, w)
         | None \<Rightarrow>
             (case oc_raftboltdb oc path of
                Some err \<Rightarrow> (Some (EWrap ''failed to init raft db'' err), p\<lparr>pe_db := None\<rparr>, w)
              | None \<Rightarrow>
                  (let p' = p\<lparr>pe_db := Some path, pe_logStore := Some 100000\<rparr>;
                       w' = acquire (BoltStore path) w
                   in case oc_FileSnapshotStore oc dir of
                        Some err \<Rightarrow> (Some (EMsg (''raft.NewFileSnapshotStore('' @ oc_Quote oc dir @ '', ...): '' @ oc_Error oc err)), p', w')
                      | None \<Rightarrow> (None, p'\<lparr>pe_snapshots := True\<rparr>, w'))))"

text \<open>
  The configuration of raft, as far as \<^verbatim>\<open>ValidateConfig\<close> of the library looks at it, and the values of its \<^verbatim>\<open>DefaultConfig\<close>;
  durations in milliseconds.
\<close>

record raft_Config =
  rc_LocalID :: string
  rc_BatchApplyCh :: bool
  rc_MaxAppendEntries :: int
  rc_NoSnapshotRestoreOnStart :: bool
  rc_SnapshotInterval :: int
  rc_HeartbeatTimeout :: int
  rc_ElectionTimeout :: int
  rc_CommitTimeout :: int
  rc_LeaderLeaseTimeout :: int

definition raft_DefaultConfig :: raft_Config where
  "raft_DefaultConfig = \<lparr>rc_LocalID = [], rc_BatchApplyCh = False, rc_MaxAppendEntries = 64, rc_NoSnapshotRestoreOnStart = False,
     rc_SnapshotInterval = 120000, rc_HeartbeatTimeout = 1000, rc_ElectionTimeout = 1000, rc_CommitTimeout = 50,
     rc_LeaderLeaseTimeout = 500\<rparr>"

definition raft_ValidateConfig :: "raft_Config \<Rightarrow> error option" where
  "raft_ValidateConfig c =
     (if rc_LocalID c = [] then Some (EMsg ''LocalID cannot be empty'')
      else if rc_HeartbeatTimeout c < 5 then Some (EMsg ''HeartbeatTimeout is too low'')
      else if rc_ElectionTimeout c < 5 then Some (EMsg ''ElectionTimeout is too low'')
      else if rc_CommitTimeout c < 1 then Some (EMsg ''CommitTimeout is too low'')
      else if rc_MaxAppendEntries c \<le> 0 then Some (EMsg ''MaxAppendEntries must be positive'')
      else if rc_MaxAppendEntries c > 1024 then Some (EMsg ''MaxAppendEntries is too large'')
      else if rc_SnapshotInterval c < 5 then Some (EMsg ''SnapshotInterval is too low'')
      else if rc_LeaderLeaseTimeout c < 5 then Some (EMsg ''LeaderLeaseTimeout is too low'')
      else if rc_LeaderLeaseTimeout c > rc_HeartbeatTimeout c
      then Some (EMsg ''LeaderLeaseTimeout cannot be larger than heartbeat timeout'')
      else if rc_ElectionTimeout c < rc_HeartbeatTimeout c
      then Some (EMsg ''ElectionTimeout must be equal or greater than Heartbeat Timeout'')
      else None)"

definition peer_raft_config :: "PeerConfig \<Rightarrow> raft_Config" where
  "peer_raft_config cfg = raft_DefaultConfig\<lparr>rc_LocalID := pc_ID cfg, rc_BatchApplyCh := True,
     rc_MaxAppendEntries := pc_LogBatchSize cfg, rc_NoSnapshotRestoreOnStart := True, rc_SnapshotInterval := 30000\<rparr>"

text \<open>
  \<^verbatim>\<open>joinNetwork\<close>. The state machine is made of the writer and the database of the configuration, which \<^verbatim>\<open>Start\<close> has set: without a database
  the code dereferences nil.
\<close>

definition joinNetwork :: "'r Outcomes \<Rightarrow> Peer \<Rightarrow> 'r World \<Rightarrow> (error option \<times> Peer \<times> 'r World) option" where
  "joinNetwork oc p w =
     (let cfg = pe_config p; bindAddr = ''0.0.0.0:'' @ itoa (pc_Port cfg)
      in case raft_ValidateConfig (peer_raft_config cfg) of
           Some err \<Rightarrow> Some (Some (EWrap ''invalid raft config'' err), p, w)
         | None \<Rightarrow>
             (case oc_ResolveTCPAddr oc (pc_AdvertiseAddr cfg) of
                Some err \<Rightarrow> Some (Some (EWrap (''failed to parse avertise address: '' @ pc_AdvertiseAddr cfg) err), p, w)
              | None \<Rightarrow>
                  (case oc_NewTCPTransport oc bindAddr of
                     Some err \<Rightarrow> Some (Some (EWrap ''could not create transport for raft peer'' err), p\<lparr>pe_transport := None\<rparr>, w)
                   | None \<Rightarrow>
                       (let w' = acquire (TCPTransport bindAddr) w
                        in case (pc_DB cfg, pc_Writer cfg) of
                             (Some client, Some tw) \<Rightarrow>
                               (let p' = p\<lparr>pe_transport := Some bindAddr, pe_fsm := Some (sm_New tw (cl_DB client))\<rparr>
                                in case oc_NewRaft oc of
                                     Some err \<Rightarrow> Some (Some (EMsg (''raft.NewRaft: '' @ oc_Error oc err)), p', w')
                                   | None \<Rightarrow> Some (None, p'\<lparr>pe_Raft := True\<rparr>, acquire RaftNode w'))
                           | _ \<Rightarrow> None))))"

text \<open>\<^verbatim>\<open>tryBootstrap\<close>: the error is logged.\<close>

definition tryBootstrap :: "'r Outcomes \<Rightarrow> Peer \<Rightarrow> 'r World \<Rightarrow> 'r World" where
  "tryBootstrap oc p w =
     (if \<not> pc_BootstrapCluster (pe_config p) then w
      else w\<lparr>wo_raft := snd (oc_Bootstrap oc [\<lparr>srv_ID = pc_ID (pe_config p), srv_Address = pc_AdvertiseAddr (pe_config p)\<rparr>] (wo_raft w))\<rparr>)"

definition NewPeer :: "'r Outcomes \<Rightarrow> PeerConfig \<Rightarrow> 'r World \<Rightarrow> ((error + Peer) \<times> 'r World) option" where
  "NewPeer oc config w =
     (case initStorage oc \<lparr>pe_Raft = False, pe_config = config, pe_logStore = None, pe_snapshots = False, pe_transport = None,
             pe_fsm = None, pe_db = None\<rparr> w of
        (Some err, p, w') \<Rightarrow> Some (Inl (EWrap ''failed to load raft storage'' err), w')
      | (None, p, w') \<Rightarrow>
          (case joinNetwork oc p w' of
             None \<Rightarrow> None
           | Some (Some err, p', w'') \<Rightarrow> Some (Inl (EWrap ''failed to join raft network'' err), w'')
           | Some (None, p', w'') \<Rightarrow> Some (Inr p', tryBootstrap oc p' w'')))"

text \<open>\<open>handle\<close> as in the state machine: whether the node is the leader.\<close>

definition LoadHandle :: "bool \<Rightarrow> Peer \<Rightarrow> Peer" where
  "LoadHandle handle p = p\<lparr>pe_fsm := map_option (SetHandle (Some handle)) (pe_fsm p)\<rparr>"

text \<open>\<^verbatim>\<open>Close\<close>: the arguments of \<^verbatim>\<open>Combine\<close> are evaluated in order; each panics on a nil pointer.\<close>

definition Peer_Close :: "'r Outcomes \<Rightarrow> Peer \<Rightarrow> 'r World \<Rightarrow> (error list \<times> 'r World) option" where
  "Peer_Close oc p w =
     (case (pe_Raft p, pe_transport p, pe_db p) of
        (True, Some addr, Some path) \<Rightarrow>
          (case release (oc_Shutdown oc) RaftNode w of
             (e1, w1) \<Rightarrow>
               (case release (oc_CloseTransport oc) (TCPTransport addr) w1 of
                  (e2, w2) \<Rightarrow>
                    (case release (oc_CloseBolt oc) (BoltStore path) w2 of
                       (e3, w3) \<Rightarrow> Some (multierr_Combine [e1, e2, e3], w3))))
      | _ \<Rightarrow> None)"

section \<open>The server\<close>

record ServerConfig =
  sc_DB :: PebbleClient
  sc_GRPCPort :: int
  sc_MetricsPort :: int
  sc_PeerConfig :: PeerConfig

text \<open>The fields are nil until \<^verbatim>\<open>Start\<close> sets them. Of the gRPC server the listeners that it serves and the services are kept.\<close>

record grpc_Server =
  gs_listeners :: "string list"
  gs_admin :: Admin
  gs_queue :: QueueServer

record 'r server =
  sr_fm :: "'r Manager option"
  sr_config :: ServerConfig
  sr_server :: "grpc_Server option"
  sr_peer :: "Peer option"
  sr_idx :: "IndexStore option"

definition NewServer :: "ServerConfig \<Rightarrow> 'r server" where
  "NewServer config = \<lparr>sr_fm = None, sr_config = config, sr_server = None, sr_peer = None, sr_idx = None\<rparr>"

definition NewAdmin :: "PeerConfig \<Rightarrow> bool \<Rightarrow> string \<Rightarrow> LeaderHandle \<Rightarrow> Admin" where
  "NewAdmin cfg isLeader leader handle =
     \<lparr>ad_isLeader = isLeader, ad_leaderAddress = leader, ad_handle = handle, ad_serverID = pc_ID cfg, ad_advertiseAddr = pc_AdvertiseAddr cfg,
       ad_sqlPort = to_int32 (pc_SQLPort cfg), ad_queuePort = to_int32 (pc_QueuePort cfg)\<rparr>"

definition NewQueue :: "bool \<Rightarrow> string \<Rightarrow> LeaderHandle \<Rightarrow> QueueServer" where
  "NewQueue isLeader leader handle = \<lparr>qs_isLeader = isLeader, qs_leaderAddress = leader, qs_handle = handle\<rparr>"

text \<open>
  \<^verbatim>\<open>Start\<close> up to the call of \<^verbatim>\<open>Serve\<close>, which does not return while the server runs: the result is the error that it returns before, or
  none if it serves. The server of the metrics is left out.
\<close>

definition Server_Start :: "'r Outcomes \<Rightarrow> 'r server \<Rightarrow> 'r World \<Rightarrow> (error option \<times> 'r server \<times> 'r World) option" where
  "Server_Start oc s w =
     (let port = sc_GRPCPort (sr_config s); addr = ''0.0.0.0:'' @ itoa port
      in case oc_Listen oc addr of
           Some err \<Rightarrow> Some (Some err, s, w)
         | None \<Rightarrow>
             (let w1 = acquire (Listener addr) w;
                  d = cl_DB (sc_DB (sr_config s));
                  cfg = (sc_PeerConfig (sr_config s))\<lparr>pc_Writer := Some NewTaskWriter, pc_DB := Some (sc_DB (sr_config s))\<rparr>;
                  s1 = s\<lparr>sr_config := (sr_config s)\<lparr>sc_PeerConfig := cfg\<rparr>\<rparr>
              in case NewPeer oc cfg w1 of
                   None \<Rightarrow> None
                 | Some (Inl err, w2) \<Rightarrow> Some (Some (EWrap ''failed to start raft server'' err), s1\<lparr>sr_peer := None\<rparr>, w2)
                 | Some (Inr peer, w2) \<Rightarrow>
                     (let s2 = s1\<lparr>sr_peer := Some peer, sr_fm := Some (NewManager d (wo_raft w2))\<rparr>;
                          leader = oc_Leader oc (wo_raft w2);
                          tracker = NewTracker (oc_GetConfiguration oc (wo_raft w2)) leader (pc_ID cfg)
                      in case NewHandle (oc_Dial oc) (oc_HangUp oc) leader port tracker of
                           Inl err \<Rightarrow> Some (Some (EWrap ''failed to obtain leader handle'' err), s2, w2)
                         | Inr (tracker', handle) \<Rightarrow>
                             (let isLeader = lt_isLeader tracker';
                                  w3 = (case ha_conn handle of None \<Rightarrow> w2 | Some target \<Rightarrow> acquire (LeaderConn target) w2)
                              in Some (None, s2\<lparr>sr_peer := Some (LoadHandle isLeader peer), sr_idx := Some NewIndexStore,
                                   sr_server := Some \<lparr>gs_listeners = [addr], gs_admin = NewAdmin cfg isLeader leader handle,
                                     gs_queue = NewQueue isLeader leader handle\<rparr>\<rparr>, w3)))))"

text \<open>
  \<^verbatim>\<open>Close\<close>. \<^verbatim>\<open>Stop\<close> closes the listeners of the gRPC server, and panics if there is no server, as do the methods of the other fields.
  \<open>d\<close> is the database, and \<open>order\<close> the order in which the manager visits its map.
\<close>

definition grpc_Stop :: "grpc_Server \<Rightarrow> 'r World \<Rightarrow> 'r World" where
  "grpc_Stop g w = foldl (\<lambda>w addr. snd (release None (Listener addr) w)) w (gs_listeners g)"

definition Server_Stop ::
  "'r Outcomes \<Rightarrow> codec \<Rightarrow> string list \<Rightarrow> 'r server \<Rightarrow> db \<Rightarrow> 'r World \<Rightarrow> (error list \<times> db \<times> 'r World) option" where
  "Server_Stop oc pb order s d w =
     (case sr_server s of
        None \<Rightarrow> None
      | Some g \<Rightarrow>
          (case sr_peer s of
             None \<Rightarrow> None
           | Some peer \<Rightarrow>
               (case Peer_Close oc peer (grpc_Stop g w) of
                  None \<Rightarrow> None
                | Some (errs, w') \<Rightarrow>
                    (case (sr_fm s, pc_Writer (sc_PeerConfig (sr_config s)), sr_idx s) of
                       (Some fm, Some tw, Some idx) \<Rightarrow>
                         (case Server_Close pb None order fm tw idx d of
                            (errs', _, _, _, d') \<Rightarrow> Some (errs @ multierr_Combine errs', d', w'))
                     | _ \<Rightarrow> None))))"

section \<open>The main function\<close>

record Config =
  cf_DataDir :: string
  cf_SQLPort :: int
  cf_BootstrapCluster :: bool
  cf_DebugLoggingEnabled :: bool
  cf_ServicePort :: int
  cf_PeerPort :: int
  cf_PeerID :: string
  cf_PeerAdvertiseAddr :: string
  cf_MetricsPort :: int

definition server_config :: "Config \<Rightarrow> PebbleClient \<Rightarrow> ServerConfig" where
  "server_config config client =
     \<lparr>sc_DB = client, sc_GRPCPort = cf_ServicePort config, sc_MetricsPort = cf_MetricsPort config,
       sc_PeerConfig = \<lparr>pc_ID = cf_PeerID config, pc_Port = cf_PeerPort config, pc_AdvertiseAddr = cf_PeerAdvertiseAddr config,
         pc_DataDir = cf_DataDir config @ ''/cluster'', pc_LogBatchSize = 1000, pc_BootstrapCluster = cf_BootstrapCluster config,
         pc_DB = None, pc_Writer = None, pc_SQLPort = cf_SQLPort config, pc_QueuePort = cf_ServicePort config\<rparr>\<rparr>"

text \<open>
  How the process ends: \<open>Fatal\<close> is \<^verbatim>\<open>log.Fatalf\<close>, and \<open>Finished\<close> has the errors of closing the server and the database, which are logged.
  The listener of the SQL front end, which runs beside, is left out. The signal that ends the server comes from outside once it serves, or from \<^verbatim>\<open>main\<close> when \<^verbatim>\<open>Start\<close> has returned an error;
  \<open>run\<close> is what the server does to the feeds, the indexes and the database until then; the leader is taken not to change.
\<close>

type_synonym 'r running = "'r Manager \<Rightarrow> IndexStore \<Rightarrow> db \<Rightarrow> 'r Manager \<times> IndexStore \<times> db"

definition serve :: "'r running \<Rightarrow> 'r server \<Rightarrow> db \<Rightarrow> 'r server \<times> db" where
  "serve run s d =
     (case (sr_fm s, sr_idx s) of
        (Some fm, Some idx) \<Rightarrow> (case run fm idx d of (fm', idx', d') \<Rightarrow> (s\<lparr>sr_fm := Some fm', sr_idx := Some idx'\<rparr>, d'))
      | _ \<Rightarrow> (s, d))"

datatype exit = Fatal error | Panicked | Finished "error list" "error list"

definition main_server ::
  "'r Outcomes \<Rightarrow> codec \<Rightarrow> string list \<Rightarrow> (string \<Rightarrow> db) \<Rightarrow> 'r running \<Rightarrow> Config \<Rightarrow> 'r World \<Rightarrow> exit \<times> 'r World" where
  "main_server oc pb order disk run config w =
     (case NewPebbleClient oc disk (cf_DataDir config @ ''/tasks'') w of
        (Inl err, w') \<Rightarrow> (Fatal err, w')
      | (Inr client, w') \<Rightarrow>
          (case Server_Start oc (NewServer (server_config config client)) w' of
             None \<Rightarrow> (Panicked, w')
           | Some (e, s, w1) \<Rightarrow>
               (let (s', d) = (case e of None \<Rightarrow> serve run s (cl_DB client) | Some _ \<Rightarrow> (s, cl_DB client))
                in case Server_Stop oc pb order s' d w1 of
                     None \<Rightarrow> (Panicked, w1)
                   | Some (errs, _, w2) \<Rightarrow>
                       (case PebbleClient_Close oc client w2 of (errs', w3) \<Rightarrow> (Finished errs errs', w3)))))"

section \<open>What starting and stopping leave\<close>

lemma acquire_simps [simp]: "wo_open (acquire x w) = x # wo_open w" "wo_raft (acquire x w) = wo_raft w"
  by (simp_all add: acquire_def)

lemma release_None [simp]: "release None x w = (None, w\<lparr>wo_open := remove1 x (wo_open w)\<rparr>)"
  by (simp add: release_def)

lemma multierr_Combine_None [simp]: "multierr_Combine [] = []" "multierr_Combine (None # es) = multierr_Combine es"
  by (simp_all add: multierr_Combine_def)

lemma tryBootstrap_open [simp]: "wo_open (tryBootstrap oc p w) = wo_open w"
  by (simp add: tryBootstrap_def)

text \<open>What the main function configures is valid for raft exactly if the peer has an identifier.\<close>

lemma server_config_valid:
  "raft_ValidateConfig (peer_raft_config (sc_PeerConfig (server_config config client))) = None \<longleftrightarrow> cf_PeerID config \<noteq> []"
  by (simp add: raft_ValidateConfig_def peer_raft_config_def raft_DefaultConfig_def server_config_def)

lemma initStorage_cases:
  obtains err p' where "initStorage oc p w = (Some err, p', w)"
  | err p' path where "initStorage oc p w = (Some err, p', acquire (BoltStore path) w)"
  | p' path where "initStorage oc p w = (None, p', acquire (BoltStore path) w)" "pe_db p' = Some path" "pe_config p' = pe_config p"
proof -
  let ?dir = "pc_DataDir (pe_config p)"
  let ?path = "?dir @ ''/bolt.db''"
  let ?p = "p\<lparr>pe_db := Some ?path, pe_logStore := Some 100000\<rparr>"
  define mkdir where "mkdir = (case oc_Stat oc ?dir of None \<Rightarrow> None
    | Some err \<Rightarrow> if errors_is err ErrNotExist then oc_Mkdir oc ?dir else None)"
  note d = initStorage_def Let_def mkdir_def [symmetric]
  consider err where "mkdir = Some err" | err where "mkdir = None" "oc_raftboltdb oc ?path = Some err"
    | err where "mkdir = None" "oc_raftboltdb oc ?path = None" "oc_FileSnapshotStore oc ?dir = Some err"
    | "mkdir = None" "oc_raftboltdb oc ?path = None" "oc_FileSnapshotStore oc ?dir = None"
    by (metis not_None_eq)
  then show ?thesis
  proof cases
    case 1
    then show ?thesis by (intro that(1)) (simp add: d)
  next
    case 2
    then show ?thesis by (intro that(1)) (simp add: d)
  next
    case 3
    then show ?thesis by (intro that(2) [of _ ?p ?path]) (simp add: d)
  next
    case 4
    then show ?thesis by (intro that(3) [of "?p\<lparr>pe_snapshots := True\<rparr>" ?path]) (simp_all add: d)
  qed
qed

lemma joinNetwork_cases:
  assumes "pc_DB (pe_config p) = Some client" "pc_Writer (pe_config p) = Some tw"
  obtains err p' where "joinNetwork oc p w = Some (Some err, p', w)"
  | err p' addr where "joinNetwork oc p w = Some (Some err, p', acquire (TCPTransport addr) w)"
  | p' addr where "joinNetwork oc p w = Some (None, p', acquire RaftNode (acquire (TCPTransport addr) w))" "pe_Raft p'"
    "pe_transport p' = Some addr" "pe_db p' = pe_db p" "pe_config p' = pe_config p" "pe_fsm p' = Some (sm_New tw (cl_DB client))"
proof -
  let ?addr = "''0.0.0.0:'' @ itoa (pc_Port (pe_config p))"
  consider err where "raft_ValidateConfig (peer_raft_config (pe_config p)) = Some err"
    | err where "raft_ValidateConfig (peer_raft_config (pe_config p)) = None" "oc_ResolveTCPAddr oc (pc_AdvertiseAddr (pe_config p)) = Some err"
    | err where "raft_ValidateConfig (peer_raft_config (pe_config p)) = None" "oc_ResolveTCPAddr oc (pc_AdvertiseAddr (pe_config p)) = None"
      "oc_NewTCPTransport oc ?addr = Some err"
    | "raft_ValidateConfig (peer_raft_config (pe_config p)) = None" "oc_ResolveTCPAddr oc (pc_AdvertiseAddr (pe_config p)) = None"
      "oc_NewTCPTransport oc ?addr = None"
    by (metis not_None_eq)
  then show ?thesis
  proof cases
    case 1
    then show ?thesis by (intro that(1)) (simp add: joinNetwork_def Let_def)
  next
    case 2
    then show ?thesis by (intro that(1)) (simp add: joinNetwork_def Let_def)
  next
    case 3
    then show ?thesis by (intro that(1)) (simp add: joinNetwork_def Let_def)
  next
    case 4
    let ?p = "p\<lparr>pe_transport := Some ?addr, pe_fsm := Some (sm_New tw (cl_DB client))\<rparr>"
    show ?thesis
    proof (cases "oc_NewRaft oc")
      case None
      with 4 assms show ?thesis by (intro that(3) [of "?p\<lparr>pe_Raft := True\<rparr>" ?addr]) (simp_all add: joinNetwork_def Let_def)
    next
      case (Some err)
      with 4 assms show ?thesis by (intro that(2) [of _ ?p ?addr]) (simp add: joinNetwork_def Let_def)
    qed
  qed
qed

lemma NewPeer_cases:
  assumes "pc_DB config = Some client" "pc_Writer config = Some tw"
  obtains err w' rs where "NewPeer oc config w = Some (Inl err, w')" "wo_open w' = rs @ wo_open w"
  | p w' path addr where "NewPeer oc config w = Some (Inr p, w')" "pe_Raft p" "pe_transport p = Some addr" "pe_db p = Some path"
    "pe_fsm p = Some (sm_New tw (cl_DB client))" "wo_open w' = [RaftNode, TCPTransport addr, BoltStore path] @ wo_open w"
proof -
  let ?p = "\<lparr>pe_Raft = False, pe_config = config, pe_logStore = None, pe_snapshots = False, pe_transport = None, pe_fsm = None, pe_db = None\<rparr>"
  show ?thesis
  proof (cases rule: initStorage_cases [of oc ?p w])
    case (1 err p')
    then show ?thesis by (intro that(1) [of _ w "[]"]) (simp_all add: NewPeer_def)
  next
    case (2 err p' path)
    then show ?thesis by (intro that(1) [of _ "acquire (BoltStore path) w" "[BoltStore path]"]) (simp_all add: NewPeer_def)
  next
    case (3 p path)
    with assms have "pc_DB (pe_config p) = Some client" "pc_Writer (pe_config p) = Some tw" by simp_all
    then show ?thesis
    proof (cases rule: joinNetwork_cases [of p client tw oc "acquire (BoltStore path) w"])
      case (1 err p')
      with 3 show ?thesis by (intro that(1) [of _ "acquire (BoltStore path) w" "[BoltStore path]"]) (simp_all add: NewPeer_def)
    next
      case (2 err p' addr)
      with 3 show ?thesis
        by (intro that(1) [of _ "acquire (TCPTransport addr) (acquire (BoltStore path) w)" "[TCPTransport addr, BoltStore path]"])
          (simp_all add: NewPeer_def)
    next
      case j: (3 p' addr)
      with 3 show ?thesis
        by (intro that(2) [of p' "tryBootstrap oc p' (acquire RaftNode (acquire (TCPTransport addr) (acquire (BoltStore path) w)))" addr path])
          (simp_all add: NewPeer_def)
    qed
  qed
qed

lemma Server_Start_cases:
  obtains (failed) err s w' rs where "Server_Start oc (NewServer config) w = Some (Some err, s, w')" "sr_server s = None"
    "wo_open w' = rs @ wo_open w"
  | (serving) s g peer addr path isLeader conn w' where "Server_Start oc (NewServer config) w = Some (None, s, w')" "sr_server s = Some g"
    "sr_peer s = Some peer" "gs_listeners g = [''0.0.0.0:'' @ itoa (sc_GRPCPort config)]" "pe_Raft peer" "pe_transport peer = Some addr"
    "pe_db peer = Some path" "pe_fsm peer = Some (SetHandle (Some isLeader) (sm_New NewTaskWriter (cl_DB (sc_DB config))))"
    "sr_fm s \<noteq> None" "sr_idx s = Some NewIndexStore" "pc_Writer (sc_PeerConfig (sr_config s)) \<noteq> None"
    "wo_open w' = (case conn of None \<Rightarrow> [] | Some target \<Rightarrow> [LeaderConn target]) @ [RaftNode, TCPTransport addr, BoltStore path]
       @ Listener (''0.0.0.0:'' @ itoa (sc_GRPCPort config)) # wo_open w"
proof -
  let ?l = "''0.0.0.0:'' @ itoa (sc_GRPCPort config)"
  let ?cfg = "(sc_PeerConfig config)\<lparr>pc_Writer := Some NewTaskWriter, pc_DB := Some (sc_DB config)\<rparr>"
  let ?w1 = "acquire (Listener ?l) w"
  show ?thesis
  proof (cases "oc_Listen oc ?l")
    case (Some err)
    then show ?thesis by (intro failed [of err "NewServer config" w "[]"]) (simp_all add: Server_Start_def NewServer_def)
  next
    case l: None
    have cfg: "pc_DB ?cfg = Some (sc_DB config)" "pc_Writer ?cfg = Some NewTaskWriter" by simp_all
    show ?thesis
    proof (cases rule: NewPeer_cases [OF cfg, of oc ?w1])
      case (1 err w' rs)
      with l show ?thesis
        by (intro failed [of "EWrap ''failed to start raft server'' err" _ w' "rs @ [Listener ?l]"])
          (simp add: Server_Start_def NewServer_def Let_def, simp_all)
    next
      case (2 p w' path addr)
      let ?leader = "oc_Leader oc (wo_raft w')"
      let ?tracker = "NewTracker (oc_GetConfiguration oc (wo_raft w')) ?leader (pc_ID ?cfg)"
      show ?thesis
      proof (cases "NewHandle (oc_Dial oc) (oc_HangUp oc) ?leader (sc_GRPCPort config) ?tracker")
        case (Inl err)
        with l 2 show ?thesis
          by (intro failed [of "EWrap ''failed to obtain leader handle'' err" _ w' "[RaftNode, TCPTransport addr, BoltStore path, Listener ?l]"])
            (simp add: Server_Start_def NewServer_def Let_def, simp_all)
      next
        case (Inr th)
        obtain t h where th: "th = (t, h)" by force
        from l 2 Inr th show ?thesis
          by (intro serving [where peer = "LoadHandle (lt_isLeader t) p" and isLeader = "lt_isLeader t" and conn = "ha_conn h" and addr = addr and path = path])
            (simp add: Server_Start_def NewServer_def Let_def, simp, simp, simp_all add: LoadHandle_def split: option.split)
      qed
    qed
  qed
qed

lemma Server_Stop_releases:
  assumes "sr_server s = Some g" "sr_peer s = Some peer" "gs_listeners g = [l]" "pe_Raft peer" "pe_transport peer = Some addr" "pe_db peer = Some path"
    "sr_fm s \<noteq> None" "sr_idx s \<noteq> None" "pc_Writer (sc_PeerConfig (sr_config s)) \<noteq> None"
    and "oc_Shutdown oc = None" "oc_CloseTransport oc = None" "oc_CloseBolt oc = None"
  shows "\<exists>errs d'. Server_Stop oc pb order s d w = Some (errs, d',
    w\<lparr>wo_open := remove1 (BoltStore path) (remove1 (TCPTransport addr) (remove1 RaftNode (remove1 (Listener l) (wo_open w))))\<rparr>)"
  using assms by (auto simp: Server_Stop_def Peer_Close_def grpc_Stop_def split: prod.splits)

lemma index_close_frame:
  assumes "index_ok (idx, d)" "IndexStore_Close idx d = (r, idx', d')" "k \<notin> range getSeqKey"
  shows "db_lookup d' k = db_lookup d k"
proof -
  have "db_lookup (foldl (\<lambda>d e. is_release (snd e) d) d c) k = db_lookup d k"
    if "db_ok d" "db_faults d = []" "\<forall>e \<in> set c. k \<noteq> seq_key (snd e)" for c d
    using that
  proof (induction c arbitrary: d)
    case (Cons e c)
    from seq_Close_ok [OF Cons.prems(1,2), of "snd e"] Cons.prems(3) Cons.IH show ?case by (fastforce simp: is_release_def)
  qed simp
  moreover have "\<forall>e \<in> set (is_cache idx). k \<noteq> seq_key (snd e)"
  proof
    fix e assume "e \<in> set (is_cache idx)"
    then have "map_of (is_cache idx) (fst e) = Some (snd e)" using index_okD(3) [OF assms(1)] by simp
    from index_okD(5) [OF assms(1) this] assms(3) show "k \<noteq> seq_key (snd e)" by auto
  qed
  ultimately show ?thesis using index_okD(1,2) [OF assms(1)] assms(2) by (auto simp: IndexStore_Close_def)
qed

text \<open>An environment in which every call succeeds, for the examples.\<close>

definition sample_outcomes :: "unit Outcomes" where
  "sample_outcomes = \<lparr>oc_Stat = (\<lambda>_. Some ErrNotExist), oc_Mkdir = (\<lambda>_. None), oc_raftboltdb = (\<lambda>_. None), oc_FileSnapshotStore = (\<lambda>_. None),
     oc_ResolveTCPAddr = (\<lambda>_. None), oc_NewTCPTransport = (\<lambda>_. None), oc_NewRaft = None, oc_Bootstrap = (\<lambda>_ r. (None, r)),
     oc_GetConfiguration = (\<lambda>_. Inr []), oc_Leader = (\<lambda>_. []), oc_Listen = (\<lambda>_. None), oc_Dial = (\<lambda>_. None), oc_HangUp = (\<lambda>_. None),
     oc_Shutdown = None, oc_CloseTransport = None, oc_CloseBolt = None, oc_OpenPebble = (\<lambda>_. None), oc_ClosePebble = None,
     oc_Error = (\<lambda>_. []), oc_Quote = id\<rparr>"

definition sample_config :: Config where
  "sample_config = \<lparr>cf_DataDir = ''d'', cf_SQLPort = 3306, cf_BootstrapCluster = True, cf_DebugLoggingEnabled = False, cf_ServicePort = 6355, cf_PeerPort = 6356,
     cf_PeerID = ''1'', cf_PeerAdvertiseAddr = ''127.0.0.1:6356'', cf_MetricsPort = 2112\<rparr>"

abbreviation sample_client :: PebbleClient where
  "sample_client \<equiv> \<lparr>cl_dir = ''d/tasks'', cl_DB = \<lparr>db_kv = [], db_faults = []\<rparr>\<rparr>"

abbreviation sample_server :: "unit server" where
  "sample_server \<equiv> NewServer (server_config sample_config sample_client)"

lemma sample_start:
  "\<exists>s w'. Server_Start sample_outcomes sample_server w = Some (None, s, w') \<and> sr_idx s = Some NewIndexStore \<and>
     (\<exists>errs d' w2. Server_Stop sample_outcomes pb [] s \<lparr>db_kv = [], db_faults = []\<rparr> w' = Some (errs, d', w2) \<and> d' = \<lparr>db_kv = [], db_faults = []\<rparr>)"
  by (simp add: Server_Start_def Server_Stop_def Server_Close_def NewServer_def NewPeer_def initStorage_def joinNetwork_def raft_ValidateConfig_def
      peer_raft_config_def raft_DefaultConfig_def server_config_def sample_config_def sample_outcomes_def NewHandle_def resetConn_def
      ErrNotExist_def Peer_Close_def LoadHandle_def IndexStore_Close_def NewIndexStore_def tw_Close_def Let_def tryBootstrap_def
      split: prod.splits)

section \<open>Properties\<close>





end
