(* ===== verification/Client_Api.thy ===== *)
theory Client_Api
  imports Client
begin

text \<open>
  The entry points of the client library (\<^verbatim>\<open>src/pkg/z4/client.go\<close>), the stream of the consumer, the futures of the streaming producer
  with their channels, and the command line tool \<^verbatim>\<open>src/cmd/z4t/main.go\<close>, which drives the administration service and
  a consumer. The network is an argument, as in theory \<open>Client\<close>.
\<close>

section \<open>The client\<close>

record Client =
  zc_pool :: connectionPool

definition NewClient ::
  "(string \<Rightarrow> error option) \<Rightarrow> (string \<Rightarrow> 'n \<Rightarrow> (error + ClusterInfo) \<times> 'n) \<Rightarrow> nat \<Rightarrow> string list \<Rightarrow> 'n \<Rightarrow>
     ((error + Client) \<times> 'n) option" where
  "NewClient dial info attempts addrs n =
     (case newConnectionPool dial info attempts addrs n of
        None \<Rightarrow> None
      | Some (Inl err, n') \<Rightarrow> Some (Inl err, n')
      | Some (Inr pool, n') \<Rightarrow> Some (Inr \<lparr>zc_pool = pool\<rparr>, n'))"

definition GetLeader :: "connectionPool \<Rightarrow> string option" where
  "GetLeader p = cp_conn p"

definition Client_Close :: "(string \<Rightarrow> error option) \<Rightarrow> Client \<Rightarrow> error option" where
  "Client_Close hang_up c = (case GetLeader (zc_pool c) of None \<Rightarrow> None | Some leader \<Rightarrow> hang_up leader)"

definition Client_UnaryProducer :: "Client \<Rightarrow> UnaryProducer" where
  "Client_UnaryProducer c = \<lparr>up_client = GetLeader (zc_pool c), up_locked = False\<rparr>"

text \<open>\<open>open_stream\<close> is the outcome of opening a stream on a connection.\<close>

definition Client_StreamingProducer :: "(string option \<Rightarrow> error option) \<Rightarrow> Client \<Rightarrow> error + StreamingProducer" where
  "Client_StreamingProducer open_stream c =
     (case open_stream (GetLeader (zc_pool c)) of Some err \<Rightarrow> Inl err | None \<Rightarrow> Inr newStreamingProducer)"

section \<open>The stream of a consumer\<close>

text \<open>
  A stream is given by the connection and the queue that goes in the metadata of the call. \<open>pull\<close> is the outcome of the call; the stream is
  replaced only if there is no error.
\<close>

record consumer_stream =
  cs_queue :: string
  cs_stream :: "(string option \<times> string) option"

definition startStream :: "(string option \<Rightarrow> string \<Rightarrow> error option) \<Rightarrow> string option \<Rightarrow> consumer_stream \<Rightarrow> error option \<times> consumer_stream" where
  "startStream pull conn c =
     (case pull conn (cs_queue c) of
        None \<Rightarrow> (None, c\<lparr>cs_stream := Some (conn, cs_queue c)\<rparr>)
      | Some err \<Rightarrow> (Some err, c))"

definition consumer_reconnect ::
  "(string option \<Rightarrow> string \<Rightarrow> error option) \<Rightarrow> (string \<Rightarrow> error option) \<Rightarrow> (string \<Rightarrow> 'n \<Rightarrow> (error + ClusterInfo) \<times> 'n) \<Rightarrow> nat \<Rightarrow> nat \<Rightarrow>
     consumer_stream \<Rightarrow> connectionPool \<Rightarrow> 'n \<Rightarrow> (error option \<times> consumer_stream \<times> connectionPool \<times> 'n) option" where
  "consumer_reconnect pull dial info attempts seen c pool n =
     (case ResetConn dial info attempts seen pool n of
        None \<Rightarrow> None
      | Some (Inl err, pool', n') \<Rightarrow> Some (Some err, c, pool', n')
      | Some (Inr conn, pool', n') \<Rightarrow> (case startStream pull conn c of (e, c') \<Rightarrow> Some (e, c', pool', n')))"

section \<open>Futures\<close>

text \<open>The channel of a future has room for one error; receiving from it when it is closed and empty yields nil.\<close>

record TaskFuture =
  tf_task :: "Task option"
  tf_err :: "error option"
  tf_errC :: "error option option"
  tf_closed :: bool

definition newTaskFuture :: TaskFuture where
  "newTaskFuture = \<lparr>tf_task = None, tf_err = None, tf_errC = None, tf_closed = False\<rparr>"

text \<open>Sending on a closed channel panics, sending on a full one waits: both are \<open>None\<close>.\<close>

definition TaskFuture_set :: "Task option \<Rightarrow> error option \<Rightarrow> TaskFuture \<Rightarrow> TaskFuture option" where
  "TaskFuture_set task err f =
     (if tf_closed f \<or> tf_errC f \<noteq> None then None
      else Some (f\<lparr>tf_task := task, tf_errC := Some err, tf_closed := True\<rparr>))"

definition TaskFuture_Error :: "TaskFuture \<Rightarrow> (error option \<times> TaskFuture) option" where
  "TaskFuture_Error f =
     (if tf_err f \<noteq> None then Some (tf_err f, f)
      else case tf_errC f of
             Some err \<Rightarrow> Some (err, f\<lparr>tf_errC := None, tf_err := err\<rparr>)
           | None \<Rightarrow> if tf_closed f then Some (None, f\<lparr>tf_err := None\<rparr>) else None)"

text \<open>A future holds a result if it is set: what the producer of theory \<open>Client\<close> keeps in \<open>sp_result\<close>.\<close>

definition future_holds :: "error + Task \<Rightarrow> TaskFuture \<Rightarrow> bool" where
  "future_holds r f \<longleftrightarrow> tf_closed f \<and>
     (case r of
        Inl e \<Rightarrow> tf_task f = None \<and> (tf_errC f = Some (Some e) \<and> tf_err f = None \<or> tf_errC f = None \<and> tf_err f = Some e)
      | Inr t \<Rightarrow> tf_task f = Some t \<and> tf_err f = None \<and> (tf_errC f = Some None \<or> tf_errC f = None))"

text \<open>Whoever asks, and however often, gets the result of the future, and it can be set only once.\<close>

lemma future_reads:
  "TaskFuture_set (case r of Inl e \<Rightarrow> None | Inr t \<Rightarrow> Some t) (case r of Inl e \<Rightarrow> Some e | Inr t \<Rightarrow> None) newTaskFuture = Some f \<Longrightarrow> future_holds r f"
  "future_holds r f \<Longrightarrow> \<exists>f'. TaskFuture_Error f = Some (case r of Inl e \<Rightarrow> Some e | Inr t \<Rightarrow> None, f') \<and> future_holds r f'"
  "future_holds r f \<Longrightarrow> tf_task f = (case r of Inl e \<Rightarrow> None | Inr t \<Rightarrow> Some t)"
  "future_holds r f \<Longrightarrow> TaskFuture_set t e f = None"
  "TaskFuture_Error newTaskFuture = None"
  by (auto simp: TaskFuture_set_def TaskFuture_Error_def future_holds_def newTaskFuture_def split: sum.splits if_splits)

section \<open>The command line tool\<close>

text \<open>
  The flags and arguments; the calls of the administration service; what is printed, or the error of a panic. \<open>w\<close> is what the
  calls change.
\<close>

record Flags =
  fl_t :: string
  fl_p :: string
  fl_id :: string
  fl_q :: string
  fl_args :: "string list"

record 'w AdminStub =
  ac_AddClusterMember :: "string \<Rightarrow> string \<Rightarrow> 'w \<Rightarrow> (error + unit) \<times> 'w"
  ac_RemoveClusterMember :: "string \<Rightarrow> 'w \<Rightarrow> (error + unit) \<times> 'w"
  ac_GetClusterInfo :: "'w \<Rightarrow> (error + ClusterInfo) \<times> 'w"

datatype z4t_result = Printed "string list" | Panic "error list"

definition z4t_addPeer :: "'w AdminStub \<Rightarrow> string \<Rightarrow> string \<Rightarrow> 'w \<Rightarrow> z4t_result \<times> 'w" where
  "z4t_addPeer client addr peerID w =
     (case ac_AddClusterMember client peerID addr w of
        (Inl err, w') \<Rightarrow> (Panic [err], w')
      | (Inr _, w') \<Rightarrow> (Printed [''peer added''], w'))"

definition z4t_removePeer :: "'w AdminStub \<Rightarrow> string \<Rightarrow> 'w \<Rightarrow> z4t_result \<times> 'w" where
  "z4t_removePeer client peerID w =
     (case ac_RemoveClusterMember client peerID w of
        (Inl err, w') \<Rightarrow> (Panic [err], w')
      | (Inr _, w') \<Rightarrow> (Printed [''peer removed''], w'))"

definition z4t_info :: "(ClusterInfo \<Rightarrow> error + string) \<Rightarrow> 'w AdminStub \<Rightarrow> 'w \<Rightarrow> z4t_result \<times> 'w" where
  "z4t_info MarshalIndent client w =
     (case ac_GetClusterInfo client w of
        (Inl err, w') \<Rightarrow> (Panic [err], w')
      | (Inr i, w') \<Rightarrow> (case MarshalIndent i of Inl err \<Rightarrow> Panic [err] | Inr out \<Rightarrow> Printed [out], w'))"

text \<open>
  The function that the consumer calls: it prints the task and, when it returns, acknowledges it. An error of the encoder is printed first.
  The state has what is printed and the acknowledgements, in order.
\<close>

definition print_and_ack ::
  "(Task \<Rightarrow> error + string) \<Rightarrow> (error \<Rightarrow> string) \<Rightarrow> string list \<times> Ack list \<Rightarrow> Task \<Rightarrow> error option \<times> string list \<times> Ack list" where
  "print_and_ack MarshalIndent Error s task =
     (None, fst s @ (case MarshalIndent task of Inl err \<Rightarrow> [Error err, []] | Inr out \<Rightarrow> [out]), snd s @ [Message_Ack task])"

text \<open>\<open>es\<close> is what the consumer finds, until its loop ends. The result is \<open>None\<close> while the loop waits, or if the client never finds a leader.\<close>

definition z4t_consume ::
  "(string \<Rightarrow> error option) \<Rightarrow> (string \<Rightarrow> 'n \<Rightarrow> (error + ClusterInfo) \<times> 'n) \<Rightarrow> nat \<Rightarrow> (string option \<Rightarrow> string \<Rightarrow> error option) \<Rightarrow>
     (Task \<Rightarrow> error + string) \<Rightarrow> (error \<Rightarrow> string) \<Rightarrow> error option \<Rightarrow> consume_event list \<Rightarrow> string \<Rightarrow> string \<Rightarrow> 'n \<Rightarrow>
     (z4t_result option \<times> string list \<times> Ack list) option" where
  "z4t_consume dial info attempts pull MarshalIndent Error close_send es addr queue n =
     (case NewClient dial info attempts [addr] n of
        None \<Rightarrow> None
      | Some (Inl err, _) \<Rightarrow> Some (Some (Panic [err]), [], [])
      | Some (Inr client, _) \<Rightarrow>
          (case startStream pull (GetLeader (zc_pool client)) \<lparr>cs_queue = queue, cs_stream = None\<rparr> of
             (start, _) \<Rightarrow>
               (case Consume start (print_and_ack MarshalIndent Error) close_send es newConsumer ([], []) of
                  (None, _, s) \<Rightarrow> Some (None, s)
                | (Some errs, _, s) \<Rightarrow>
                    Some (Some (if \<forall>e \<in> set errs. e = None then Printed (fst s) else Panic (map the (filter (\<lambda>e. e \<noteq> None) errs))), s))))"

text \<open>The dispatch on the argument. \<open>consume\<close> is the outcome of that command; the other commands print through the client of the peer.\<close>

definition z4t_main ::
  "(string \<Rightarrow> error option) \<Rightarrow> (string \<Rightarrow> 'w AdminStub) \<Rightarrow> (ClusterInfo \<Rightarrow> error + string) \<Rightarrow> (string \<Rightarrow> string \<Rightarrow> z4t_result) \<Rightarrow>
     Flags \<Rightarrow> 'w \<Rightarrow> z4t_result \<times> 'w" where
  "z4t_main dial NewAdminClient MarshalIndent consume fl w =
     (case fl_args fl of
        [arg] \<Rightarrow>
          (case dial (fl_t fl) of
             Some err \<Rightarrow> (Panic [err], w)
           | None \<Rightarrow>
               (let admin = NewAdminClient (fl_t fl)
                in if arg = ''add-peer'' then z4t_addPeer admin (fl_p fl) (fl_id fl) w
                   else if arg = ''remove-peer'' then z4t_removePeer admin (fl_id fl) w
                   else if arg = ''info'' then z4t_info MarshalIndent admin w
                   else if arg = ''consume'' then (consume (fl_t fl) (fl_q fl), w)
                   else (Printed [''help''], w)))
      | _ \<Rightarrow> (Printed [''help''], w))"

text \<open>The client of a peer whose service is that of theory \<open>Api_Admin\<close>.\<close>

definition admin_stub ::
  "(string \<Rightarrow> string \<Rightarrow> 'w \<Rightarrow> error option \<times> 'w) \<Rightarrow> (string \<Rightarrow> 'w \<Rightarrow> error option \<times> 'w) \<Rightarrow> (string \<Rightarrow> 'w \<Rightarrow> (error + unit) \<times> 'w) \<Rightarrow>
     (string \<Rightarrow> error + string) \<Rightarrow> ('w \<Rightarrow> error + raft_server list) \<Rightarrow> Admin \<Rightarrow> 'w AdminStub" where
  "admin_stub raft_AddVoter raft_RemoveServer remote lookup GetConfiguration a =
     \<lparr>ac_AddClusterMember = AddClusterMember raft_AddVoter remote a,
      ac_RemoveClusterMember = RemoveClusterMember raft_RemoveServer remote a,
      ac_GetClusterInfo = (\<lambda>w. (GetClusterInfo lookup (GetConfiguration w) a, w))\<rparr>"

section \<open>What the tool does\<close>

text \<open>The tasks that a consumer receives before its loop ends, with a function that returns no error.\<close>

fun received :: "consume_event list \<Rightarrow> Task list" where
  "received [] = []"
| "received (ConsumerDone err # es) = []"
| "received (ReceiveFailed err reconnect # es) =
     (if (errors_is err EOF \<or> is_unavailable err) \<and> reconnect = None then received es else [])"
| "received (Received task # es) = task # received es"

text \<open>Such a function is called with each of them, in order, and each counts as not acknowledged.\<close>

lemma consume_loop_fold:
  assumes "\<And>s t. f s t = (None, g s t)"
  shows "consume_loop f close_send es c s = (r, c', s') \<Longrightarrow>
    s' = foldl g s (received es) \<and> co_unackedMsgCount c' = co_unackedMsgCount c + int (length (received es))"
proof (induction es arbitrary: c s)
  case (Cons e es)
  show ?case
  proof (cases e)
    case (Received task)
    with Cons.prems Cons.IH [of "c\<lparr>co_unackedMsgCount := co_unackedMsgCount c + 1\<rparr>" "g s task"]
    show ?thesis by (simp add: assms Let_def)
  qed (use Cons in \<open>auto split: if_splits\<close>)
qed simp

lemma print_and_ack_fold: "snd (foldl (\<lambda>s t. snd (print_and_ack MarshalIndent Error s t)) s ts) = snd s @ map Message_Ack ts"
  by (induction ts arbitrary: s) (simp_all add: print_and_ack_def)

lemma consume_loop_acks:
  "consume_loop (print_and_ack MarshalIndent Error) close_send es c s = (r, c', s') \<Longrightarrow>
     snd s' = snd s @ map Message_Ack (received es) \<and> co_unackedMsgCount c' = co_unackedMsgCount c + int (length (received es))"
  using consume_loop_fold [of "print_and_ack MarshalIndent Error" "\<lambda>s t. snd (print_and_ack MarshalIndent Error s t)"]
  by (metis print_and_ack_fold print_and_ack_def prod.collapse fst_conv)

text \<open>The handler of acknowledgements sends each of them; once the consumer is closed it ends with the last one that is outstanding.\<close>

fun ack_rounds :: "nat \<Rightarrow> Consumer \<Rightarrow> (bool \<times> ack_outcome list \<times> Consumer) option" where
  "ack_rounds 0 c = Some (True, [], c)"
| "ack_rounds (Suc k) c =
     (case startAckHandler_round [(None, None)] c of
        None \<Rightarrow> None
      | Some (False, r, c') \<Rightarrow> Some (False, [r], c')
      | Some (True, r, c') \<Rightarrow> (case ack_rounds k c' of None \<Rightarrow> None | Some (go, rs, c'') \<Rightarrow> Some (go, r # rs, c'')))"

lemma ack_rounds_open:
  "\<not> co_closed c \<Longrightarrow> ack_rounds k c = Some (True, replicate k AckSent, c\<lparr>co_unackedMsgCount := co_unackedMsgCount c - int k\<rparr>)"
  by (induction k arbitrary: c) (simp_all add: startAckHandler_round_def Let_def)

lemma ack_rounds_closed:
  "co_closed c \<Longrightarrow> co_unackedMsgCount c = int (Suc k) \<Longrightarrow>
     ack_rounds (Suc k) c = Some (False, replicate (Suc k) AckDropped, c\<lparr>co_unackedMsgCount := 0\<rparr>)"
proof (induction k arbitrary: c)
  case 0
  then show ?case by (simp add: startAckHandler_round_def Let_def)
next
  case (Suc k)
  let ?c = "c\<lparr>co_unackedMsgCount := co_unackedMsgCount c - 1\<rparr>"
  have "startAckHandler_round [(None, None)] c = Some (True, AckDropped, ?c)" using Suc.prems by (simp add: startAckHandler_round_def Let_def)
  with Suc.IH [of ?c] Suc.prems show ?case by (simp add: ack_rounds.simps(2) [of "Suc k"] del: ack_rounds.simps)
qed

section \<open>Properties\<close>



end
