(* ===== verification/Load_Test.thy ===== *)
theory Load_Test
  imports Client_Api
begin

text \<open>
  The loop of the streaming producer (\<^verbatim>\<open>handleCallbacks\<close> of \<^verbatim>\<open>src/pkg/z4/producer.go\<close>) and the two load generators built on
  the client library, \<^verbatim>\<open>src/cmd/load/publisher\<close> and \<^verbatim>\<open>src/cmd/load/consumer\<close>. The lemmas say how the futures that the publisher
  reads follow from the producer, and when the two programs end.
\<close>

section \<open>The loop of the producer\<close>

text \<open>
  What the loop finds: the end of the context, or what \<^verbatim>\<open>Recv\<close> yields, with the outcomes of a reconnection that may follow.
  The boolean says whether the loop still runs.
\<close>

datatype callback_event =
    CallbacksDone
  | CallbackRecv "error + PushStreamResponse" "error option" "error option"

fun handleCallbacks :: "callback_event list \<Rightarrow> StreamingProducer \<Rightarrow> (bool \<times> StreamingProducer) option" where
  "handleCallbacks [] p = Some (True, p)"
| "handleCallbacks (CallbacksDone # es) p = Some (False, p)"
| "handleCallbacks (CallbackRecv recv reset open_stream # es) p =
     (case handleCallbacks_round recv reset open_stream p of
        None \<Rightarrow> None
      | Some (go, p') \<Rightarrow> if go then handleCallbacks es p' else Some (False, p'))"

section \<open>The publisher\<close>

definition requestsToSend :: nat where
  "requestsToSend = 100000000"

text \<open>
  The goroutine that reads the futures in the order in which they were made: it counts those without an error, prints the errors of the
  others, and signals \<^verbatim>\<open>done\<close> with the last of \<open>goal\<close> successes. A future that is not set makes it wait. The result is whether it
  signalled, the count and what was printed.
\<close>

fun read_responses :: "nat \<Rightarrow> TaskFuture list \<Rightarrow> nat \<Rightarrow> error list \<Rightarrow> bool \<times> nat \<times> error list" where
  "read_responses goal [] cnt out = (False, cnt, out)"
| "read_responses goal (f # fs) cnt out =
     (case TaskFuture_Error f of
        None \<Rightarrow> (False, cnt, out)
      | Some (Some _, f') \<Rightarrow>
          (case TaskFuture_Error f' of
             Some (Some err, _) \<Rightarrow> read_responses goal fs cnt (out @ [err])
           | _ \<Rightarrow> (False, cnt, out))
      | Some (None, _) \<Rightarrow>
          (if cnt + 1 = goal then (True, cnt + 1, out) else read_responses goal fs (cnt + 1) out))"

text \<open>
  The sending loop and the goroutine of the producer in the order in which they act: \<open>LoadCreate\<close> is a call of \<^verbatim>\<open>CreateTask\<close>, which the
  loop makes \<open>goal\<close> times, \<open>LoadCallback\<close> a round of the producer's loop, unless that has ended. \<open>None\<close> is a panic, or a call
  that does not return.
\<close>

datatype load_event =
    LoadCreate "(error option \<times> error option \<times> error option) list"
  | LoadCallback "error + PushStreamResponse" "error option" "error option"

fun load_run :: "nat \<Rightarrow> load_event list \<Rightarrow> bool \<times> StreamingProducer \<Rightarrow> (bool \<times> StreamingProducer) option" where
  "load_run goal [] s = Some s"
| "load_run goal (LoadCreate os # es) (go, p) =
     (if sp_made p < goal
      then (case sp_CreateTask os p of None \<Rightarrow> None | Some (f, p') \<Rightarrow> load_run goal es (go, p'))
      else load_run goal es (go, p))"
| "load_run goal (LoadCallback recv reset open_stream # es) (go, p) =
     (if go
      then (case handleCallbacks_round recv reset open_stream p of None \<Rightarrow> None | Some s \<Rightarrow> load_run goal es s)
      else load_run goal es (go, p))"

text \<open>A future of the producer as the object that \<^verbatim>\<open>CreateTask\<close> returned.\<close>

definition future_object :: "(error + Task) option \<Rightarrow> TaskFuture" where
  "future_object r =
     (case r of
        None \<Rightarrow> newTaskFuture
      | Some (Inl err) \<Rightarrow> the (TaskFuture_set None (Some err) newTaskFuture)
      | Some (Inr task) \<Rightarrow> the (TaskFuture_set (Some task) None newTaskFuture))"

datatype load_result = LoadPanic error | LoadDone | LoadWaits

text \<open>
  \<^verbatim>\<open>ratelimit.New\<close> divides by the rate and panics for 0; the limiter only delays the calls. The program waits as long as it has requests
  to make or the reader has not signalled.
\<close>

definition loadTestStreaming ::
  "(string \<Rightarrow> error option) \<Rightarrow> (string \<Rightarrow> 'n \<Rightarrow> (error + ClusterInfo) \<times> 'n) \<Rightarrow> nat \<Rightarrow> (string option \<Rightarrow> error option) \<Rightarrow>
     nat \<Rightarrow> string \<Rightarrow> load_event list \<Rightarrow> int \<Rightarrow> 'n \<Rightarrow> load_result option" where
  "loadTestStreaming dial info attempts open_stream goal targets es rps n =
     (case NewClient dial info attempts (strings_Split targets CHR '','') n of
        None \<Rightarrow> None
      | Some (Inl err, _) \<Rightarrow> Some (LoadPanic err)
      | Some (Inr client, _) \<Rightarrow>
          (case Client_StreamingProducer open_stream client of
             Inl err \<Rightarrow> Some (LoadPanic err)
           | Inr producer \<Rightarrow>
               (if rps = 0 then Some (LoadPanic (EMsg ''integer divide by zero''))
                else case load_run goal es (True, producer) of
                       None \<Rightarrow> None
                     | Some (_, p) \<Rightarrow>
                         (if sp_made p = goal \<and> fst (read_responses goal (map (\<lambda>f. future_object (sp_result p f)) [0..<sp_made p]) 0 [])
                          then Some LoadDone else Some LoadWaits))))"

definition publisher_main ::
  "(string \<Rightarrow> error option) \<Rightarrow> (string \<Rightarrow> 'n \<Rightarrow> (error + ClusterInfo) \<times> 'n) \<Rightarrow> nat \<Rightarrow> (string option \<Rightarrow> error option) \<Rightarrow>
     string \<Rightarrow> string \<Rightarrow> load_event list \<Rightarrow> 'n \<Rightarrow> load_result option" where
  "publisher_main dial info attempts open_stream rps_env targets es n =
     (case Atoi rps_env of
        Inl err \<Rightarrow> Some (LoadPanic err)
      | Inr rps \<Rightarrow> loadTestStreaming dial info attempts open_stream requestsToSend targets es rps n)"

section \<open>The consumer\<close>

text \<open>The function that the consumer calls counts the task and acknowledges it. The state has the count and the acknowledgements, in order.\<close>

definition count_and_ack :: "nat \<times> Ack list \<Rightarrow> Task \<Rightarrow> error option \<times> nat \<times> Ack list" where
  "count_and_ack s task = (None, fst s + 1, snd s @ [Message_Ack task])"

text \<open>A line of the ticking goroutine: the count, if it has changed since the last line.\<close>

definition count_tick :: "nat \<Rightarrow> nat \<Rightarrow> string list \<times> nat" where
  "count_tick cnt last_count =
     (if last_count \<noteq> cnt then ([''consumed '' @ itoa (int cnt) @ '' tasks''], cnt) else ([], last_count))"

text \<open>\<open>None\<close> inside is a program that still consumes, \<open>Some []\<close> one that has returned and \<open>Some errs\<close> a panic with the errors of \<^verbatim>\<open>Consume\<close>.\<close>

definition consumer_main ::
  "(string \<Rightarrow> error option) \<Rightarrow> (string \<Rightarrow> 'n \<Rightarrow> (error + ClusterInfo) \<times> 'n) \<Rightarrow> nat \<Rightarrow> (string option \<Rightarrow> string \<Rightarrow> error option) \<Rightarrow>
     error option \<Rightarrow> consume_event list \<Rightarrow> string \<Rightarrow> string \<Rightarrow> 'n \<Rightarrow> (error list option \<times> nat \<times> Ack list) option" where
  "consumer_main dial info attempts pull close_send es targets queue n =
     (case NewClient dial info attempts (strings_Split targets CHR '','') n of
        None \<Rightarrow> None
      | Some (Inl err, _) \<Rightarrow> Some (Some [err], 0, [])
      | Some (Inr client, _) \<Rightarrow>
          (case startStream pull (GetLeader (zc_pool client)) \<lparr>cs_queue = queue, cs_stream = None\<rparr> of
             (start, _) \<Rightarrow>
               (case Consume start count_and_ack close_send es newConsumer (0, []) of
                  (r, _, s) \<Rightarrow> Some (map_option (List.map_filter (\<lambda>e. e)) r, s))))"

section \<open>The futures of the producer\<close>

lemma future_set_made: "future_set f r p = Some p' \<Longrightarrow> sp_made p' = sp_made p"
  by (auto simp: future_set_def split: if_splits)

lemma set_all_made: "set_all fs r p = Some p' \<Longrightarrow> sp_made p' = sp_made p"
  by (induction fs arbitrary: p) (auto simp: future_set_made split: option.splits)

lemma sp_reconnect_made: "sp_reconnect reset op p = Some (e, p') \<Longrightarrow> sp_made p' = sp_made p"
  by (auto simp: sp_reconnect_def dest: set_all_made split: option.splits)

lemma sp_send_made: "sp_send f os p = Some p' \<Longrightarrow> sp_made p' = sp_made p"
proof (induction f os p rule: sp_send.induct)
  case (2 f send reset op os p)
  then show ?case by (auto dest!: sp_reconnect_made split: option.splits if_splits) (metis future_set_made)+
qed simp

lemma made_steps:
  "sp_CreateTask os p = Some (f, p') \<Longrightarrow> sp_made p' = Suc (sp_made p)"
  "handleCallbacks_round recv reset op p = Some (go, p') \<Longrightarrow> sp_made p' = sp_made p"
  by (auto simp: sp_CreateTask_def handleCallbacks_round_def Let_def dest!: sp_send_made sp_reconnect_made future_set_made
      split: option.splits sum.splits list.splits if_splits)

lemma newStreamingProducer_ok: "sp_ok newStreamingProducer"
  by (simp add: sp_ok_def newStreamingProducer_def)

lemma handleCallbacks_ok:
  "sp_ok p \<Longrightarrow> handleCallbacks es p = Some (go, p') \<Longrightarrow> sp_ok p' \<and> (\<forall>g r. sp_result p g = Some r \<longrightarrow> sp_result p' g = Some r)"
proof (induction es p rule: handleCallbacks.induct)
  case (3 recv reset op es p)
  then obtain go' q where q: "handleCallbacks_round recv reset op p = Some (go', q)" by (auto split: option.splits)
  with handleCallbacks_round_cases [OF 3(2), of recv reset op] have "sp_ok q" "\<forall>g r. sp_result p g = Some r \<longrightarrow> sp_result q g = Some r" by auto
  with 3 q show ?case by (auto split: if_splits)
qed auto

text \<open>
  An error that is neither the end of the stream nor its unavailability changes nothing: the loop goes on as long as \<^verbatim>\<open>Recv\<close> reports it,
  which a broken stream does forever, and the futures that wait are never set.
\<close>

theorem handleCallbacks_spins:
  assumes "\<not> errors_is err EOF" "\<not> is_unavailable err"
  shows "handleCallbacks (replicate k (CallbackRecv (Inl err) reset open_stream)) p = Some (True, p)"
  using assms by (induction k) (simp_all add: handleCallbacks_round_def)

lemma load_run_ok:
  "load_run goal es s = Some s' \<Longrightarrow> sp_ok (snd s) \<Longrightarrow> sp_made (snd s) \<le> goal \<Longrightarrow>
     sp_ok (snd s') \<and> sp_made (snd s') \<le> goal \<and> (\<forall>g r. sp_result (snd s) g = Some r \<longrightarrow> sp_result (snd s') g = Some r)"
proof (induction goal es s rule: load_run.induct)
  case (2 goal os es go p)
  show ?case
  proof (cases "sp_made p < goal")
    case True
    with 2(3) obtain f q where q: "sp_CreateTask os p = Some (f, q)" "load_run goal es (go, q) = Some s'" by (auto split: option.splits)
    with sp_CreateTask_ok [of p os f q] made_steps(1) [OF q(1)] 2 True show ?thesis by auto
  qed (use 2 in auto)
next
  case (3 goal recv reset op es go p)
  show ?case
  proof (cases go)
    case True
    with 3(3) obtain q where q: "handleCallbacks_round recv reset op p = Some q" "load_run goal es q = Some s'" by (auto split: option.splits)
    with handleCallbacks_round_cases [of p recv reset op] 3(4) have "sp_ok (snd q)" "\<forall>g r. sp_result p g = Some r \<longrightarrow> sp_result (snd q) g = Some r"
      by auto
    moreover have "sp_made (snd q) = sp_made p" using made_steps(2) [of recv reset op p] q(1) by (cases q) simp
    ultimately show ?thesis using 3(1) [OF True q(1,2)] 3(5) by auto
  qed (use 3 in auto)
qed simp

lemma load_run_append: "load_run goal (es @ es') s = (case load_run goal es s of None \<Rightarrow> None | Some s' \<Rightarrow> load_run goal es' s')"
  by (induction goal es s rule: load_run.induct) (auto split: option.splits)

section \<open>When the programs end\<close>

lemma future_object_Error:
  "TaskFuture_Error (future_object None) = None"
  "\<exists>f. TaskFuture_Error (future_object (Some (Inr t))) = Some (None, f)"
  "\<exists>f. TaskFuture_Error (future_object (Some (Inl e))) = Some (Some e, f) \<and> TaskFuture_Error f = Some (Some e, f)"
  by (auto simp: future_object_def TaskFuture_set_def TaskFuture_Error_def newTaskFuture_def)

lemma read_responses_done:
  "cnt + length rs \<le> goal \<Longrightarrow>
     fst (read_responses goal (map future_object rs) cnt out) \<longleftrightarrow>
       rs \<noteq> [] \<and> cnt + length rs = goal \<and> (\<forall>r \<in> set rs. \<exists>t. r = Some (Inr t))"
proof (induction rs arbitrary: cnt out)
  case (Cons r rs)
  consider "r = None" | e where "r = Some (Inl e)" | t where "r = Some (Inr t)" by (cases r) (auto, metis sum.exhaust)
  then show ?case
  proof cases
    case 1
    then show ?thesis by (simp add: future_object_Error(1))
  next
    case (2 e)
    then show ?thesis using future_object_Error(3) [of e] Cons by auto
  next
    case (3 t)
    then show ?thesis using future_object_Error(2) [of t] Cons.IH [of "cnt + 1"] Cons.prems by auto
  qed
qed simp

text \<open>The publisher ends exactly if each of its requests made a task.\<close>

lemma loadTest_done:
  assumes "NewClient dial info attempts (strings_Split targets CHR '','') n = Some (Inr client, n')" "open_stream (GetLeader (zc_pool client)) = None"
    "rps \<noteq> 0" "load_run goal es (True, newStreamingProducer) = Some (go, p)" "goal \<noteq> 0"
  shows "loadTestStreaming dial info attempts open_stream goal targets es rps n = Some LoadDone \<longleftrightarrow>
    sp_made p = goal \<and> (\<forall>f < goal. \<exists>t. sp_result p f = Some (Inr t))"
proof -
  have "fst (read_responses goal (map (\<lambda>f. future_object (sp_result p f)) [0..<goal]) 0 []) \<longleftrightarrow> (\<forall>f < goal. \<exists>t. sp_result p f = Some (Inr t))"
    using read_responses_done [of 0 "map (sp_result p) [0..<goal]" goal "[]"] assms(5) by (simp add: comp_def atLeast0LessThan) blast
  with assms show ?thesis by (auto simp: loadTestStreaming_def Client_StreamingProducer_def)
qed

text \<open>
  A request that fails is printed and not counted, although no other replaces it: from then on the publisher never ends,
  whatever else happens.
\<close>

theorem publisher_never_ends:
  assumes "NewClient dial info attempts (strings_Split targets CHR '','') n = Some (Inr client, n')" "open_stream (GetLeader (zc_pool client)) = None"
    "rps \<noteq> 0" "load_run goal es (True, newStreamingProducer) = Some (go, p)" "f < sp_made p" "sp_result p f = Some (Inl err)"
  shows "loadTestStreaming dial info attempts open_stream goal targets (es @ es') rps n \<noteq> Some LoadDone"
proof (cases "load_run goal (es @ es') (True, newStreamingProducer)")
  case None
  with assms(1-3) show ?thesis by (simp add: loadTestStreaming_def Client_StreamingProducer_def)
next
  case (Some s)
  note start = newStreamingProducer_ok
  have p: "sp_ok p" "sp_made p \<le> goal" using load_run_ok [OF assms(4)] start by (auto simp: newStreamingProducer_def)
  have "load_run goal es' (go, p) = Some s" using Some assms(4) by (simp add: load_run_append)
  from load_run_ok [OF this] p assms(6) have r: "sp_result (snd s) f = Some (Inl err)" by auto
  obtain go' p' where s: "s = (go', p')" by (cases s)
  from loadTest_done [of dial, OF assms(1) _ assms(3) Some [unfolded s], of open_stream] assms(2) s p(2) assms(5)
  have "loadTestStreaming dial info attempts open_stream goal targets (es @ es') rps n = Some LoadDone \<Longrightarrow> \<exists>t. sp_result p' f = Some (Inr t)"
    by auto
  with r s show ?thesis by auto
qed

lemma count_and_ack_fold: "foldl (\<lambda>s t. snd (count_and_ack s t)) s ts = (fst s + length ts, snd s @ map Message_Ack ts)"
  by (induction ts arbitrary: s) (simp_all add: count_and_ack_def)

text \<open>The consumer counts and acknowledges each task that it receives, in order.\<close>

theorem consumer_main_counts:
  assumes "NewClient dial info attempts (strings_Split targets CHR '','') n = Some (Inr client, n')" "pull (GetLeader (zc_pool client)) queue = None"
  shows "\<exists>r. consumer_main dial info attempts pull close_send es targets queue n = Some (r, length (received es), map Message_Ack (received es))"
proof -
  obtain r c s where l: "consume_loop count_and_ack close_send es newConsumer (0, []) = (r, c, s)" by (cases "consume_loop count_and_ack close_send es newConsumer (0, [])")
  have f: "\<And>s t. count_and_ack s t = (None, snd (count_and_ack s t))" by (simp add: count_and_ack_def)
  from consume_loop_fold [OF f l] have "s = (length (received es), map Message_Ack (received es))" by (simp add: count_and_ack_fold)
  with l assms show ?thesis by (simp add: consumer_main_def startStream_def Consume_def)
qed

end
