(* ===== verification/Sql_Tables.thy ===== *)
theory Sql_Tables
  imports Task_Iterator Setting_Store
begin

text \<open>
  \<^verbatim>\<open>src/storage/sqli\<close>: the tables that the MySQL front end shows. A query of the task table must bound the delivery
  time and name the queue; the table finds both in the filters and reads that range of the scheduled tasks, and then
  applies the filters. The SQL engine is third-party code: expressions are trees of which the table looks at some
  constructors, and evaluating a filter on a row is an argument, as is the parser of dates.
\<close>

section \<open>Expressions\<close>

datatype expr =
    Between expr expr expr
  | GreaterThan expr expr
  | GreaterThanOrEqual expr expr
  | LessThan expr expr
  | LessThanOrEqual expr expr
  | Equals expr expr
  | GetField string
  | StringLiteral string
  | OtherExpr "expr list"

fun children :: "expr \<Rightarrow> expr list" where
  "children (Between v l u) = [v, l, u]"
| "children (GreaterThan l r) = [l, r]"
| "children (GreaterThanOrEqual l r) = [l, r]"
| "children (LessThan l r) = [l, r]"
| "children (LessThanOrEqual l r) = [l, r]"
| "children (Equals l r) = [l, r]"
| "children (GetField n) = []"
| "children (StringLiteral s) = []"
| "children (OtherExpr es) = es"

lemma children_size: "sum_list (map (\<lambda>x. 8 * size x + 2) (children e)) < 8 * size e + 1"
proof (cases e)
  case (OtherExpr es)
  have "sum_list (map (\<lambda>x. 8 * size x + 2) es) \<le> 8 * size_list size es" by (induction es) auto
  with OtherExpr show ?thesis by simp
qed auto

text \<open>
  \<^verbatim>\<open>sql.Inspect\<close>: the function is applied to an expression and, if it says so, to its children. The further call
  with \<open>nil\<close> after the children does nothing in the functions of this file.
\<close>

function inspect :: "(expr \<Rightarrow> 's \<Rightarrow> bool \<times> 's) \<Rightarrow> expr \<Rightarrow> 's \<Rightarrow> 's"
  and inspect_list :: "(expr \<Rightarrow> 's \<Rightarrow> bool \<times> 's) \<Rightarrow> expr list \<Rightarrow> 's \<Rightarrow> 's" where
  "inspect f e s = (case f e s of (go, s') \<Rightarrow> if go then inspect_list f (children e) s' else s')"
| "inspect_list f [] s = s"
| "inspect_list f (e # es) s = inspect_list f es (inspect f e s)"
  by pat_completeness auto
termination
  by (relation "measure (\<lambda>x. case x of Inl (f, e, s) \<Rightarrow> 8 * size e + 1 | Inr (f, es, s) \<Rightarrow> sum_list (map (\<lambda>x. 8 * size x + 2) es))")
    (use children_size in auto)

declare inspect.simps [simp del]

section \<open>The task table\<close>

record taskTableIterator =
  tt_filters :: "expr list"
  tt_rangeStart :: time
  tt_rangeEnd :: time
  tt_queue :: string
  tt_queueFound :: bool

definition isFieldExpression :: "expr \<Rightarrow> string \<Rightarrow> bool" where
  "isFieldExpression f field =
     inspect (\<lambda>e found. case e of GetField n \<Rightarrow> (if n = field then (False, True) else (True, found)) | _ \<Rightarrow> (True, found)) f False"

definition sql_getQueue :: "expr \<Rightarrow> string" where
  "sql_getQueue f =
     inspect (\<lambda>e queue. if queue \<noteq> [] then (False, queue)
                        else case e of StringLiteral s \<Rightarrow> (False, s) | _ \<Rightarrow> (True, queue)) f []"

text \<open>\<open>ParseAny\<close> is \<^verbatim>\<open>dateparse.ParseAny\<close>, which yields the zero time with an error.\<close>

definition getTime :: "(string \<Rightarrow> error + time) \<Rightarrow> expr \<Rightarrow> time" where
  "getTime ParseAny f =
     inspect (\<lambda>e ts. if \<not> IsZero ts then (False, ts)
                     else case e of
                            StringLiteral s \<Rightarrow> (case ParseAny s of Inl err \<Rightarrow> (True, zero_time) | Inr t \<Rightarrow> (False, t))
                          | _ \<Rightarrow> (True, ts)) f zero_time"

definition taskColumnDeliverAt :: string where
  "taskColumnDeliverAt = ''deliver_at''"

fun detectTimeBounds :: "(string \<Rightarrow> error + time) \<Rightarrow> expr \<Rightarrow> taskTableIterator \<Rightarrow> bool \<times> taskTableIterator" where
  "detectTimeBounds ParseAny (Between v lower upper) r =
     (if isFieldExpression v taskColumnDeliverAt
      then (True, r\<lparr>tt_rangeStart := getTime ParseAny lower, tt_rangeEnd := getTime ParseAny upper\<rparr>) else (False, r))"
| "detectTimeBounds ParseAny (GreaterThan left right) r =
     (if isFieldExpression left taskColumnDeliverAt
      then (True, r\<lparr>tt_rangeStart := getTime ParseAny right, tt_rangeEnd := MustTime iden_Max\<rparr>) else (False, r))"
| "detectTimeBounds ParseAny (GreaterThanOrEqual left right) r =
     (if isFieldExpression left taskColumnDeliverAt
      then (True, r\<lparr>tt_rangeStart := getTime ParseAny right, tt_rangeEnd := MustTime iden_Max\<rparr>) else (False, r))"
| "detectTimeBounds ParseAny (LessThan left right) r =
     (if isFieldExpression left taskColumnDeliverAt
      then (True, r\<lparr>tt_rangeStart := MustTime iden_Min, tt_rangeEnd := getTime ParseAny right\<rparr>) else (False, r))"
| "detectTimeBounds ParseAny (LessThanOrEqual left right) r =
     (if isFieldExpression left taskColumnDeliverAt
      then (True, r\<lparr>tt_rangeStart := MustTime iden_Min, tt_rangeEnd := getTime ParseAny right\<rparr>) else (False, r))"
| "detectTimeBounds ParseAny (Equals left right) r =
     (if isFieldExpression left taskColumnDeliverAt
      then (True, r\<lparr>tt_rangeStart := getTime ParseAny right, tt_rangeEnd := getTime ParseAny right\<rparr>) else (False, r))"
| "detectTimeBounds ParseAny _ r = (False, r)"

definition detectQueue :: "expr \<Rightarrow> taskTableIterator \<Rightarrow> bool \<times> taskTableIterator" where
  "detectQueue f r =
     (case f of
        Equals left right \<Rightarrow>
          (if isFieldExpression left ''queue'' then (True, r\<lparr>tt_queue := sql_getQueue right, tt_queueFound := True\<rparr>) else (False, r))
      | _ \<Rightarrow> (False, r))"

text \<open>The function that \<^verbatim>\<open>initBounds\<close> applies to every expression of the filters.\<close>

definition detect :: "(string \<Rightarrow> error + time) \<Rightarrow> expr \<Rightarrow> taskTableIterator \<Rightarrow> bool \<times> taskTableIterator" where
  "detect ParseAny e r =
     (case detectTimeBounds ParseAny e r of
        (True, r') \<Rightarrow> (False, r')
      | (False, r') \<Rightarrow> (case detectQueue e r' of (found, r'') \<Rightarrow> (\<not> found, r'')))"

definition initBounds :: "(string \<Rightarrow> error + time) \<Rightarrow> taskTableIterator \<Rightarrow> error + taskTableIterator \<times> TaskRange" where
  "initBounds ParseAny r =
     (let r' = foldl (\<lambda>r filter. inspect (detect ParseAny) filter r) r (tt_filters r)
      in if IsZero (tt_rangeStart r') \<or> IsZero (tt_rangeEnd r')
         then Inl (EMsg ''invalid or missing range query for field: deliver_at'')
         else if \<not> tt_queueFound r' then Inl (EMsg ''missing required queue in query'')
         else Inr (r', ScheduledRange (tt_queue r') (iden_New (tt_rangeStart r') 0) (iden_New (tt_rangeEnd r') 0)))"

definition newTaskTableIterator ::
  "(string \<Rightarrow> error + time) \<Rightarrow> expr list \<Rightarrow> db \<Rightarrow> error + taskTableIterator \<times> TaskIterator" where
  "newTaskTableIterator ParseAny filters d =
     (case initBounds ParseAny
             \<lparr>tt_filters = filters, tt_rangeStart = zero_time, tt_rangeEnd = zero_time, tt_queue = [], tt_queueFound = False\<rparr> of
        Inl err \<Rightarrow> Inl err
      | Inr (r, query) \<Rightarrow> Inr (r, NewTaskIterator d query))"

record task_row =
  row_queue :: string
  row_id :: string
  row_deliver_at :: time
  row_last_retry :: "time option"
  row_metadata :: "(string \<times> string) list"
  row_payload :: bytes

definition rowFromTask :: "Task \<Rightarrow> task_row" where
  "rowFromTask task =
     \<lparr>row_queue = task_queue task, row_id = task_id task, row_deliver_at = AsTime (schedule_time task),
      row_last_retry = (case last_retry task of None \<Rightarrow> None | Some ts \<Rightarrow> Some (AsTime (Some ts))),
      row_metadata = task_metadata task, row_payload = task_payload task\<rparr>"

text \<open>The filters on a row, in order; \<open>eval\<close> is \<^verbatim>\<open>filter.Eval\<close> and the conversion of its result to a boolean.\<close>

fun eval_filters :: "(expr \<Rightarrow> task_row \<Rightarrow> error + bool) \<Rightarrow> expr list \<Rightarrow> task_row \<Rightarrow> error + bool" where
  "eval_filters eval [] row = Inr True"
| "eval_filters eval (f # fs) row =
     (case eval f row of Inl err \<Rightarrow> Inl err | Inr b \<Rightarrow> if b then eval_filters eval fs row else Inr False)"

lemma ti_Next_shorter: "ti_Next pb ti = (Inr task, ti') \<Longrightarrow> length (ti_it ti') < length (ti_it ti)"
  by (auto simp: ti_Next_def ti_valid_def Let_def split: if_splits)

function tt_Next ::
  "codec \<Rightarrow> (expr \<Rightarrow> task_row \<Rightarrow> error + bool) \<Rightarrow> expr list \<Rightarrow> TaskIterator \<Rightarrow> (error + task_row) \<times> TaskIterator" where
  "tt_Next pb eval filters it =
     (case ti_Next pb it of
        (Inl err, it') \<Rightarrow> (Inl EOF, it')
      | (Inr task, it') \<Rightarrow>
          (let row = rowFromTask task
           in case eval_filters eval filters row of
                Inl err \<Rightarrow> (Inl err, it')
              | Inr b \<Rightarrow> if \<not> b then tt_Next pb eval filters it' else (Inr row, it')))"
  by pat_completeness auto

termination
  by (relation "measure (\<lambda>(pb, eval, filters, it). length (ti_it it))") (auto dest: ti_Next_shorter [OF sym])

declare tt_Next.simps [simp del]

text \<open>What the engine reads: rows until \<^verbatim>\<open>Next\<close> returns \<^verbatim>\<open>io.EOF\<close>, or the error that it returns.\<close>

lemma tt_Next_shorter: "tt_Next pb eval fs it = (Inr row, it') \<Longrightarrow> length (ti_it it') < length (ti_it it)"
proof (induction pb eval fs it rule: tt_Next.induct)
  case (1 pb eval fs it)
  from 1(2) obtain task it1 where t: "ti_Next pb it = (Inr task, it1)"
    by (subst (asm) tt_Next.simps) (auto split: prod.splits sum.splits)
  have "it' = it1 \<or> tt_Next pb eval fs it1 = (Inr row, it') \<and> eval_filters eval fs (rowFromTask task) = Inr False"
    using 1(2) by (subst (asm) tt_Next.simps) (auto simp: t Let_def split: sum.splits if_splits)
  with 1(1) [OF t [symmetric] refl refl] ti_Next_shorter [OF t] show ?case by fastforce
qed

function tt_rows :: "codec \<Rightarrow> (expr \<Rightarrow> task_row \<Rightarrow> error + bool) \<Rightarrow> expr list \<Rightarrow> TaskIterator \<Rightarrow> error + task_row list" where
  "tt_rows pb eval filters it =
     (case tt_Next pb eval filters it of
        (Inl err, _) \<Rightarrow> if err = EOF then Inr [] else Inl err
      | (Inr row, it') \<Rightarrow> (case tt_rows pb eval filters it' of Inl err \<Rightarrow> Inl err | Inr rows \<Rightarrow> Inr (row # rows)))"
  by pat_completeness auto

termination
  by (relation "measure (\<lambda>(pb, eval, filters, it). length (ti_it it))") (auto dest: tt_Next_shorter [OF sym])

declare tt_rows.simps [simp del]

section \<open>The queue table\<close>

record queueTableIterator =
  qt_items :: "QueueConfig list"
  qt_i :: nat

record queue_row =
  qrow_id :: string
  qrow_last_delivered_scheduled_task :: string
  qrow_last_delivered_queued_task :: string
  qrow_ack_deadline_seconds :: int

definition newQueueTableIterator :: "codec \<Rightarrow> db \<Rightarrow> error + queueTableIterator" where
  "newQueueTableIterator pb d =
     (case SettingStore_GetAll pb d of
        Inl err \<Rightarrow> Inl (EWrap ''failed to load queue settings from database'' err)
      | Inr items \<Rightarrow> Inr \<lparr>qt_items = items, qt_i = 0\<rparr>)"

definition rowFromSettings :: "QueueConfig \<Rightarrow> queue_row" where
  "rowFromSettings settings =
     \<lparr>qrow_id = qc_id settings, qrow_last_delivered_scheduled_task = last_delivered_scheduled_task settings,
      qrow_last_delivered_queued_task = last_delivered_queued_task settings,
      qrow_ack_deadline_seconds = ack_deadline_seconds settings\<rparr>"

definition qt_Next :: "queueTableIterator \<Rightarrow> (error + queue_row) \<times> queueTableIterator" where
  "qt_Next r =
     (if qt_i r \<ge> length (qt_items r) then (Inl EOF, r)
      else (Inr (rowFromSettings (qt_items r ! qt_i r)), r\<lparr>qt_i := qt_i r + 1\<rparr>))"

section \<open>What a query of the task table returns\<close>

lemma tt_rows_takeWhile:
  fixes es b p
  defines "in_query \<equiv> \<lambda>e. prefix p (fst e) \<and> fst e \<le> b"
  assumes "\<forall>e \<in> set (takeWhile in_query es). entry_task pb e = Inr (task_of pb e)" "\<forall>row. eval_filters eval fs row = Inr (P row)"
  shows "tt_rows pb eval fs \<lparr>ti_it = es, ti_end = b, ti_prefix = p\<rparr>
    = Inr (filter P (map (\<lambda>e. rowFromTask (task_of pb e)) (takeWhile in_query es)))"
  using assms(2)
proof (induction es)
  case Nil
  show ?case by (subst tt_rows.simps, subst tt_Next.simps) (simp add: ti_Next_Nil)
next
  case (Cons e es)
  show ?case
  proof (cases "in_query e")
    case False
    then show ?thesis
      by (subst tt_rows.simps, subst tt_Next.simps) (auto simp: ti_Next_Cons in_query_def split: sum.splits)
  next
    case True
    with Cons.prems have e: "entry_task pb e = Inr (task_of pb e)" by simp
    from True e have n: "ti_Next pb \<lparr>ti_it = e # es, ti_end = b, ti_prefix = p\<rparr> = (Inr (task_of pb e), \<lparr>ti_it = es, ti_end = b, ti_prefix = p\<rparr>)"
      by (simp add: ti_Next_Cons in_query_def)
    have IH: "tt_rows pb eval fs \<lparr>ti_it = es, ti_end = b, ti_prefix = p\<rparr>
      = Inr (filter P (map (\<lambda>e. rowFromTask (task_of pb e)) (takeWhile in_query es)))"
      using Cons True by simp
    show ?thesis
    proof (cases "P (rowFromTask (task_of pb e))")
      case P: True
      show ?thesis using IH True P by (subst tt_rows.simps, subst tt_Next.simps) (simp add: n assms(3))
    next
      case P: False
      have "tt_rows pb eval fs \<lparr>ti_it = e # es, ti_end = b, ti_prefix = p\<rparr> = tt_rows pb eval fs \<lparr>ti_it = es, ti_end = b, ti_prefix = p\<rparr>"
        using P by (subst (1 2) tt_rows.simps, subst tt_Next.simps) (simp add: n assms(3))
      with IH True P show ?thesis by simp
    qed
  qed
qed

text \<open>C33. A query of the task table whose filters can be evaluated: the rows are those of the scheduled tasks of the queue, between
  the bounds that were found in the filters, that pass all filters, each once and in the order of their identifiers.\<close>

theorem sql_query_rows:
  assumes "db_ok d" "tasks_wf pb d" "\<forall>t \<in> stored_tasks pb d. plain_queue (task_queue t)"
    and "newTaskTableIterator ParseAny filters d = Inr (r, it)" "plain_queue (tt_queue r)"
    and "\<forall>row. eval_filters eval filters row = Inr (P row)"
  shows "\<exists>ts. set ts = {t \<in> stored_tasks pb d. task_queue t = tt_queue r \<and> schedule_time t \<noteq> None \<and>
      iden_New (tt_rangeStart r) 0 \<le> task_tid t \<and> task_tid t \<le> iden_New (tt_rangeEnd r) 0} \<and>
    sorted_wrt (\<lambda>t u. task_tid t < task_tid u) ts \<and>
    tt_rows pb eval filters it = Inr (filter P (map rowFromTask ts))"
proof -
  let ?q = "ScheduledRange (tt_queue r) (iden_New (tt_rangeStart r) 0) (iden_New (tt_rangeEnd r) 0)"
  have it: "it = NewTaskIterator d ?q"
    using assms(4) by (auto simp: newTaskTableIterator_def initBounds_def Let_def split: sum.splits if_splits)
  have "\<forall>e \<in> set (range_entries d ?q). entry_task pb e = Inr (task_of pb e)"
    using range_entry_task(1) [OF assms(2)] by blast
  with tt_rows_takeWhile [of "GetPrefix ?q" "GetEnd ?q" "iter_SeekGE d (GetStart ?q)", OF _ assms(6)]
  have "tt_rows pb eval filters it = Inr (filter P (map (\<lambda>e. rowFromTask (task_of pb e)) (range_entries d ?q)))"
    unfolding it NewTaskIterator_def query_takeWhile [OF assms(1)] by blast
  moreover have "range_less ?q = (\<lambda>t u. task_tid t < task_tid u)" by (simp add: fun_eq_iff)
  ultimately show ?thesis
    using range_tasks_spec [OF assms(1,2), of ?q] assms(3,5)
    by (intro exI [of _ "map (task_of pb) (range_entries d ?q)"]) (simp add: comp_def)
qed

text \<open>A database with one scheduled task, and a query for it.\<close>

definition sample_sched_db :: db where
  "sample_sched_db = \<lparr>db_kv = [(getScheduledTaskKey ''q'' (iden_New (time_Unix 1700000000 0) 4),
     enc_task (sched_sample ''q'' 1700000000 4))], db_faults = []\<rparr>"

definition sample_filters :: "expr list" where
  "sample_filters = [Equals (GetField ''queue'') (StringLiteral ''q''), GreaterThan (GetField ''deliver_at'') (StringLiteral ''2020'')]"

lemma sample_sched_db:
  "db_ok sample_sched_db" "tasks_wf wire_codec sample_sched_db" "stored_tasks wire_codec sample_sched_db = {sched_sample ''q'' 1700000000 4}"
  by (auto simp: sample_sched_db_def db_ok_def tasks_wf_def task_entry_def stored_tasks_def getTaskKey_def
      getScheduledTaskKey_def getSchedPrefix_def)

lemma MustTime_Max: "MustTime iden_Max = time_Unix 0 (- 1000000000)"
  by (simp add: iden_Max_def iden_Max_nano)

lemma sample_times [simp]: "IsZero zero_time" "\<not> IsZero (time_Unix 1600000000 0)" "\<not> IsZero (MustTime iden_Max)"
  unfolding MustTime_Max
  by (simp_all add: IsZero_def zero_time_def time_Unix_def nsec_per_sec_def unixToInternal_def wrap64_def)

lemma sample_range:
  "iden_New (time_Unix 1600000000 0) 0 \<le> iden_New (time_Unix 1700000000 0) 4"
  "iden_New (time_Unix 1700000000 0) 4 \<le> iden_New (MustTime iden_Max) 0"
  unfolding MustTime_Max not_less [symmetric] iden_New_less_iff
  by (simp_all add: go_time_eval)

lemma sample_bounds:
  "initBounds (\<lambda>_. Inr (time_Unix 1600000000 0)) \<lparr>tt_filters = sample_filters, tt_rangeStart = zero_time, tt_rangeEnd = zero_time,
      tt_queue = [], tt_queueFound = False\<rparr> =
   Inr (\<lparr>tt_filters = sample_filters, tt_rangeStart = time_Unix 1600000000 0, tt_rangeEnd = MustTime iden_Max,
      tt_queue = ''q'', tt_queueFound = True\<rparr>,
     ScheduledRange ''q'' (iden_New (time_Unix 1600000000 0) 0) (iden_New (MustTime iden_Max) 0))"
  by (simp add: initBounds_def sample_filters_def inspect.simps detect_def detectQueue_def isFieldExpression_def
      taskColumnDeliverAt_def sql_getQueue_def getTime_def Let_def)

theorem sql_query_rows_witness:
  "\<exists>r it. newTaskTableIterator (\<lambda>_. Inr (time_Unix 1600000000 0)) sample_filters sample_sched_db = Inr (r, it) \<and>
     tt_rows wire_codec (\<lambda>f row. Inr True) sample_filters it = Inr [rowFromTask (sched_sample ''q'' 1700000000 4)]"
proof -
  obtain r it where r: "newTaskTableIterator (\<lambda>_. Inr (time_Unix 1600000000 0)) sample_filters sample_sched_db = Inr (r, it)"
    "tt_queue r = ''q''" "tt_rangeStart r = time_Unix 1600000000 0" "tt_rangeEnd r = MustTime iden_Max"
    by (simp add: newTaskTableIterator_def sample_bounds)
  have plain: "\<forall>t \<in> stored_tasks wire_codec sample_sched_db. plain_queue (task_queue t)" "plain_queue (tt_queue r)"
    by (simp_all add: sample_sched_db(3) r(2) plain_queue_def)
  obtain ts where ts: "set ts = {t \<in> stored_tasks wire_codec sample_sched_db. task_queue t = tt_queue r \<and> schedule_time t \<noteq> None \<and>
      iden_New (tt_rangeStart r) 0 \<le> task_tid t \<and> task_tid t \<le> iden_New (tt_rangeEnd r) 0}"
    "sorted_wrt (\<lambda>t u. task_tid t < task_tid u) ts"
    "tt_rows wire_codec (\<lambda>f row. Inr True) sample_filters it = Inr (filter (\<lambda>_. True) (map rowFromTask ts))"
    using sql_query_rows [OF sample_sched_db(1,2) plain(1) r(1) plain(2), of "\<lambda>f row. Inr True" "\<lambda>_. True"]
    by (auto simp: sample_filters_def)
  have "set ts = {sched_sample ''q'' 1700000000 4}"
    unfolding ts(1) sample_sched_db(3) r(2-4) by (auto simp: task_tid_def sample_range)
  from distinct_singleton [OF sorted_wrt_distinct [OF ts(2)] this] ts(3) r(1) show ?thesis by simp
qed

text \<open>
  The upper bound of the range has index 0. A task at exactly that time has a positive index in general, and is not
  found, even by a filter that includes the bound; a query for one point in time finds nothing.
\<close>

theorem sql_upper_bound_missed:
  assumes "newTaskTableIterator ParseAny filters d = Inr (r, it)" "task_tid t = iden_New (tt_rangeEnd r) i" "i \<noteq> 0"
  shows "\<not> task_tid t \<le> iden_New (tt_rangeEnd r) 0"
  using assms(2,3) by (simp add: not_le iden_New_less_iff word_neq_0_conv)

end
