(* ===== verification/Sql_Database.thy ===== *)
theory Sql_Database
  imports Sql_Tables Go_Strings
begin

text \<open>
  The database of the MySQL front end (\<^verbatim>\<open>src/storage/sqli/wire.go\<close>) and the tables as the engine sees them: their
  schemas, partitions and rows of SQL values. The lemmas say under which names the tables are found, and that
  the rows have the types of the schema.
\<close>

section \<open>Values and schemas\<close>

datatype sql_type = TText | TTimestamp | TJSON | TBlob | TUint32

datatype sql_value =
    VNull
  | VText string
  | VTime time
  | VJSON "(string \<times> string) list"
  | VBlob bytes
  | VUint32 int

record Column =
  col_Name :: string
  col_Type :: sql_type
  col_Nullable :: bool
  col_Source :: string

fun has_type :: "sql_value \<Rightarrow> sql_type \<Rightarrow> bool" where
  "has_type (VText s) t = (t = TText)"
| "has_type (VTime ts) t = (t = TTimestamp)"
| "has_type (VJSON m) t = (t = TJSON)"
| "has_type (VBlob b) t = (t = TBlob)"
| "has_type (VUint32 n) t = (t = TUint32)"
| "has_type VNull t = False"

definition conforms :: "Column list \<Rightarrow> sql_value list \<Rightarrow> bool" where
  "conforms schema row \<longleftrightarrow> list_all2 (\<lambda>c v. if v = VNull then col_Nullable c else has_type v (col_Type c)) schema row"

section \<open>The tables\<close>

definition taskTableID :: string where
  "taskTableID = ''task''"

definition queueTableID :: string where
  "queueTableID = ''queue''"

record taskTable =
  ta_name :: string
  ta_schema :: "Column list"
  ta_filters :: "expr list"

record queueTable =
  qu_name :: string
  qu_schema :: "Column list"

definition newTaskTable :: taskTable where
  "newTaskTable =
     \<lparr>ta_name = taskTableID,
      ta_schema =
        [\<lparr>col_Name = ''queue'', col_Type = TText, col_Nullable = False, col_Source = taskTableID\<rparr>,
         \<lparr>col_Name = ''id'', col_Type = TText, col_Nullable = False, col_Source = taskTableID\<rparr>,
         \<lparr>col_Name = taskColumnDeliverAt, col_Type = TTimestamp, col_Nullable = False, col_Source = taskTableID\<rparr>,
         \<lparr>col_Name = ''last_retry'', col_Type = TTimestamp, col_Nullable = True, col_Source = taskTableID\<rparr>,
         \<lparr>col_Name = ''metadata'', col_Type = TJSON, col_Nullable = True, col_Source = taskTableID\<rparr>,
         \<lparr>col_Name = ''payload'', col_Type = TBlob, col_Nullable = True, col_Source = taskTableID\<rparr>],
      ta_filters = []\<rparr>"

definition newTaskTableWithFilters :: "taskTable \<Rightarrow> expr list \<Rightarrow> taskTable" where
  "newTaskTableWithFilters table filters = \<lparr>ta_name = ta_name table, ta_schema = ta_schema table, ta_filters = filters\<rparr>"

definition newQueueTable :: queueTable where
  "newQueueTable =
     \<lparr>qu_name = queueTableID,
      qu_schema =
        [\<lparr>col_Name = ''id'', col_Type = TText, col_Nullable = False, col_Source = queueTableID\<rparr>,
         \<lparr>col_Name = ''last_delivered_scheduled_task'', col_Type = TText, col_Nullable = True, col_Source = queueTableID\<rparr>,
         \<lparr>col_Name = ''last_delivered_queued_task'', col_Type = TText, col_Nullable = True, col_Source = queueTableID\<rparr>,
         \<lparr>col_Name = ''ack_deadline_seconds'', col_Type = TUint32, col_Nullable = False, col_Source = queueTableID\<rparr>]\<rparr>"

text \<open>\<^verbatim>\<open>sql.Table\<close>, as far as the front end implements it; the store of a table is the database \<open>d\<close> of the operations.\<close>

datatype table = TaskTable taskTable | QueueTable queueTable

fun table_Name :: "table \<Rightarrow> string" where
  "table_Name (TaskTable t) = ta_name t"
| "table_Name (QueueTable t) = qu_name t"

fun table_Schema :: "table \<Rightarrow> Column list" where
  "table_Schema (TaskTable t) = ta_schema t"
| "table_Schema (QueueTable t) = qu_schema t"

text \<open>The task table takes over all filters; the queue table is not a \<^verbatim>\<open>sql.FilteredTable\<close>.\<close>

definition HandledFilters :: "taskTable \<Rightarrow> expr list \<Rightarrow> expr list" where
  "HandledFilters t filters = filters"

definition WithFilters :: "taskTable \<Rightarrow> expr list \<Rightarrow> table" where
  "WithFilters t filters = TaskTable (newTaskTableWithFilters t filters)"

text \<open>The rows as they are handed to the engine.\<close>

definition task_values :: "task_row \<Rightarrow> sql_value list" where
  "task_values row =
     [VText (row_queue row), VText (row_id row), VTime (row_deliver_at row),
      (case row_last_retry row of None \<Rightarrow> VNull | Some ts \<Rightarrow> VTime ts), VJSON (row_metadata row), VBlob (row_payload row)]"

definition queue_values :: "queue_row \<Rightarrow> sql_value list" where
  "queue_values row =
     [VText (qrow_id row), VText (qrow_last_delivered_scheduled_task row), VText (qrow_last_delivered_queued_task row),
      VUint32 (qrow_ack_deadline_seconds row)]"

datatype row_iter = TaskRows "expr list" TaskIterator | QueueRows queueTableIterator

fun PartitionRows :: "codec \<Rightarrow> (string \<Rightarrow> error + time) \<Rightarrow> db \<Rightarrow> table \<Rightarrow> error + row_iter" where
  "PartitionRows pb ParseAny d (TaskTable t) =
     (case newTaskTableIterator ParseAny (ta_filters t) d of
        Inl err \<Rightarrow> Inl err
      | Inr (r, it) \<Rightarrow> Inr (TaskRows (tt_filters r) it))"
| "PartitionRows pb ParseAny d (QueueTable t) =
     (case newQueueTableIterator pb d of Inl err \<Rightarrow> Inl err | Inr it \<Rightarrow> Inr (QueueRows it))"

fun row_Next :: "codec \<Rightarrow> (expr \<Rightarrow> task_row \<Rightarrow> error + bool) \<Rightarrow> row_iter \<Rightarrow> (error + sql_value list) \<times> row_iter" where
  "row_Next pb eval (TaskRows fs it) =
     (case tt_Next pb eval fs it of
        (Inl err, it') \<Rightarrow> (Inl err, TaskRows fs it')
      | (Inr row, it') \<Rightarrow> (Inr (task_values row), TaskRows fs it'))"
| "row_Next pb eval (QueueRows it) =
     (case qt_Next it of
        (Inl err, it') \<Rightarrow> (Inl err, QueueRows it')
      | (Inr row, it') \<Rightarrow> (Inr (queue_values row), QueueRows it'))"

section \<open>Partitions\<close>

type_synonym noOpPartitionIterator = nat

definition Partitions :: "table \<Rightarrow> noOpPartitionIterator" where
  "Partitions t = 0"

definition partition_Next :: "noOpPartitionIterator \<Rightarrow> (error + unit) \<times> noOpPartitionIterator" where
  "partition_Next i = (if i = 0 then (Inr (), i + 1) else (Inl EOF, i))"

section \<open>The database\<close>

record Database =
  da_name :: string
  da_tables :: "string \<Rightarrow> table option"

definition NewDatabase :: "string \<Rightarrow> Database" where
  "NewDatabase name = \<lparr>da_name = name, da_tables = (\<lambda>_. None)\<rparr>"

definition AddTable :: "table \<Rightarrow> Database \<Rightarrow> Database" where
  "AddTable t d = d\<lparr>da_tables := (da_tables d)(table_Name t \<mapsto> t)\<rparr>"

text \<open>
  \<^verbatim>\<open>GetTableInsensitive\<close> of the library, which looks for the name itself first; \<open>order\<close> is the order in which the
  map is visited, and \<open>ToLower\<close> is \<^verbatim>\<open>strings.ToLower\<close>.
\<close>

definition GetTableInsensitive :: "(string \<Rightarrow> string) \<Rightarrow> string list \<Rightarrow> Database \<Rightarrow> string \<Rightarrow> table option" where
  "GetTableInsensitive ToLower order d tblName =
     (case da_tables d tblName of
        Some t \<Rightarrow> Some t
      | None \<Rightarrow> (case find (\<lambda>k. ToLower tblName = ToLower k) order of None \<Rightarrow> None | Some k \<Rightarrow> da_tables d k))"

definition GetTableNames :: "string list \<Rightarrow> Database \<Rightarrow> string list" where
  "GetTableNames order d = order"

definition wire_database :: Database where
  "wire_database = AddTable (QueueTable newQueueTable) (AddTable (TaskTable newTaskTable) (NewDatabase ''z4''))"

text \<open>
  \<^verbatim>\<open>StartWireListener\<close>: the outcomes of making and of running the server are arguments. \<^verbatim>\<open>Logger.Fatal\<close> ends the process,
  which is \<open>None\<close>.
\<close>

definition StartWireListener :: "(string \<Rightarrow> Database \<Rightarrow> error option) \<Rightarrow> error option \<Rightarrow> int \<Rightarrow> error option option" where
  "StartWireListener NewDefaultServer served port =
     (case NewDefaultServer (''0.0.0.0:'' @ itoa port) wire_database of
        Some err \<Rightarrow> None
      | None \<Rightarrow> (case served of Some err \<Rightarrow> None | None \<Rightarrow> Some None))"

section \<open>Scans\<close>

text \<open>What the engine does with a table: all rows of all partitions.\<close>

inductive reads :: "codec \<Rightarrow> (expr \<Rightarrow> task_row \<Rightarrow> error + bool) \<Rightarrow> row_iter \<Rightarrow> sql_value list list \<Rightarrow> bool" for pb eval where
  reads_end: "row_Next pb eval it = (Inl EOF, it') \<Longrightarrow> reads pb eval it []"
| reads_row: "row_Next pb eval it = (Inr row, it') \<Longrightarrow> reads pb eval it' rows \<Longrightarrow> reads pb eval it (row # rows)"

inductive scans ::
  "codec \<Rightarrow> (expr \<Rightarrow> task_row \<Rightarrow> error + bool) \<Rightarrow> (string \<Rightarrow> error + time) \<Rightarrow> db \<Rightarrow> table \<Rightarrow> noOpPartitionIterator \<Rightarrow> sql_value list list \<Rightarrow> bool"
  for pb eval ParseAny d t where
  scans_end: "partition_Next i = (Inl EOF, i') \<Longrightarrow> scans pb eval ParseAny d t i []"
| scans_partition: "partition_Next i = (Inr (), i') \<Longrightarrow> PartitionRows pb ParseAny d t = Inr it \<Longrightarrow> reads pb eval it rows \<Longrightarrow>
    scans pb eval ParseAny d t i' rows' \<Longrightarrow> scans pb eval ParseAny d t i (rows @ rows')"

lemma scans_once:
  "scans pb eval ParseAny d t (Partitions t) rows \<longleftrightarrow> (\<exists>it. PartitionRows pb ParseAny d t = Inr it \<and> reads pb eval it rows)"
proof
  assume "scans pb eval ParseAny d t (Partitions t) rows"
  then show "\<exists>it. PartitionRows pb ParseAny d t = Inr it \<and> reads pb eval it rows"
  proof cases
    case p: (scans_partition i' it rows1 rows2)
    from p(2) have "i' = 1" by (simp add: Partitions_def partition_Next_def)
    from p(5) have "rows2 = []" by cases (simp_all add: partition_Next_def \<open>i' = 1\<close>)
    with p show ?thesis by simp
  qed (simp add: Partitions_def partition_Next_def)
next
  assume "\<exists>it. PartitionRows pb ParseAny d t = Inr it \<and> reads pb eval it rows"
  moreover have "scans pb eval ParseAny d t (Suc 0) []" by (rule scans_end [of _ "Suc 0"]) (simp add: partition_Next_def)
  ultimately show "scans pb eval ParseAny d t (Partitions t) rows"
    using scans_partition [of "Partitions t" "Suc 0" pb ParseAny d t _ eval rows "[]"] by (auto simp: Partitions_def partition_Next_def)
qed

text \<open>A scan of the queue table gives the row of each setting once.\<close>

lemma reads_settings:
  "n \<le> length items \<Longrightarrow> reads pb eval (QueueRows \<lparr>qt_items = items, qt_i = n\<rparr>) rows \<longleftrightarrow> rows = map (queue_values \<circ> rowFromSettings) (drop n items)"
proof (induction "length items - n" arbitrary: n rows)
  case 0
  then have q: "qt_Next \<lparr>qt_items = items, qt_i = n\<rparr> = (Inl EOF, \<lparr>qt_items = items, qt_i = n\<rparr>)" by (simp add: qt_Next_def)
  then have "row_Next pb eval (QueueRows \<lparr>qt_items = items, qt_i = n\<rparr>) = (Inl EOF, QueueRows \<lparr>qt_items = items, qt_i = n\<rparr>)" by simp
  note n = this
  have "rows = []" if "reads pb eval (QueueRows \<lparr>qt_items = items, qt_i = n\<rparr>) rows" using that by cases (simp_all add: q)
  with 0 reads_end [OF n] show ?case by auto
next
  case (Suc k)
  then have n: "qt_Next \<lparr>qt_items = items, qt_i = n\<rparr> = (Inr (rowFromSettings (items ! n)), \<lparr>qt_items = items, qt_i = Suc n\<rparr>)" "n < length items"
    by (auto simp: qt_Next_def)
  have d: "drop n items = items ! n # drop (Suc n) items" using n(2) by (rule Cons_nth_drop_Suc [symmetric])
  have IH: "reads pb eval (QueueRows \<lparr>qt_items = items, qt_i = Suc n\<rparr>) rs \<longleftrightarrow> rs = map (queue_values \<circ> rowFromSettings) (drop (Suc n) items)" for rs
    using Suc by simp
  show ?case
  proof
    assume "reads pb eval (QueueRows \<lparr>qt_items = items, qt_i = n\<rparr>) rows"
    then show "rows = map (queue_values \<circ> rowFromSettings) (drop n items)" by cases (simp_all add: n d IH)
  next
    assume "rows = map (queue_values \<circ> rowFromSettings) (drop n items)"
    then show "reads pb eval (QueueRows \<lparr>qt_items = items, qt_i = n\<rparr>) rows" using reads_row [of pb eval _ _ _ "map (queue_values \<circ> rowFromSettings) (drop (Suc n) items)"]
      by (simp add: n d IH)
  qed
qed

lemma scan_queues:
  assumes "SettingStore_GetAll pb d = Inr items"
  shows "scans pb eval ParseAny d (QueueTable t) (Partitions (QueueTable t)) rows \<longleftrightarrow> rows = map (queue_values \<circ> rowFromSettings) items"
  using assms reads_settings [of 0 items pb eval rows] by (simp add: scans_once newQueueTableIterator_def)

lemma values_conform:
  "conforms (ta_schema newTaskTable) (task_values row)" "conforms (qu_schema newQueueTable) (queue_values row')"
  by (simp_all add: conforms_def newTaskTable_def newQueueTable_def task_values_def queue_values_def split: option.split)

lemma row_Next_iter:
  assumes "row_Next pb eval it = (Inr row, it')"
  shows "case it of
    TaskRows fs ti \<Rightarrow> (\<exists>ti' r. it' = TaskRows fs ti' \<and> row = task_values r)
  | QueueRows qi \<Rightarrow> (\<exists>qi' r. it' = QueueRows qi' \<and> row = queue_values r)"
  using assms by (cases it) (auto split: prod.splits sum.splits)

lemma reads_conform:
  assumes "reads pb eval it rows"
  shows "\<forall>row \<in> set rows. conforms (case it of TaskRows fs ti \<Rightarrow> ta_schema newTaskTable | QueueRows qi \<Rightarrow> qu_schema newQueueTable) row"
  using assms
proof (induction rule: reads.induct)
  case (reads_row it row it' rows)
  from row_Next_iter [OF reads_row(1)] reads_row(3) show ?case by (cases it) (auto simp: values_conform)
qed simp

lemma wire_database_tables:
  "da_tables wire_database = [taskTableID \<mapsto> TaskTable newTaskTable, queueTableID \<mapsto> QueueTable newQueueTable]"
  by (simp add: wire_database_def AddTable_def NewDatabase_def newTaskTable_def newQueueTable_def)

lemma find_insensitive:
  assumes "ToLower taskTableID = taskTableID" "ToLower queueTableID = queueTableID" "set order = dom (da_tables wire_database)"
  shows "GetTableInsensitive ToLower order wire_database name =
    (if ToLower name = taskTableID then Some (TaskTable newTaskTable)
     else if ToLower name = queueTableID then Some (QueueTable newQueueTable) else None)"
proof -
  have ne: "taskTableID \<noteq> queueTableID" by (simp add: taskTableID_def queueTableID_def)
  have o: "set order = {taskTableID, queueTableID}" using assms(3) by (auto simp: wire_database_tables)
  have t: "da_tables wire_database taskTableID = Some (TaskTable newTaskTable)" "da_tables wire_database queueTableID = Some (QueueTable newQueueTable)"
    "\<And>k. k \<noteq> taskTableID \<Longrightarrow> k \<noteq> queueTableID \<Longrightarrow> da_tables wire_database k = None"
    using ne by (simp_all add: wire_database_tables)
  show ?thesis
  proof (cases "find (\<lambda>k. ToLower name = ToLower k) order")
    case None
    then have n: "\<forall>k \<in> {taskTableID, queueTableID}. ToLower name \<noteq> ToLower k" unfolding o [symmetric] by (simp add: find_None_iff)
    with assms(1,2) have "name \<noteq> taskTableID" "name \<noteq> queueTableID" by auto
    with n show ?thesis using assms(1,2) by (simp add: GetTableInsensitive_def None t(3))
  next
    case (Some k)
    then have "k \<in> set order" "ToLower name = ToLower k" by (auto simp: find_Some_iff)
    then consider "k = taskTableID" "ToLower name = taskTableID" | "k = queueTableID" "ToLower name = queueTableID"
      using assms(1,2) o by auto
    then show ?thesis
    proof cases
      case 1
      then have "name \<noteq> queueTableID" using assms(2) ne by auto
      with 1 Some show ?thesis by (cases "name = taskTableID") (simp_all add: GetTableInsensitive_def t)
    next
      case 2
      then have "name \<noteq> taskTableID" using assms(1) ne by auto
      with 2 Some ne show ?thesis by (cases "name = queueTableID") (simp_all add: GetTableInsensitive_def t)
    qed
  qed
qed

section \<open>Properties\<close>

text \<open>C34. The tables that clients see. Whatever the case of its letters, the name of a table leads to it, and other names to
  none; the rows that a scan of a table gives, also of the task table with filters, have the types of its
  schema; and a scan of the queue table gives the settings of each queue once.\<close>

theorem sql_tables_typed:
  assumes "ToLower taskTableID = taskTableID" "ToLower queueTableID = queueTableID" "set order = dom (da_tables wire_database)"
  shows "GetTableInsensitive ToLower order wire_database name =
      (if ToLower name = taskTableID then Some (TaskTable newTaskTable)
       else if ToLower name = queueTableID then Some (QueueTable newQueueTable) else None) \<and>
    (\<forall>t rows. t = WithFilters newTaskTable fs \<or> GetTableInsensitive ToLower order wire_database name = Some t \<longrightarrow>
       scans pb eval ParseAny d t (Partitions t) rows \<longrightarrow> (\<forall>row \<in> set rows. conforms (table_Schema t) row)) \<and>
    (\<forall>items rows. SettingStore_GetAll pb d = Inr items \<longrightarrow>
       (scans pb eval ParseAny d (QueueTable newQueueTable) (Partitions (QueueTable newQueueTable)) rows \<longleftrightarrow>
        rows = map (queue_values \<circ> rowFromSettings) items))"
proof (intro conjI allI impI)
  show "GetTableInsensitive ToLower order wire_database name =
      (if ToLower name = taskTableID then Some (TaskTable newTaskTable)
       else if ToLower name = queueTableID then Some (QueueTable newQueueTable) else None)" by (rule find_insensitive [OF assms])
next
  fix t rows
  assume t: "t = WithFilters newTaskTable fs \<or> GetTableInsensitive ToLower order wire_database name = Some t"
    and "scans pb eval ParseAny d t (Partitions t) rows"
  then obtain it where it: "PartitionRows pb ParseAny d t = Inr it" "reads pb eval it rows" by (auto simp: scans_once)
  have "(case it of TaskRows fs ti \<Rightarrow> ta_schema newTaskTable | QueueRows qi \<Rightarrow> qu_schema newQueueTable) = table_Schema t"
    using t it(1)
    by (auto simp: find_insensitive [OF assms] WithFilters_def newTaskTableWithFilters_def split: if_splits sum.splits)
  with reads_conform [OF it(2)] show "\<forall>row \<in> set rows. conforms (table_Schema t) row" by simp
qed (rule scan_queues)

theorem sql_tables_typed_witness:
  "GetTableInsensitive id [''queue'', ''task''] wire_database ''queue'' = Some (QueueTable newQueueTable) \<and>
   scans wire_codec (\<lambda>_ _. Inr True) (\<lambda>_. Inl EOF)
     \<lparr>db_kv = [(getConfigKey ''q'', enc_config \<lparr>qc_id = ''q'', last_delivered_scheduled_task = [], last_delivered_queued_task = ''5'',
        ack_deadline_seconds = 30\<rparr>)], db_faults = []\<rparr>
     (QueueTable newQueueTable) (Partitions (QueueTable newQueueTable)) [[VText ''q'', VText [], VText ''5'', VUint32 30]]"
proof -
  let ?d = "\<lparr>db_kv = [(getConfigKey ''q'', enc_config \<lparr>qc_id = ''q'', last_delivered_scheduled_task = [], last_delivered_queued_task = ''5'',
        ack_deadline_seconds = 30\<rparr>)], db_faults = []\<rparr>"
  have o: "set [''queue'', ''task''] = dom (da_tables wire_database)" by (auto simp: wire_database_tables taskTableID_def queueTableID_def)
  have i: "SettingStore_GetAll wire_codec ?d = Inr [\<lparr>qc_id = ''q'', last_delivered_scheduled_task = [], last_delivered_queued_task = ''5'',
        ack_deadline_seconds = 30\<rparr>]"
    by (subst SettingStore_GetAll_eq) (simp_all add: db_ok_def getConfigKey_eq)
  from sql_tables_typed [OF _ _ o, of id "''queue''" "[]" wire_codec "\<lambda>_ _. Inr True" "\<lambda>_. Inl EOF" ?d] i show ?thesis
    by (simp add: queue_values_def rowFromSettings_def) (simp add: taskTableID_def queueTableID_def)
qed

end
